(* ===== verification/Go_Prelude.thy ===== *)
theory Go_Prelude
  imports Complex_Main "HOL-Library.Multiset" "HOL-Library.Signed_Division"
begin

text \<open>
  What every component of the model shares: Go errors as values, the wrap-around of
  64-bit integers, the pieces of the Go standard library the sources use on strings
  (\<open>fmt\<close> with \<open>%d\<close>, \<open>strings.Split\<close>, \<open>strings.HasPrefix\<close>, \<open>strings.TrimPrefix\<close>,
  \<open>strings.TrimSpace\<close>), the SQL \<open>UPDATE\<close> on a table kept as a list of rows, and the
  collections of facts the component proofs are run with.
\<close>

named_theorems op_defs \<open>definitions of the Go operations, unfolded to compute a call\<close>
named_theorems stmt_defs \<open>definitions of the SQL statements, unfolded to compute on tables\<close>
named_theorems keeps \<open>operations that keep the invariant of their component\<close>


section \<open>Errors and results\<close>

text \<open>
  A Go function that returns \<open>(T, error)\<close> returns \<open>Inl\<close> of the error or \<open>Inr\<close> of the
  value. Sentinel errors are constructors; \<open>Errorf a e b\<close> is \<open>fmt.Errorf\<close> with one
  \<open>%w\<close>, \<open>a\<close> and \<open>b\<close> being the texts before and after the wrapped error. \<open>PqErr\<close> is an
  error of the database server with its class and its message, \<open>NetErr\<close> an error of the
  connection, \<open>Panic\<close> a run-time panic of the Go code.
\<close>

datatype pg_code = Numeric_Out_Of_Range | Bad_Text | Bad_Json | Unique_Violation
  | Foreign_Key_Violation

datatype go_error = ErrNoRows | Redis_Nil | ErrInvalidToken
  | PqErr pg_code string | NetErr string | Panic string | Plain string
  | Errorf string go_error string

type_synonym 'a result = "go_error + 'a"

fun errors_Is :: "go_error \<Rightarrow> go_error \<Rightarrow> bool" where
  "errors_Is (Errorf a e b) t = (Errorf a e b = t \<or> errors_Is e t)"
| "errors_Is e t = (e = t)"

fun Error :: "go_error \<Rightarrow> string" where
  "Error ErrNoRows = ''sql: no rows in result set''"
| "Error Redis_Nil = ''redis: nil''"
| "Error ErrInvalidToken = ''invalid or unknown registration token''"
| "Error (PqErr c m) = m"
| "Error (NetErr m) = m"
| "Error (Panic m) = m"
| "Error (Plain m) = m"
| "Error (Errorf a e b) = a @ Error e @ b"


section \<open>Integers of a fixed width\<close>

text \<open>
  Go's \<open>int\<close>, \<open>int64\<close> and \<open>time.Duration\<close> are 64 bits wide here. They are kept as
  integers, and \<open>wrap64\<close> is written where an operation can leave the range; \<open>uint64\<close> is
  the conversion to an unsigned word. \<open>sdiv\<close> and \<open>smod\<close> truncate towards zero, as Go does.
\<close>

definition wrap64 :: "int \<Rightarrow> int" where
  "wrap64 x = (x + 2 ^ 63) mod 2 ^ 64 - 2 ^ 63"

definition uint64 :: "int \<Rightarrow> int" where
  "uint64 x = x mod 2 ^ 64"

definition int4_ok :: "int \<Rightarrow> bool" where
  "int4_ok x \<longleftrightarrow> - (2 ^ 31) \<le> x \<and> x < 2 ^ 31"


section \<open>Strings\<close>

definition digit :: "nat \<Rightarrow> char" where
  "digit d = char_of (48 + d)"

text \<open>The verb \<open>%d\<close>.\<close>

fun show_nat :: "nat \<Rightarrow> string" where
  "show_nat n = (if n < 10 then [digit n] else show_nat (n div 10) @ [digit (n mod 10)])"

definition show_int :: "int \<Rightarrow> string" where
  "show_int i = (if i < 0 then CHR ''-'' # show_nat (nat (- i)) else show_nat (nat i))"

definition value_of_digits :: "string \<Rightarrow> nat" where
  "value_of_digits s = foldl (\<lambda>a c. 10 * a + (of_char c - 48)) 0 s"

fun split_on :: "char \<Rightarrow> string \<Rightarrow> string list" where
  "split_on c [] = [[]]"
| "split_on c (x # xs) =
     (if x = c then [] # split_on c xs
      else (case split_on c xs of [] \<Rightarrow> [[x]] | w # ws \<Rightarrow> (x # w) # ws))"

definition has_prefix :: "string \<Rightarrow> string \<Rightarrow> bool" where
  "has_prefix s p \<longleftrightarrow> take (length p) s = p"

definition trim_prefix :: "string \<Rightarrow> string \<Rightarrow> string" where
  "trim_prefix s p = (if has_prefix s p then drop (length p) s else s)"

definition is_space :: "char \<Rightarrow> bool" where
  "is_space c \<longleftrightarrow> c \<in> set [CHR '' '', CHR 0x09, CHR 0x0A, CHR 0x0B, CHR 0x0C, CHR 0x0D]"

definition trim_space :: "string \<Rightarrow> string" where
  "trim_space s = rev (dropWhile is_space (rev (dropWhile is_space s)))"

text \<open>\<open>strings.Fields\<close>, on ASCII white space.\<close>

function words_of :: "string \<Rightarrow> string list" where
  "words_of s =
     (case dropWhile is_space s of
        [] \<Rightarrow> []
      | c # cs \<Rightarrow> takeWhile (\<lambda>c. \<not> is_space c) (c # cs) # words_of (dropWhile (\<lambda>c. \<not> is_space c) cs))"
  by pat_completeness auto

termination
proof (relation "measure length")
  fix s :: string and c cs
  assume "dropWhile is_space s = c # cs"
  then have "length (c # cs) \<le> length s" by (metis length_dropWhile_le)
  with length_dropWhile_le [of "\<lambda>c. \<not> is_space c" cs]
  show "(dropWhile (\<lambda>c. \<not> is_space c) cs, s) \<in> measure length" by simp
qed simp

declare words_of.simps [simp del]

text \<open>\<open>n, _ := strconv.Atoi(s)\<close>: zero for what is no number, the nearest \<open>int\<close> for one that
  does not fit.\<close>

definition clamp64 :: "int \<Rightarrow> int" where
  "clamp64 x = max (- (2 ^ 63)) (min (2 ^ 63 - 1) x)"

definition is_digits :: "string \<Rightarrow> bool" where
  "is_digits s \<longleftrightarrow> s \<noteq> [] \<and> list_all (\<lambda>c. 48 \<le> (of_char c :: nat) \<and> (of_char c :: nat) < 58) s"

definition atoi :: "string \<Rightarrow> int" where
  "atoi s =
     (let neg = has_prefix s ''-''; ds = (if neg \<or> has_prefix s ''+'' then tl s else s)
      in if \<not> is_digits ds then 0
         else clamp64 (if neg then - int (value_of_digits ds) else int (value_of_digits ds)))"

text \<open>A dotted quad: four decimal fields below 256, without leading zeros.\<close>

definition is_ipv4 :: "string \<Rightarrow> bool" where
  "is_ipv4 s \<longleftrightarrow> length (split_on CHR ''.'' s) = 4 \<and>
     list_all (\<lambda>w. value_of_digits w < 256 \<and> w = show_nat (value_of_digits w)) (split_on CHR ''.'' s)"


section \<open>Tables\<close>

text \<open>\<open>UPDATE t SET .. WHERE ..\<close> on a table kept as the list of its rows.\<close>

definition update_where :: "('a \<Rightarrow> bool) \<Rightarrow> ('a \<Rightarrow> 'a) \<Rightarrow> 'a list \<Rightarrow> 'a list" where
  "update_where P f xs = map (\<lambda>x. if P x then f x else x) xs"


section \<open>Facts\<close>

declare show_nat.simps [simp del]

subsection \<open>Integers\<close>

lemma wrap64_id [simp]: "- (2 ^ 63) \<le> x \<Longrightarrow> x < 2 ^ 63 \<Longrightarrow> wrap64 x = x"
  by (simp add: wrap64_def)

lemma wrap64_range: "- (2 ^ 63) \<le> wrap64 x \<and> wrap64 x < 2 ^ 63"
proof -
  have "0 \<le> (x + 2 ^ 63) mod 2 ^ 64" and "(x + 2 ^ 63) mod 2 ^ 64 < 2 ^ 64"
    by (rule pos_mod_sign, simp) (rule pos_mod_bound, simp)
  then show ?thesis by (simp add: wrap64_def)
qed

lemma uint64_id [simp]: "0 \<le> x \<Longrightarrow> x < 2 ^ 64 \<Longrightarrow> uint64 x = x"
  by (simp add: uint64_def)

lemma smod_nonneg: "0 \<le> a \<Longrightarrow> 0 < b \<Longrightarrow> a smod b = a mod b" for a b :: int
  by (cases "a = 0")
    (simp_all add: signed_modulo_int_def signed_divide_int_def sgn_if minus_div_mult_eq_mod)

lemma sdiv_nonneg: "0 \<le> a \<Longrightarrow> 0 < b \<Longrightarrow> a sdiv b = a div b" for a b :: int
  by (cases "a = 0") (simp_all add: signed_divide_int_def sgn_if)

subsection \<open>Decimal notation\<close>

lemma digit_value: "d < 10 \<Longrightarrow> of_char (digit d) - (48::nat) = d"
  by (simp add: digit_def)

lemma value_of_digits_snoc:
  "value_of_digits (s @ [c]) = 10 * value_of_digits s + (of_char c - 48)"
  by (simp add: value_of_digits_def)

lemma value_show_nat [simp]: "value_of_digits (show_nat n) = n"
proof (induction n rule: show_nat.induct)
  case (1 n)
  show ?case
  proof (cases "n < 10")
    case True
    then have "show_nat n = [] @ [digit n]" by (simp add: show_nat.simps [of n])
    with True show ?thesis
      by (simp only: value_of_digits_snoc digit_value) (simp add: value_of_digits_def)
  next
    case False
    then have "show_nat n = show_nat (n div 10) @ [digit (n mod 10)]"
      by (simp add: show_nat.simps [of n])
    with False "1.IH" show ?thesis
      by (simp add: value_of_digits_snoc digit_value)
  qed
qed

lemma show_nat_inject [simp]: "show_nat m = show_nat n \<longleftrightarrow> m = n"
  by (metis value_show_nat)

lemma show_nat_chars: "c \<in> set (show_nat n) \<Longrightarrow> 48 \<le> (of_char c :: nat) \<and> (of_char c :: nat) < 58"
proof (induction n rule: show_nat.induct)
  case (1 n)
  then show ?case
    by (cases "n < 10") (auto simp: show_nat.simps [of n] digit_def)
qed

lemma no_dot_show_nat: "CHR ''.'' \<notin> set (show_nat n)"
  using show_nat_chars [of "CHR ''.''" n] by auto

lemma no_dash_show_nat: "CHR ''-'' \<notin> set (show_nat n)"
  using show_nat_chars [of "CHR ''-''" n] by auto

lemma no_dot_show_int: "CHR ''.'' \<notin> set (show_int i)"
  by (simp add: show_int_def no_dot_show_nat)

lemma show_int_inject [simp]: "show_int i = show_int j \<longleftrightarrow> i = j"
proof
  assume eq: "show_int i = show_int j"
  then show "i = j"
    using no_dash_show_nat [of "nat i"] no_dash_show_nat [of "nat j"]
    by (auto simp: show_int_def split: if_splits) (metis list.set_intros(1))+
qed simp

subsection \<open>Splitting\<close>

lemma split_on_nonempty [simp]: "split_on c s \<noteq> []"
  by (induction s) (auto split: list.splits)

lemma split_on_free: "c \<notin> set s \<Longrightarrow> split_on c s = [s]"
  by (induction s) auto

lemma split_on_append: "c \<notin> set s \<Longrightarrow> split_on c (s @ c # t) = s # split_on c t"
  by (induction s) auto

lemma split_on_at: "split_on c (s @ c # t) = split_on c s @ split_on c t"
  by (induction s) (auto split: list.splits)

lemma split_on_many: "c \<in> set s \<Longrightarrow> \<exists>x y zs. split_on c s = x # y # zs"
proof (induction s)
  case (Cons a s)
  show ?case
  proof (cases "a = c")
    case True
    then show ?thesis by (cases "split_on c s") auto
  next
    case False
    with Cons obtain x y zs where "split_on c s = x # y # zs" by auto
    with False show ?thesis by simp
  qed
qed simp

fun join_with :: "char \<Rightarrow> string list \<Rightarrow> string" where
  "join_with c [] = []"
| "join_with c [w] = w"
| "join_with c (w # ws) = w @ c # join_with c ws"

lemma join_with_Cons: "ws \<noteq> [] \<Longrightarrow> join_with c (w # ws) = w @ c # join_with c ws"
  by (cases ws) simp_all

lemma join_split_on: "join_with c (split_on c s) = s"
proof (induction s)
  case (Cons x xs)
  show ?case
  proof (cases "split_on c xs")
    case (Cons w ws)
    with Cons.IH show ?thesis by (cases ws) (auto simp: join_with_Cons)
  qed simp
qed simp

lemma split_parts_free: "w \<in> set (split_on c s) \<Longrightarrow> c \<notin> set w"
  by (induction s arbitrary: w) (auto split: if_splits list.splits)

lemma words_of_word:
  assumes "w \<noteq> []" and "\<And>c. c \<in> set w \<Longrightarrow> \<not> is_space c" and "is_space d"
  shows "words_of (w @ d # s) = w # words_of (d # s)"
proof -
  obtain c cs where w: "w = c # cs" using assms(1) by (cases w) simp_all
  have "takeWhile (\<lambda>c. \<not> is_space c) (w @ d # s) = w"
    using assms by (simp add: takeWhile_append)
  moreover have "dropWhile (\<lambda>c. \<not> is_space c) (cs @ d # s) = d # s"
    using assms(2,3) by (simp add: w dropWhile_append)
  moreover have "\<not> is_space c" using assms(2) by (simp add: w)
  ultimately show ?thesis by (subst words_of.simps) (simp add: w)
qed

lemma words_of_space: "is_space d \<Longrightarrow> words_of (d # s) = words_of s"
  by (subst words_of.simps, subst (2) words_of.simps) simp

lemma words_of_spaces: "(\<And>c. c \<in> set u \<Longrightarrow> is_space c) \<Longrightarrow> words_of (u @ s) = words_of s"
  by (induction u) (simp_all add: words_of_space)

lemma is_digits_show_nat [simp]: "is_digits (show_nat n)"
  using show_nat_chars [of _ n] by (auto simp: is_digits_def list_all_iff show_nat.simps [of n])

lemma atoi_show_nat: "int n < 2 ^ 63 \<Longrightarrow> atoi (show_nat n) = int n"
proof -
  assume n: "int n < 2 ^ 63"
  have "hd (show_nat n) \<noteq> CHR ''-'' \<and> hd (show_nat n) \<noteq> CHR ''+''"
    using is_digits_show_nat [of n] by (cases "show_nat n") (auto simp: is_digits_def)
  then have "\<not> has_prefix (show_nat n) ''-''" "\<not> has_prefix (show_nat n) ''+''"
    by (cases "show_nat n"; simp add: has_prefix_def)+
  with n show ?thesis by (simp add: atoi_def clamp64_def)
qed

lemma atoi_range: "- (2 ^ 63) \<le> atoi s \<and> atoi s < 2 ^ 63"
proof -
  have "- (2 ^ 63) \<le> clamp64 x \<and> clamp64 x < 2 ^ 63" for x by (simp add: clamp64_def min_def max_def)
  then show ?thesis by (simp add: atoi_def Let_def)
qed

text \<open>Trimming keeps what has no white space at its ends, so a line that was trimmed and
  written with its line end is read back as it was.\<close>

lemma trim_space_idI: "s = [] \<or> \<not> is_space (hd s) \<and> \<not> is_space (last s) \<Longrightarrow> trim_space s = s"
proof -
  assume a: "s = [] \<or> \<not> is_space (hd s) \<and> \<not> is_space (last s)"
  then have "dropWhile is_space s = s" "dropWhile is_space (rev s) = rev s"
    by (auto simp: dropWhile_eq_self_iff hd_rev)
  then show ?thesis by (simp add: trim_space_def)
qed

lemma trim_space_id: "(\<And>c. c \<in> set s \<Longrightarrow> \<not> is_space c) \<Longrightarrow> trim_space s = s"
  by (rule trim_space_idI) (cases "s = []"; simp)

lemma trim_space_ends: "trim_space s = [] \<or> \<not> is_space (hd (trim_space s)) \<and> \<not> is_space (last (trim_space s))"
proof -
  define t where "t = dropWhile is_space s"
  have t: "trim_space s = rev (dropWhile is_space (rev t))" by (simp add: trim_space_def t_def)
  show ?thesis
  proof (cases "dropWhile is_space (rev t) = []")
    case False
    then have l: "\<not> is_space (last (trim_space s))" using hd_dropWhile [OF False] by (simp add: t last_rev)
    have "t \<noteq> []" using False by auto
    then have ht: "\<not> is_space (hd t)" using hd_dropWhile [of is_space s] by (simp add: t_def)
    obtain u where u: "rev t = u @ dropWhile is_space (rev t)" by (metis takeWhile_dropWhile_id)
    then have "t = rev (dropWhile is_space (rev t)) @ rev u" by (metis rev_append rev_rev_ident)
    then have "hd t = hd (trim_space s)" using False by (metis t hd_append2 rev_is_Nil_conv)
    with ht l show ?thesis by simp
  qed (simp add: t)
qed

lemma trim_space_newline: "s = [] \<or> \<not> is_space (hd s) \<and> \<not> is_space (last s) \<Longrightarrow> trim_space (s @ [CHR 0x0A]) = s"
proof -
  assume a: "s = [] \<or> \<not> is_space (hd s) \<and> \<not> is_space (last s)"
  have n: "is_space (CHR 0x0A)" by (simp add: is_space_def)
  show ?thesis
  proof (cases "s = []")
    case False
    with a have "dropWhile is_space (s @ [CHR 0x0A]) = s @ [CHR 0x0A]"
      by (simp add: dropWhile_eq_self_iff)
    moreover have "dropWhile is_space (rev s) = rev s" using a False by (simp add: dropWhile_eq_self_iff hd_rev)
    ultimately show ?thesis by (simp add: trim_space_def n)
  qed (simp add: trim_space_def n)
qed

lemma trim_space_line [simp]: "trim_space (trim_space s @ [CHR 0x0A]) = trim_space s"
  by (rule trim_space_newline [OF trim_space_ends])

lemma has_prefix_append [simp]: "has_prefix (p @ s) p"
  by (simp add: has_prefix_def)

lemma trim_prefix_append [simp]: "trim_prefix (p @ s) p = s"
  by (simp add: trim_prefix_def)

subsection \<open>Tables\<close>

lemma length_update_where [simp]: "length (update_where P f xs) = length xs"
  by (simp add: update_where_def)

lemma set_update_where: "set (update_where P f xs) = (\<lambda>x. if P x then f x else x) ` set xs"
  by (simp add: update_where_def)

lemma update_where_Nil [simp]: "update_where P f [] = []"
  by (simp add: update_where_def)

lemma update_where_none: "(\<And>x. x \<in> set xs \<Longrightarrow> \<not> P x) \<Longrightarrow> update_where P f xs = xs"
  by (induction xs) (auto simp: update_where_def)

lemma map_update_where:
  "(\<And>x. P x \<Longrightarrow> k (f x) = k x) \<Longrightarrow> map k (update_where P f xs) = map k xs"
  by (auto simp: update_where_def)

lemma key_unique:
  "distinct (map k xs) \<Longrightarrow> x \<in> set xs \<Longrightarrow> y \<in> set xs \<Longrightarrow> k x = k y \<Longrightarrow> x = y"
  by (auto simp: distinct_map dest: inj_onD)

text \<open>\<open>ORDER BY .. LIMIT 1\<close>: the head of a sorted list is a minimum.\<close>

lemma hd_sort_key_mem: "xs \<noteq> [] \<Longrightarrow> hd (sort_key f xs) \<in> set xs"
  by (metis hd_in_set set_sort set_empty)

lemma hd_sort_key_least:
  assumes "x \<in> set xs"
  shows "f (hd (sort_key f xs)) \<le> f x"
proof -
  from assms have "x \<in> set (sort_key f xs)" by simp
  then obtain y ys where s: "sort_key f xs = y # ys"
    by (cases "sort_key f xs") auto
  have "sorted (map f (sort_key f xs))" by simp
  with s \<open>x \<in> set (sort_key f xs)\<close> show ?thesis by auto
qed

text \<open>Looking a row up by its key.\<close>

lemma find_SomeD: "List.find P xs = Some x \<Longrightarrow> P x \<and> x \<in> set xs"
  by (auto simp: find_Some_iff)

lemma find_key:
  "distinct (map k xs) \<Longrightarrow> x \<in> set xs \<Longrightarrow> List.find (\<lambda>y. k y = k x) xs = Some x"
  by (induction xs) (auto simp: image_iff)

lemma find_update_where:
  "(\<And>x. k (f x) = k x) \<Longrightarrow> List.find (\<lambda>x. k x = i) (update_where (\<lambda>x. k x = i') f xs) =
     (if i = i' then map_option f (List.find (\<lambda>x. k x = i) xs) else List.find (\<lambda>x. k x = i) xs)"
  by (induction xs) (auto simp: update_where_def)

lemma find_append:
  "List.find P (xs @ ys) = (case List.find P xs of None \<Rightarrow> List.find P ys | Some x \<Rightarrow> Some x)"
  by (induction xs) auto

lemma find_fresh: "i \<notin> k ` set xs \<Longrightarrow> List.find (\<lambda>x. k x = i) xs = None"
  by (auto simp: find_None_iff)

lemma mset_eq_set: "mset xs = mset ys \<Longrightarrow> set xs = set ys"
  by (metis set_mset_mset)

lemma div_mod_unique:
  fixes a b k :: int
  assumes "a div k = b div k" and "a mod k = b mod k"
  shows "a = b"
  by (metis assms div_mult_mod_eq)

lemma mod_close_unique:
  fixes a b k :: int
  assumes "a mod k = b mod k" and "\<bar>a - b\<bar> < k"
  shows "a = b"
proof (rule ccontr)
  assume "a \<noteq> b"
  moreover have "k dvd a - b" using assms(1) by (simp add: mod_eq_dvd_iff)
  ultimately have "\<bar>k\<bar> \<le> \<bar>a - b\<bar>" by (intro dvd_imp_le_int) simp_all
  with assms(2) show False by simp
qed

end
