(* ===== verification/Postgres.thy ===== *)
theory Postgres
  imports Go_Prelude
begin

text \<open>
  The PostgreSQL store of the control plane: \<open>pkg/store/models.go\<close> (the rows) and
  \<open>pkg/store/postgres.go\<close> (schema and queries). The SQL texts of the source are translated
  into functions on tables; what the server decides by itself is a parameter: the order in
  which a query sees the rows, which texts, reals and JSON values it accepts, and the texts
  of its errors (\<open>pg_env\<close>), its clock, and what becomes of each request on the wire
  (\<open>outcome\<close>).
\<close>


section \<open>Rows and tables\<close>

text \<open>
  Instants are microseconds since 1970, the resolution of \<open>TIMESTAMPTZ\<close>; \<open>zero_time\<close> is
  the zero \<open>time.Time\<close>, 1 January of the year 1. A Go \<open>map[string]string\<close> is \<open>None\<close> for
  \<open>nil\<close> or the list of its entries. The finite \<open>float64\<close> values are rationals.
\<close>

type_synonym env_map = "(string \<times> string) list option"

definition zero_time :: int where
  "zero_time = - 62135596800 * 1000000"

definition ProviderOnline :: string where "ProviderOnline = ''online''"
definition ProviderOffline :: string where "ProviderOffline = ''offline''"

record provider =
  p_id :: string
  p_token :: string
  p_wg_pubkey :: string
  p_wg_ip :: string
  p_tunnel_port :: int
  p_location :: string
  p_mode :: string
  p_cpu_cores :: int
  p_memory_mb :: int
  p_disk_gb :: int
  p_machine_id :: string
  p_binary_hash :: string
  p_status :: string
  p_active_vms :: int
  p_cpu_load :: rat
  p_mem_free_mb :: int
  p_last_seen :: int
  p_registered_at :: int

record vm =
  v_id :: string
  v_job_id :: string
  v_provider_id :: string
  v_vm_ip :: string
  v_port :: int
  v_status :: string
  v_error :: string
  v_created_at :: int

record job =
  j_id :: string
  j_provider_id :: string
  j_image_url :: string
  j_cpu_cores :: int
  j_memory_mb :: int
  j_disk_gb :: int
  j_ssh_pubkey :: string
  j_env :: env_map
  j_status :: string
  j_created_at :: int

definition zero_provider :: provider where
  "zero_provider = \<lparr>p_id = [], p_token = [], p_wg_pubkey = [], p_wg_ip = [], p_tunnel_port = 0,
     p_location = [], p_mode = [], p_cpu_cores = 0, p_memory_mb = 0, p_disk_gb = 0,
     p_machine_id = [], p_binary_hash = [], p_status = [], p_active_vms = 0, p_cpu_load = 0,
     p_mem_free_mb = 0, p_last_seen = zero_time, p_registered_at = zero_time\<rparr>"

record tables =
  providers :: "provider list"
  vms :: "vm list"
  jobs :: "job list"


section \<open>The server\<close>

record pg_env =
  scan_providers :: "provider list \<Rightarrow> provider list"
  scan_jobs :: "job list \<Rightarrow> job list"
  text_ok :: "string \<Rightarrow> bool"
  jsonb_ok :: "env_map \<Rightarrow> bool"
  real4 :: "rat \<Rightarrow> rat option"
  pq_msg :: "pg_code \<Rightarrow> string"

text \<open>What the code relies on: a query sees every row of the table once, in some order.\<close>

definition pg_ok :: "pg_env \<Rightarrow> bool" where
  "pg_ok E \<longleftrightarrow> (\<forall>xs. mset (scan_providers E xs) = mset xs) \<and>
     (\<forall>xs. mset (scan_jobs E xs) = mset xs)"

text \<open>
  Placeholders of a statement with the type of their column. A value the type does not
  hold is refused before the statement runs; the first such parameter decides the error.
\<close>

datatype sql_param = PText string | PInt int | PReal rat | PJson env_map

fun bind_error :: "pg_env \<Rightarrow> sql_param list \<Rightarrow> go_error option" where
  "bind_error E [] = None"
| "bind_error E (PText s # ps) =
     (if text_ok E s then bind_error E ps else Some (PqErr Bad_Text (pq_msg E Bad_Text)))"
| "bind_error E (PInt n # ps) =
     (if int4_ok n then bind_error E ps
      else Some (PqErr Numeric_Out_Of_Range (pq_msg E Numeric_Out_Of_Range)))"
| "bind_error E (PReal x # ps) =
     (case real4 E x of Some y \<Rightarrow> bind_error E ps
      | None \<Rightarrow> Some (PqErr Numeric_Out_Of_Range (pq_msg E Numeric_Out_Of_Range)))"
| "bind_error E (PJson m # ps) =
     (if jsonb_ok E m then bind_error E ps else Some (PqErr Bad_Json (pq_msg E Bad_Json)))"

text \<open>
  A statement maps the parameters of the server, its clock and the tables to a result and
  the new tables. \<open>stmt ps body\<close> runs \<open>body\<close> if the parameters can be bound.
\<close>

type_synonym 'a stmt = "pg_env \<Rightarrow> int \<Rightarrow> tables \<Rightarrow> 'a result \<times> tables"

definition with_params :: "sql_param list \<Rightarrow> 'a stmt \<Rightarrow> 'a stmt" where
  "with_params ps body E now t =
     (case bind_error E ps of Some e \<Rightarrow> (Inl e, t) | None \<Rightarrow> body E now t)"

text \<open>
  What becomes of one request: it is served, it is lost before the server runs it, or the
  server runs it and the answer is lost. The list in a store is the future of its
  connection, and it is arbitrary in every theorem; past its end requests are served.
\<close>

datatype outcome = Served | Refused string | Unacked string

record pg =
  tabs :: tables
  pg_env :: pg_env
  clock :: int
  outcomes :: "outcome list"

definition next_outcome :: "pg \<Rightarrow> outcome \<times> pg" where
  "next_outcome p =
     (case outcomes p of [] \<Rightarrow> (Served, p) | oc # ocs \<Rightarrow> (oc, p\<lparr>outcomes := ocs\<rparr>))"

definition exec :: "'a stmt \<Rightarrow> pg \<Rightarrow> 'a result \<times> pg" where
  "exec st p =
     (let (oc, p1) = next_outcome p; (r, t) = st (pg_env p1) (clock p1) (tabs p1)
      in case oc of
           Served \<Rightarrow> (r, p1\<lparr>tabs := t\<rparr>)
         | Refused m \<Rightarrow> (Inl (NetErr m), p1)
         | Unacked m \<Rightarrow> (Inl (NetErr m), p1\<lparr>tabs := t\<rparr>))"


section \<open>Statements\<close>

text \<open>\<open>INSERT INTO providers .. ON CONFLICT (id) DO UPDATE\<close>; the columns the statement does
  not list take their defaults.\<close>

definition inserted_provider :: "int \<Rightarrow> provider \<Rightarrow> provider" where
  "inserted_provider now pr = pr\<lparr>p_status := ProviderOnline, p_active_vms := 0, p_cpu_load := 0,
     p_mem_free_mb := 0, p_last_seen := now\<rparr>"

definition sql_upsert_provider :: "provider \<Rightarrow> unit stmt" where
  "sql_upsert_provider pr = with_params
     [PText (p_id pr), PText (p_token pr), PText (p_wg_pubkey pr), PText (p_wg_ip pr),
      PInt (p_tunnel_port pr), PText (p_location pr), PText (p_mode pr), PInt (p_cpu_cores pr),
      PInt (p_memory_mb pr), PInt (p_disk_gb pr), PText (p_machine_id pr),
      PText (p_binary_hash pr), PText ProviderOnline]
     (\<lambda>E now t.
        (Inr (), t\<lparr>providers :=
           (if p_id pr \<in> p_id ` set (providers t)
            then update_where (\<lambda>r. p_id r = p_id pr)
              (\<lambda>r. r\<lparr>p_wg_pubkey := p_wg_pubkey pr, p_status := ''online'',
                     p_last_seen := now\<rparr>) (providers t)
            else providers t @ [inserted_provider now pr])\<rparr>))"

definition sql_update_heartbeat :: "string \<Rightarrow> int \<Rightarrow> rat \<Rightarrow> int \<Rightarrow> unit stmt" where
  "sql_update_heartbeat i activeVMs cpuLoad memFree = with_params
     [PText i, PInt activeVMs, PReal cpuLoad, PInt memFree]
     (\<lambda>E now t.
        (Inr (), t\<lparr>providers := update_where (\<lambda>r. p_id r = i)
           (\<lambda>r. r\<lparr>p_last_seen := now, p_active_vms := activeVMs,
                  p_cpu_load := (case real4 E cpuLoad of Some y \<Rightarrow> y | None \<Rightarrow> cpuLoad),
                  p_mem_free_mb := memFree, p_status := ''online''\<rparr>) (providers t)\<rparr>))"

definition stale :: "int \<Rightarrow> int \<Rightarrow> provider \<Rightarrow> bool" where
  "stale now secs r \<longleftrightarrow> p_status r = ''online'' \<and> p_last_seen r < now - secs * 1000000"

definition sql_mark_offline :: "int \<Rightarrow> int stmt" where
  "sql_mark_offline secs E now t =
     (Inr (int (length (filter (stale now secs) (providers t)))),
      t\<lparr>providers := update_where (stale now secs)
           (\<lambda>r. r\<lparr>p_status := ''offline''\<rparr>) (providers t)\<rparr>)"

text \<open>\<open>WHERE status='online' AND cpu_cores >= $1 AND mem_free_mb >= $2\<close>\<close>

definition eligible :: "int \<Rightarrow> int \<Rightarrow> provider \<Rightarrow> bool" where
  "eligible cpuNeeded memNeeded r \<longleftrightarrow>
     p_status r = ''online'' \<and> cpuNeeded \<le> p_cpu_cores r \<and> memNeeded \<le> p_mem_free_mb r"

definition sql_best_provider :: "int \<Rightarrow> int \<Rightarrow> provider stmt" where
  "sql_best_provider cpuNeeded memNeeded = with_params [PInt cpuNeeded, PInt memNeeded]
     (\<lambda>E now t.
        (case sort_key (\<lambda>r. - p_mem_free_mb r)
                (filter (eligible cpuNeeded memNeeded) (scan_providers E (providers t))) of
           [] \<Rightarrow> (Inl ErrNoRows, t)
         | r # _ \<Rightarrow> (Inr (zero_provider\<lparr>p_id := p_id r, p_wg_ip := p_wg_ip r,
                       p_tunnel_port := p_tunnel_port r, p_mode := p_mode r\<rparr>), t)))"

text \<open>\<open>provider_id\<close> is not among the inserted columns and takes its default.\<close>

definition inserted_job :: "job \<Rightarrow> job" where
  "inserted_job j = j\<lparr>j_provider_id := '''', j_status := ''pending''\<rparr>"

definition sql_insert_job :: "job \<Rightarrow> unit stmt" where
  "sql_insert_job j = with_params
     [PText (j_id j), PText (j_image_url j), PInt (j_cpu_cores j), PInt (j_memory_mb j),
      PInt (j_disk_gb j), PText (j_ssh_pubkey j), PJson (j_env j)]
     (\<lambda>E now t.
        if j_id j \<in> j_id ` set (jobs t)
        then (Inl (PqErr Unique_Violation (pq_msg E Unique_Violation)), t)
        else (Inr (), t\<lparr>jobs := jobs t @ [inserted_job j]\<rparr>))"

definition sql_assign_job :: "string \<Rightarrow> string \<Rightarrow> unit stmt" where
  "sql_assign_job jobID providerID = with_params [PText jobID, PText providerID]
     (\<lambda>E now t.
        (Inr (), t\<lparr>jobs := update_where (\<lambda>j. j_id j = jobID)
           (\<lambda>j. j\<lparr>j_provider_id := providerID, j_status := ''scheduled''\<rparr>) (jobs t)\<rparr>))"

text \<open>
  The two statements of the transaction of \<open>NextPendingJob\<close>. \<open>locked\<close> holds the jobs whose
  rows other transactions have locked at that moment, which \<open>SKIP LOCKED\<close> passes over.
\<close>

definition ready :: "string set \<Rightarrow> string \<Rightarrow> job \<Rightarrow> bool" where
  "ready locked providerID j \<longleftrightarrow>
     j_provider_id j = providerID \<and> j_status j = ''scheduled'' \<and> j_id j \<notin> locked"

definition sql_next_job :: "string set \<Rightarrow> string \<Rightarrow> job stmt" where
  "sql_next_job locked providerID = with_params [PText providerID]
     (\<lambda>E now t.
        (case sort_key j_created_at (filter (ready locked providerID) (scan_jobs E (jobs t))) of
           [] \<Rightarrow> (Inl ErrNoRows, t)
         | j # _ \<Rightarrow> (Inr (j\<lparr>j_provider_id := [], j_status := [], j_created_at := zero_time\<rparr>), t)))"

definition sql_set_running :: "string \<Rightarrow> unit stmt" where
  "sql_set_running jobID E now t =
     (Inr (), t\<lparr>jobs := update_where (\<lambda>j. j_id j = jobID)
                (\<lambda>j. j\<lparr>j_status := ''running''\<rparr>) (jobs t)\<rparr>)"

text \<open>
  \<open>INSERT INTO vms .. ON CONFLICT (id) DO UPDATE SET status, error\<close>. The foreign key is
  checked for a row that is inserted; the update does not touch the referencing column.
\<close>

definition sql_upsert_vm :: "vm \<Rightarrow> unit stmt" where
  "sql_upsert_vm v = with_params
     [PText (v_id v), PText (v_job_id v), PText (v_provider_id v), PText (v_vm_ip v),
      PInt (v_port v), PText (v_status v), PText (v_error v)]
     (\<lambda>E now t.
        if v_id v \<in> v_id ` set (vms t)
        then (Inr (), t\<lparr>vms := update_where (\<lambda>w. v_id w = v_id v)
                (\<lambda>w. w\<lparr>v_status := v_status v, v_error := v_error v\<rparr>) (vms t)\<rparr>)
        else if v_provider_id v \<notin> p_id ` set (providers t)
        then (Inl (PqErr Foreign_Key_Violation (pq_msg E Foreign_Key_Violation)), t)
        else (Inr (), t\<lparr>vms := vms t @ [v]\<rparr>))"

definition sql_get_provider :: "string \<Rightarrow> provider stmt" where
  "sql_get_provider i = with_params [PText i]
     (\<lambda>E now t.
        (case filter (\<lambda>r. p_id r = i) (scan_providers E (providers t)) of
           [] \<Rightarrow> (Inl ErrNoRows, t)
         | r # _ \<Rightarrow> (Inr (zero_provider\<lparr>p_id := p_id r, p_wg_pubkey := p_wg_pubkey r,
             p_wg_ip := p_wg_ip r, p_tunnel_port := p_tunnel_port r, p_mode := p_mode r,
             p_status := p_status r\<rparr>), t)))"

definition listed :: "provider \<Rightarrow> provider" where
  "listed r = zero_provider\<lparr>p_id := p_id r, p_location := p_location r, p_mode := p_mode r,
     p_cpu_cores := p_cpu_cores r, p_memory_mb := p_memory_mb r, p_status := p_status r,
     p_active_vms := p_active_vms r, p_cpu_load := p_cpu_load r, p_last_seen := p_last_seen r\<rparr>"

definition sql_list_providers :: "provider list stmt" where
  "sql_list_providers E now t =
     (Inr (map listed (sort_key (\<lambda>r. - p_last_seen r) (scan_providers E (providers t)))), t)"


section \<open>The operations of the store\<close>

text \<open>One request each, but for \<open>NextPendingJob\<close>.\<close>

definition UpsertProvider :: "provider \<Rightarrow> pg \<Rightarrow> unit result \<times> pg" where
  "UpsertProvider pr = exec (sql_upsert_provider pr)"

definition UpdateHeartbeat :: "string \<Rightarrow> int \<Rightarrow> rat \<Rightarrow> int \<Rightarrow> pg \<Rightarrow> unit result \<times> pg" where
  "UpdateHeartbeat i activeVMs cpuLoad memFree =
     exec (sql_update_heartbeat i activeVMs cpuLoad memFree)"

text \<open>\<open>olderThan\<close> is a \<open>time.Duration\<close>, in nanoseconds; the interval is printed in whole seconds.\<close>

definition MarkOffline :: "int \<Rightarrow> pg \<Rightarrow> int result \<times> pg" where
  "MarkOffline olderThan = exec (sql_mark_offline (olderThan sdiv 1000000000))"

definition BestProvider :: "int \<Rightarrow> int \<Rightarrow> pg \<Rightarrow> provider result \<times> pg" where
  "BestProvider cpuNeeded memNeeded = exec (sql_best_provider cpuNeeded memNeeded)"

definition InsertJob :: "job \<Rightarrow> pg \<Rightarrow> unit result \<times> pg" where
  "InsertJob j = exec (sql_insert_job j)"

definition AssignJob :: "string \<Rightarrow> string \<Rightarrow> pg \<Rightarrow> unit result \<times> pg" where
  "AssignJob jobID providerID = exec (sql_assign_job jobID providerID)"

definition UpsertVM :: "vm \<Rightarrow> pg \<Rightarrow> unit result \<times> pg" where
  "UpsertVM v = exec (sql_upsert_vm v)"

definition GetProvider :: "string \<Rightarrow> pg \<Rightarrow> provider result \<times> pg" where
  "GetProvider i = exec (sql_get_provider i)"

definition ListProviders :: "pg \<Rightarrow> provider list result \<times> pg" where
  "ListProviders = exec sql_list_providers"

text \<open>
  \<open>NextPendingJob\<close> returns a pointer and an error, and both are set when the commit fails.
  Each of \<open>BEGIN\<close>, the query, the update and \<open>COMMIT\<close> is a request of its own. What the
  transaction changes is seen only if the commit reaches the server; every other exit rolls
  the transaction back. A query that finds no row ends with neither a job nor an error.
\<close>

definition NextPendingJob :: "string set \<Rightarrow> string \<Rightarrow> pg \<Rightarrow> (job option \<times> go_error option) \<times> pg"
where
  "NextPendingJob locked providerID p0 =
     (case next_outcome p0 of
        (Served, p1) \<Rightarrow>
          (case exec (sql_next_job locked providerID) p1 of
             (Inl e, p2) \<Rightarrow> if e = ErrNoRows then ((None, None), p2) else ((None, Some e), p2)
           | (Inr j, p2) \<Rightarrow>
               (case exec (sql_set_running (j_id j)) p2 of
                  (Inl e, p3) \<Rightarrow> ((None, Some e), p3\<lparr>tabs := tabs p1\<rparr>)
                | (Inr _, p3) \<Rightarrow>
                    (case next_outcome p3 of
                       (Served, p4) \<Rightarrow> ((Some j, None), p4)
                     | (Refused m, p4) \<Rightarrow> ((Some j, Some (NetErr m)), p4\<lparr>tabs := tabs p1\<rparr>)
                     | (Unacked m, p4) \<Rightarrow> ((Some j, Some (NetErr m)), p4))))
      | (Refused m, p1) \<Rightarrow> ((None, Some (NetErr m)), p1)
      | (Unacked m, p1) \<Rightarrow> ((None, Some (NetErr m)), p1))"


section \<open>Calls of the store as a history\<close>

datatype pg_call =
    CallUpsertProvider provider
  | CallHeartbeat string int rat int
  | CallMarkOffline int
  | CallBestProvider int int
  | CallInsertJob job
  | CallAssignJob string string
  | CallNextPendingJob "string set" string
  | CallUpsertVM vm
  | CallGetProvider string
  | CallListProviders
  | Pass_Time nat

fun run_call :: "pg_call \<Rightarrow> pg \<Rightarrow> pg" where
  "run_call (CallUpsertProvider pr) p = snd (UpsertProvider pr p)"
| "run_call (CallHeartbeat i a c m) p = snd (UpdateHeartbeat i a c m p)"
| "run_call (CallMarkOffline d) p = snd (MarkOffline d p)"
| "run_call (CallBestProvider c m) p = snd (BestProvider c m p)"
| "run_call (CallInsertJob j) p = snd (InsertJob j p)"
| "run_call (CallAssignJob j i) p = snd (AssignJob j i p)"
| "run_call (CallNextPendingJob l i) p = snd (NextPendingJob l i p)"
| "run_call (CallUpsertVM v) p = snd (UpsertVM v p)"
| "run_call (CallGetProvider i) p = snd (GetProvider i p)"
| "run_call CallListProviders p = snd (ListProviders p)"
| "run_call (Pass_Time d) p = p\<lparr>clock := clock p + int d\<rparr>"

definition run_calls :: "pg_call list \<Rightarrow> pg \<Rightarrow> pg" where
  "run_calls cs p = fold run_call cs p"

text \<open>A server that accepts everything and scans in storage order, for closed examples.\<close>

definition plain_env :: pg_env where
  "plain_env = \<lparr>scan_providers = (\<lambda>xs. xs), scan_jobs = (\<lambda>xs. xs), text_ok = (\<lambda>s. True),
     jsonb_ok = (\<lambda>m. True), real4 = Some, pq_msg = (\<lambda>c. [])\<rparr>"

definition sample_provider :: "string \<Rightarrow> int \<Rightarrow> int \<Rightarrow> provider" where
  "sample_provider i memFree seen = zero_provider\<lparr>p_id := i, p_wg_ip := ''10.99.1.1'',
     p_status := ''online'', p_cpu_cores := 4, p_mem_free_mb := memFree, p_last_seen := seen\<rparr>"

definition sample_job :: "string \<Rightarrow> string \<Rightarrow> string \<Rightarrow> job" where
  "sample_job i pid st = \<lparr>j_id = i, j_provider_id = pid, j_image_url = ''img'', j_cpu_cores = 1,
     j_memory_mb = 512, j_disk_gb = 1, j_ssh_pubkey = ''key'', j_env = None, j_status = st,
     j_created_at = zero_time\<rparr>"

definition sample_vm :: "string \<Rightarrow> string \<Rightarrow> string \<Rightarrow> vm" where
  "sample_vm i pid st = \<lparr>v_id = i, v_job_id = i, v_provider_id = pid, v_vm_ip = ''172.16.5.2'',
     v_port = 40001, v_status = st, v_error = [], v_created_at = 0\<rparr>"

definition sample_pg :: pg where
  "sample_pg = \<lparr>tabs = \<lparr>providers = [sample_provider ''a'' 1024 0, sample_provider ''b'' 4096 500000000],
       vms = [sample_vm ''j0'' ''a'' ''failed''],
       jobs = [sample_job ''j1'' ''b'' ''scheduled'', sample_job ''j2'' ''b'' ''running'']\<rparr>,
     pg_env = plain_env, clock = 500000000, outcomes = []\<rparr>"


section \<open>Well-formed tables\<close>

text \<open>
  What the schema promises of a database (primary keys, the foreign key of \<open>vms\<close>, columns
  of type \<open>INT\<close>) and what the code adds to it (the words a status column can hold).
\<close>

definition wf_provider :: "provider \<Rightarrow> bool" where
  "wf_provider r \<longleftrightarrow> p_status r \<in> {ProviderOnline, ProviderOffline} \<and>
     int4_ok (p_tunnel_port r) \<and> int4_ok (p_cpu_cores r) \<and> int4_ok (p_memory_mb r) \<and>
     int4_ok (p_disk_gb r) \<and> int4_ok (p_active_vms r) \<and> int4_ok (p_mem_free_mb r)"

definition wf_job :: "job \<Rightarrow> bool" where
  "wf_job j \<longleftrightarrow> j_status j \<in> {''pending'', ''scheduled'', ''running''} \<and>
     int4_ok (j_cpu_cores j) \<and> int4_ok (j_memory_mb j) \<and> int4_ok (j_disk_gb j)"

definition wf_tables :: "tables \<Rightarrow> bool" where
  "wf_tables t \<longleftrightarrow> distinct (map p_id (providers t)) \<and> distinct (map v_id (vms t)) \<and>
     distinct (map j_id (jobs t)) \<and> (\<forall>r \<in> set (providers t). wf_provider r) \<and>
     (\<forall>j \<in> set (jobs t). wf_job j) \<and>
     (\<forall>v \<in> set (vms t). int4_ok (v_port v) \<and> v_provider_id v \<in> p_id ` set (providers t))"

lemmas status_words = ProviderOnline_def ProviderOffline_def

lemmas statement_defs = sql_upsert_provider_def sql_update_heartbeat_def sql_mark_offline_def
  sql_best_provider_def sql_insert_job_def sql_assign_job_def sql_next_job_def
  sql_set_running_def sql_upsert_vm_def sql_get_provider_def sql_list_providers_def

lemmas operation_defs [op_defs] = UpsertProvider_def UpdateHeartbeat_def MarkOffline_def
  BestProvider_def InsertJob_def AssignJob_def UpsertVM_def GetProvider_def ListProviders_def


section \<open>Facts on requests\<close>

lemma next_outcome_frame [simp]:
  "tabs (snd (next_outcome p)) = tabs p" "pg_env (snd (next_outcome p)) = pg_env p"
  "clock (snd (next_outcome p)) = clock p"
  by (auto simp: next_outcome_def split: list.splits)

lemma next_outcome_eq:
  assumes "next_outcome p = (oc, q)"
  shows "tabs q = tabs p" and "pg_env q = pg_env p" and "clock q = clock p"
  using next_outcome_frame [of p] assms by simp_all

text \<open>A request, with the state after the wire has been consulted spelt out.\<close>

lemma exec_eq:
  "exec st p = (case st (pg_env p) (clock p) (tabs p) of (r, t) \<Rightarrow>
     (case fst (next_outcome p) of
        Served \<Rightarrow> (r, (snd (next_outcome p))\<lparr>tabs := t\<rparr>)
      | Refused m \<Rightarrow> (Inl (NetErr m), snd (next_outcome p))
      | Unacked m \<Rightarrow> (Inl (NetErr m), (snd (next_outcome p))\<lparr>tabs := t\<rparr>)))"
  by (cases "next_outcome p")
    (simp add: exec_def next_outcome_eq split: prod.splits outcome.splits)

lemma exec_frame [simp]: "pg_env (snd (exec st p)) = pg_env p" "clock (snd (exec st p)) = clock p"
  by (simp_all add: exec_eq split: prod.splits outcome.splits)

lemma exec_tabs: "tabs (snd (exec st p)) \<in> {tabs p, snd (st (pg_env p) (clock p) (tabs p))}"
  by (simp add: exec_eq split: prod.splits outcome.splits)

lemma exec_rule:
  assumes "P (tabs p)" and "P (snd (st (pg_env p) (clock p) (tabs p)))"
  shows "P (tabs (snd (exec st p)))"
  using exec_tabs [of st p] assms by (metis insertE singletonD)

lemma exec_Inr: "exec st p = (Inr x, q) \<Longrightarrow> st (pg_env p) (clock p) (tabs p) = (Inr x, tabs q)"
  by (auto simp: exec_eq split: prod.splits outcome.splits)

lemma exec_served:
  "outcomes p = [] \<Longrightarrow> exec st p =
     (let (r, t) = st (pg_env p) (clock p) (tabs p) in (r, p\<lparr>tabs := t\<rparr>))"
  by (simp add: exec_def next_outcome_def split: prod.splits)

text \<open>A refused statement is a bind error or comes from the body.\<close>

lemma with_params_Inr:
  "with_params ps body E now t = (Inr x, t') \<Longrightarrow> body E now t = (Inr x, t')"
  by (auto simp: with_params_def split: option.splits)

lemma bind_error_None:
  "bind_error E ps = None \<longleftrightarrow>
     (\<forall>q \<in> set ps. case q of PText s \<Rightarrow> text_ok E s | PInt n \<Rightarrow> int4_ok n
        | PReal x \<Rightarrow> real4 E x \<noteq> None | PJson m \<Rightarrow> jsonb_ok E m)"
  by (induction E ps rule: bind_error.induct) (auto split: option.splits)

declare bind_error.simps [simp del]

lemma int4_ok_0 [simp]: "int4_ok 0"
  by (simp add: int4_ok_def)


section \<open>The contract of a statement\<close>

text \<open>
  What the operations rely on of the statement they send: it keeps the tables well formed,
  and a statement that fails changes nothing. The client's side is the request: whatever
  becomes of it on the wire, the tables stay well formed and are either untouched or the
  result of one complete run of the statement.
\<close>

locale sql_statement =
  fixes stmt :: "'a stmt"
  assumes wf: "wf_tables t \<Longrightarrow> wf_tables (snd (stmt E now t))"
    and atomic: "fst (stmt E now t) = Inl e \<Longrightarrow> snd (stmt E now t) = t"
begin

lemma exec_wf: "wf_tables (tabs p) \<Longrightarrow> wf_tables (tabs (snd (exec stmt p)))"
  using exec_tabs [of stmt p] wf by auto

lemma exec_atomic:
  assumes "exec stmt p = (r, q)" and "tabs q \<noteq> tabs p"
  obtains x where "stmt (pg_env p) (clock p) (tabs p) = (Inr x, tabs q)"
proof -
  from assms have "tabs q = snd (stmt (pg_env p) (clock p) (tabs p))"
    using exec_tabs [of stmt p] by auto
  with assms(2) atomic [of "pg_env p" "clock p" "tabs p"] that show ?thesis
    by (cases "stmt (pg_env p) (clock p) (tabs p)"; cases "fst (stmt (pg_env p) (clock p) (tabs p))")
      auto
qed

end

text \<open>
  A statement that leaves a part of the tables alone, whatever becomes of the request: a
  query leaves all of them, a statement on one table the other two. Rows of providers are
  never deleted.
\<close>

locale framed_statement = sql_statement stmt for stmt :: "'a stmt" +
  fixes part :: "tables \<Rightarrow> 'b"
  assumes frame: "part (snd (stmt E now t)) = part t"
begin

lemma exec_part: "part (tabs (snd (exec stmt p))) = part (tabs p)"
  using exec_tabs [of stmt p] frame by auto

end

locale sql_query = framed_statement stmt "\<lambda>t. t" for stmt :: "'a stmt"

locale provider_statement = framed_statement stmt "\<lambda>t. (jobs t, vms t)" for stmt :: "'a stmt" +
  assumes known: "p_id ` set (providers t) \<subseteq> p_id ` set (providers (snd (stmt E now t)))"
begin

lemma exec_known: "p_id ` set (providers (tabs p)) \<subseteq> p_id ` set (providers (tabs (snd (exec stmt p))))"
  using exec_tabs [of stmt p] known [of "tabs p" "pg_env p" "clock p"] by auto

end

locale job_statement = framed_statement stmt "\<lambda>t. (providers t, vms t)" for stmt :: "'a stmt" +
  assumes known: "j_id ` set (jobs t) \<subseteq> j_id ` set (jobs (snd (stmt E now t)))"
begin

lemma exec_known: "j_id ` set (jobs (tabs p)) \<subseteq> j_id ` set (jobs (tabs (snd (exec stmt p))))"
  using exec_tabs [of stmt p] known [of "tabs p" "pg_env p" "clock p"] by auto

end


subsection \<open>The statements meet the contract\<close>

lemma with_params_tabs:
  "snd (with_params ps body E now t) = t \<or> snd (with_params ps body E now t) = snd (body E now t)"
  by (simp add: with_params_def split: option.splits)

lemma with_params_wf:
  "(bind_error E ps = None \<Longrightarrow> wf_tables (snd (body E now t))) \<Longrightarrow> wf_tables t \<Longrightarrow>
   wf_tables (snd (with_params ps body E now t))"
  by (simp add: with_params_def split: option.splits)

lemma wf_update_providers:
  assumes "wf_tables t" and "\<And>r. p_id (f r) = p_id r"
    and "\<And>r. wf_provider r \<Longrightarrow> P r \<Longrightarrow> wf_provider (f r)"
  shows "wf_tables (t\<lparr>providers := update_where P f (providers t)\<rparr>)"
proof -
  have ids: "map p_id (update_where P f (providers t)) = map p_id (providers t)"
    using assms(2) by (rule map_update_where)
  then have "p_id ` set (update_where P f (providers t)) = p_id ` set (providers t)"
    by (metis set_map)
  with assms ids show ?thesis
    by (auto simp: wf_tables_def set_update_where)
qed

lemma ids_update_jobs:
  "(\<And>j. j_id (f j) = j_id j) \<Longrightarrow> j_id ` set (update_where P f xs) = j_id ` set xs"
  using map_update_where [of P j_id f xs] by (metis set_map)

lemma wf_update_jobs:
  assumes "wf_tables t" and "\<And>j. j_id (f j) = j_id j"
    and "\<And>j. wf_job j \<Longrightarrow> P j \<Longrightarrow> wf_job (f j)"
  shows "wf_tables (t\<lparr>jobs := update_where P f (jobs t)\<rparr>)"
  using assms map_update_where [of P j_id f "jobs t"]
  by (auto simp: wf_tables_def set_update_where)

lemma ids_update_providers:
  "(\<And>r. p_id (f r) = p_id r) \<Longrightarrow> p_id ` set (update_where P f xs) = p_id ` set xs"
  using map_update_where [of P p_id f xs] by (metis set_map)

lemmas wf_row_defs = wf_provider_def wf_job_def status_words inserted_provider_def inserted_job_def

interpretation upsert_provider: provider_statement "sql_upsert_provider pr" for pr
proof unfold_locales
  fix t E now assume wf: "wf_tables t"
  show "wf_tables (snd (sql_upsert_provider pr E now t))"
    unfolding sql_upsert_provider_def
  proof (rule with_params_wf [OF _ wf])
    assume "bind_error E [PText (p_id pr), PText (p_token pr), PText (p_wg_pubkey pr),
      PText (p_wg_ip pr), PInt (p_tunnel_port pr), PText (p_location pr), PText (p_mode pr),
      PInt (p_cpu_cores pr), PInt (p_memory_mb pr), PInt (p_disk_gb pr),
      PText (p_machine_id pr), PText (p_binary_hash pr), PText ProviderOnline] = None"
    then have "wf_provider (inserted_provider now pr)"
      by (simp add: bind_error_None wf_row_defs)
    with wf show "wf_tables (snd (Inr (), t\<lparr>providers := (if p_id pr \<in> p_id ` set (providers t)
        then update_where (\<lambda>r. p_id r = p_id pr) (\<lambda>r. r\<lparr>p_wg_pubkey := p_wg_pubkey pr,
          p_status := ''online'', p_last_seen := now\<rparr>) (providers t)
        else providers t @ [inserted_provider now pr])\<rparr>))"
      using wf_update_providers [OF wf, of "\<lambda>r. r\<lparr>p_wg_pubkey := p_wg_pubkey pr,
          p_status := ''online'', p_last_seen := now\<rparr>" "\<lambda>r. p_id r = p_id pr"]
      by (auto simp: wf_tables_def wf_row_defs)
  qed
qed (auto simp: sql_upsert_provider_def with_params_def ids_update_providers
      split: option.splits)

interpretation update_heartbeat: provider_statement "sql_update_heartbeat i a c m" for i a c m
proof unfold_locales
  fix t E now assume wf: "wf_tables t"
  show "wf_tables (snd (sql_update_heartbeat i a c m E now t))"
    unfolding sql_update_heartbeat_def
    by (rule with_params_wf [OF _ wf])
      (simp, rule wf_update_providers [OF wf], auto simp: bind_error_None wf_row_defs)
qed (auto simp: sql_update_heartbeat_def with_params_def ids_update_providers
      split: option.splits)

interpretation mark_offline: provider_statement "sql_mark_offline secs" for secs
proof unfold_locales
  fix t E now assume wf: "wf_tables t"
  show "wf_tables (snd (sql_mark_offline secs E now t))"
    by (simp add: sql_mark_offline_def)
      (rule wf_update_providers [OF wf], auto simp: wf_row_defs)
qed (auto simp: sql_mark_offline_def ids_update_providers)

interpretation insert_job: job_statement "sql_insert_job j" for j
proof unfold_locales
  fix t E now assume wf: "wf_tables t"
  show "wf_tables (snd (sql_insert_job j E now t))"
    unfolding sql_insert_job_def
    by (rule with_params_wf [OF _ wf])
      (use wf in \<open>auto simp: bind_error_None wf_tables_def wf_row_defs\<close>)
qed (auto simp: sql_insert_job_def with_params_def split: option.splits if_splits)

interpretation assign_job: job_statement "sql_assign_job jid pid" for jid pid
proof unfold_locales
  fix t E now assume wf: "wf_tables t"
  show "wf_tables (snd (sql_assign_job jid pid E now t))"
    unfolding sql_assign_job_def
    by (rule with_params_wf [OF _ wf])
      (simp, rule wf_update_jobs [OF wf], auto simp: wf_row_defs)
qed (auto simp: sql_assign_job_def with_params_def ids_update_jobs split: option.splits)

interpretation set_running: job_statement "sql_set_running jid" for jid
proof unfold_locales
  fix t E now assume wf: "wf_tables t"
  show "wf_tables (snd (sql_set_running jid E now t))"
    by (simp add: sql_set_running_def) (rule wf_update_jobs [OF wf], auto simp: wf_row_defs)
qed (auto simp: sql_set_running_def ids_update_jobs)

interpretation upsert_vm: framed_statement "sql_upsert_vm v" "\<lambda>t. (providers t, jobs t)" for v
proof unfold_locales
  fix t E now assume wf: "wf_tables t"
  have ids: "map v_id (update_where (\<lambda>w. v_id w = v_id v)
      (\<lambda>w. w\<lparr>v_status := v_status v, v_error := v_error v\<rparr>) (vms t)) = map v_id (vms t)"
    by (rule map_update_where) simp
  with wf show "wf_tables (snd (sql_upsert_vm v E now t))"
    unfolding sql_upsert_vm_def
    by (intro with_params_wf [OF _ wf])
      (auto simp: bind_error_None wf_tables_def set_update_where)
qed (auto simp: sql_upsert_vm_def with_params_def split: option.splits if_splits)

interpretation best_provider: sql_query "sql_best_provider c m" for c m
  by unfold_locales
    (auto simp: sql_best_provider_def with_params_def split: option.splits list.splits)

interpretation next_job: sql_query "sql_next_job l i" for l i
  by unfold_locales
    (auto simp: sql_next_job_def with_params_def split: option.splits list.splits)

interpretation get_provider: sql_query "sql_get_provider i" for i
  by unfold_locales
    (auto simp: sql_get_provider_def with_params_def split: option.splits list.splits)

interpretation list_providers: sql_query sql_list_providers
  by unfold_locales (auto simp: sql_list_providers_def)


section \<open>What the operations compute\<close>

lemma scan_sets:
  assumes "pg_ok E"
  shows "set (scan_providers E xs) = set xs" and "set (scan_jobs E ys) = set ys"
  using assms by (auto simp: pg_ok_def intro!: mset_eq_set)

text \<open>\<open>ORDER BY mem_free_mb DESC LIMIT 1\<close> over the eligible rows.\<close>

lemma sql_best_provider_Inr:
  assumes "sql_best_provider c m E now t = (Inr pr, t')" and "pg_ok E"
  obtains r where "r \<in> set (providers t)" and "eligible c m r"
    and "\<And>r'. r' \<in> set (providers t) \<Longrightarrow> eligible c m r' \<Longrightarrow> p_mem_free_mb r' \<le> p_mem_free_mb r"
    and "pr = zero_provider\<lparr>p_id := p_id r, p_wg_ip := p_wg_ip r,
           p_tunnel_port := p_tunnel_port r, p_mode := p_mode r\<rparr>"
proof -
  let ?el = "filter (eligible c m) (scan_providers E (providers t))"
  let ?s = "sort_key (\<lambda>r. - p_mem_free_mb r) ?el"
  have set_el: "set ?el = {r \<in> set (providers t). eligible c m r}"
    using scan_sets [OF assms(2)] by auto
  from assms(1) obtain r rs where s: "?s = r # rs"
    and pr: "pr = zero_provider\<lparr>p_id := p_id r, p_wg_ip := p_wg_ip r,
           p_tunnel_port := p_tunnel_port r, p_mode := p_mode r\<rparr>"
    unfolding sql_best_provider_def
    by (auto dest!: with_params_Inr split: list.splits)
  have "r \<in> set ?el" using s by (metis list.set_intros(1) set_sort)
  moreover have "p_mem_free_mb r' \<le> p_mem_free_mb r" if "r' \<in> set ?el" for r'
    using hd_sort_key_least [OF that, of "\<lambda>r. - p_mem_free_mb r"] s by simp
  ultimately show ?thesis using set_el pr by (auto intro!: that)
qed

lemma sql_best_provider_none:
  assumes "pg_ok E" and "int4_ok c" and "int4_ok m"
  shows "fst (sql_best_provider c m E now t) = Inl ErrNoRows \<longleftrightarrow>
    (\<forall>r \<in> set (providers t). \<not> eligible c m r)"
proof -
  let ?el = "filter (eligible c m) (scan_providers E (providers t))"
  let ?s = "sort_key (\<lambda>r. - p_mem_free_mb r) ?el"
  have "?s = [] \<longleftrightarrow> (\<forall>r \<in> set (providers t). \<not> eligible c m r)"
    using scan_sets [OF assms(1)]
    by (metis filter_empty_conv set_empty set_sort)
  moreover have "bind_error E [PInt c, PInt m] = None" using assms by (simp add: bind_error_None)
  ultimately show ?thesis
    by (auto simp: sql_best_provider_def with_params_def split: list.splits)
qed

text \<open>\<open>ORDER BY created_at ASC LIMIT 1 FOR UPDATE SKIP LOCKED\<close>.\<close>

lemma sql_next_job_Inr:
  assumes "sql_next_job l i E now t = (Inr j, t')" and "pg_ok E"
  obtains k where "k \<in> set (jobs t)" and "ready l i k"
    and "\<And>k'. k' \<in> set (jobs t) \<Longrightarrow> ready l i k' \<Longrightarrow> j_created_at k \<le> j_created_at k'"
    and "j = k\<lparr>j_provider_id := [], j_status := [], j_created_at := zero_time\<rparr>"
proof -
  let ?el = "filter (ready l i) (scan_jobs E (jobs t))"
  have set_el: "set ?el = {k \<in> set (jobs t). ready l i k}"
    using scan_sets [OF assms(2)] by auto
  from assms(1) obtain k ks where s: "sort_key j_created_at ?el = k # ks"
    and j: "j = k\<lparr>j_provider_id := [], j_status := [], j_created_at := zero_time\<rparr>"
    unfolding sql_next_job_def
    by (auto dest!: with_params_Inr split: list.splits)
  have "k \<in> set ?el" using s by (metis list.set_intros(1) set_sort)
  moreover have "j_created_at k \<le> j_created_at k'" if "k' \<in> set ?el" for k'
    using hd_sort_key_least [OF that, of j_created_at] s by simp
  ultimately show ?thesis using set_el j by (auto intro!: that)
qed

text \<open>
  The exits of \<open>NextPendingJob\<close>: nothing changed, or one job was found and set running;
  a job without an error means the latter.
\<close>

lemma NextPendingJob_exits:
  assumes "NextPendingJob l i p = ((jo, eo), q)"
  shows "tabs q = tabs p \<and> (jo = None \<or> eo \<noteq> None) \<or>
    (\<exists>j. jo = Some j \<and>
       fst (sql_next_job l i (pg_env p) (clock p) (tabs p)) = Inr j \<and>
       tabs q = snd (sql_set_running (j_id j) (pg_env p) (clock p) (tabs p)))"
proof (cases "next_outcome p")
  case (Pair oc p1)
  note p1 = next_outcome_eq [OF Pair]
  show ?thesis
  proof (cases oc)
    case Served
    obtain r p2 where q1: "exec (sql_next_job l i) p1 = (r, p2)" by fastforce
    have p2: "tabs p2 = tabs p" "pg_env p2 = pg_env p" "clock p2 = clock p"
      using next_job.exec_part [of l i p1] exec_frame [of "sql_next_job l i" p1] p1 q1 by simp_all
    show ?thesis
    proof (cases r)
      case (Inl e)
      then show ?thesis
        using assms Pair Served q1 p2 by (auto simp: NextPendingJob_def split: if_splits)
    next
      case (Inr j)
      then have found: "fst (sql_next_job l i (pg_env p) (clock p) (tabs p)) = Inr j"
        using q1 exec_Inr [of "sql_next_job l i" p1 j p2] p1 by simp
      obtain u p3 where q2: "exec (sql_set_running (j_id j)) p2 = (u, p3)" by fastforce
      have set3: "tabs p3 = snd (sql_set_running (j_id j) (pg_env p) (clock p) (tabs p))"
        if "u = Inr x" for x
        using q2 that exec_Inr [of _ p2 x p3] p2 by (metis snd_conv)
      obtain oc4 p4 where q3: "next_outcome p3 = (oc4, p4)" by fastforce
      show ?thesis
        using assms Pair Served q1 q2 q3 Inr p1 found set3 next_outcome_eq [OF q3]
        by (auto simp: NextPendingJob_def split: sum.splits outcome.splits)
    qed
  qed (use assms Pair p1 in \<open>auto simp: NextPendingJob_def\<close>)
qed

lemma NextPendingJob_frame [simp]:
  "pg_env (snd (NextPendingJob l i p)) = pg_env p" "clock (snd (NextPendingJob l i p)) = clock p"
  by (auto simp: NextPendingJob_def split: prod.splits sum.splits outcome.splits)
    (metis exec_frame next_outcome_eq snd_conv)+

lemma NextPendingJob_wf:
  "wf_tables (tabs p) \<Longrightarrow> wf_tables (tabs (snd (NextPendingJob l i p)))"
  using NextPendingJob_exits [of l i p] set_running.wf
  by (cases "NextPendingJob l i p") (metis prod.collapse snd_conv)

text \<open>Every call keeps the tables well formed: the facts of the interpretations.\<close>

lemmas calls_wf [keeps] = upsert_provider.exec_wf update_heartbeat.exec_wf mark_offline.exec_wf
  best_provider.exec_wf insert_job.exec_wf assign_job.exec_wf upsert_vm.exec_wf
  get_provider.exec_wf list_providers.exec_wf NextPendingJob_wf

lemma run_call_wf: "wf_tables (tabs p) \<Longrightarrow> wf_tables (tabs (run_call c p))"
  by (cases c) (auto simp: op_defs intro: keeps)

lemma run_calls_wf: "wf_tables (tabs p) \<Longrightarrow> wf_tables (tabs (run_calls cs p))"
  by (induction cs arbitrary: p) (auto simp: run_calls_def run_call_wf)



section \<open>Properties\<close>

lemmas sample_defs = sample_pg_def sample_provider_def sample_job_def sample_vm_def
  plain_env_def zero_provider_def

lemma plain_env_ok [simp]: "pg_ok plain_env"
  by (simp add: pg_ok_def plain_env_def)

lemma sample_pg_wf: "wf_tables (tabs sample_pg)"
  by (simp add: sample_defs wf_tables_def wf_row_defs int4_ok_def)

lemmas calls_part = upsert_provider.exec_part update_heartbeat.exec_part mark_offline.exec_part
  insert_job.exec_part assign_job.exec_part upsert_vm.exec_part best_provider.exec_part
  get_provider.exec_part list_providers.exec_part

lemma NextPendingJob_part:
  "(providers (tabs (snd (NextPendingJob l i p))), vms (tabs (snd (NextPendingJob l i p)))) =
     (providers (tabs p), vms (tabs p))"
  using NextPendingJob_exits [of l i p] set_running.frame
  by (cases "NextPendingJob l i p") (metis prod.collapse snd_conv)

lemma NextPendingJob_cases:
  assumes "NextPendingJob l i p = (r, q)"
  obtains (same) "tabs q = tabs p" and "fst r = None \<or> snd r \<noteq> None"
  | (claimed) j where "fst r = Some j"
      and "fst (sql_next_job l i (pg_env p) (clock p) (tabs p)) = Inr j"
      and "tabs q = snd (sql_set_running (j_id j) (pg_env p) (clock p) (tabs p))"
proof -
  have "NextPendingJob l i p = ((fst r, snd r), q)" using assms by simp
  from NextPendingJob_exits [OF this] same claimed show thesis by meson
qed

section \<open>What is never changed\<close>

text \<open>A row without the columns that some statement updates.\<close>

definition fixed_provider :: "provider \<Rightarrow> provider" where
  "fixed_provider r = r\<lparr>p_wg_pubkey := [], p_status := [], p_active_vms := 0, p_cpu_load := 0, p_mem_free_mb := 0,
     p_last_seen := 0\<rparr>"

definition fixed_job :: "job \<Rightarrow> job" where
  "fixed_job j = j\<lparr>j_provider_id := [], j_status := []\<rparr>"

definition fixed_vm :: "vm \<Rightarrow> vm" where
  "fixed_vm v = v\<lparr>v_status := [], v_error := []\<rparr>"

text \<open>Every table goes on with the rows it had, up to those columns; new ones come after them.\<close>

definition grown :: "tables \<Rightarrow> tables \<Rightarrow> bool" where
  "grown t t' \<longleftrightarrow>
     (\<exists>rs. map fixed_provider (providers t') = map fixed_provider (providers t) @ rs) \<and>
     (\<exists>js. map fixed_job (jobs t') = map fixed_job (jobs t) @ js) \<and>
     (\<exists>vs. map fixed_vm (vms t') = map fixed_vm (vms t) @ vs)"

lemma grown_refl [simp]: "grown t t"
  by (simp add: grown_def)

lemma grown_trans: "grown t t1 \<Longrightarrow> grown t1 t2 \<Longrightarrow> grown t t2"
  unfolding grown_def by (metis append.assoc)

lemma exec_grown: "(\<And>E now t. grown t (snd (st E now t))) \<Longrightarrow> grown (tabs p) (tabs (snd (exec st p)))"
  by (rule exec_rule) simp_all

lemma with_params_grown:
  "(\<And>E now t. grown t (snd (body E now t))) \<Longrightarrow> grown t (snd (with_params ps body E now t))"
  by (simp add: with_params_def split: option.splits)

lemma NextPendingJob_grown: "grown (tabs p) (tabs (snd (NextPendingJob l i p)))"
proof (cases "NextPendingJob l i p")
  case (Pair r q)
  then show ?thesis
    by (cases rule: NextPendingJob_cases)
      (simp_all add: Pair sql_set_running_def grown_def map_update_where fixed_job_def)
qed

lemma run_call_grown: "grown (tabs p) (tabs (run_call c p))"
proof (cases c)
  case (CallUpsertProvider pr)
  then show ?thesis
    by (simp only: run_call.simps UpsertProvider_def sql_upsert_provider_def)
      (intro exec_grown with_params_grown, simp add: grown_def map_update_where fixed_provider_def)
next
  case (CallHeartbeat i a l m)
  then show ?thesis
    by (simp only: run_call.simps UpdateHeartbeat_def sql_update_heartbeat_def)
      (intro exec_grown with_params_grown, simp add: grown_def map_update_where fixed_provider_def)
next
  case (CallMarkOffline d)
  then show ?thesis
    by (simp only: run_call.simps MarkOffline_def)
      (intro exec_grown, simp add: sql_mark_offline_def grown_def map_update_where fixed_provider_def)
next
  case (CallInsertJob j)
  then show ?thesis
    by (simp only: run_call.simps InsertJob_def sql_insert_job_def)
      (intro exec_grown with_params_grown, simp add: grown_def)
next
  case (CallAssignJob j i)
  then show ?thesis
    by (simp only: run_call.simps AssignJob_def sql_assign_job_def)
      (intro exec_grown with_params_grown, simp add: grown_def map_update_where fixed_job_def)
next
  case (CallUpsertVM v)
  then show ?thesis
    by (simp only: run_call.simps UpsertVM_def sql_upsert_vm_def)
      (intro exec_grown with_params_grown, simp add: grown_def map_update_where fixed_vm_def)
next
  case (CallNextPendingJob l i)
  then show ?thesis by (simp add: NextPendingJob_grown)
qed (use calls_part in \<open>simp_all add: op_defs grown_def\<close>)

lemma run_calls_grown: "grown (tabs p) (tabs (run_calls cs p))"
proof (induction cs arbitrary: p)
  case (Cons c cs)
  from grown_trans [OF run_call_grown [of p c] Cons.IH [of "run_call c p"]] show ?case by (simp add: run_calls_def)
qed (simp add: run_calls_def)

text \<open>
  C24 (store histories). Whatever sequence of store operations is run, whatever becomes of
  their requests on the wire and however time passes between them, the tables keep their
  primary keys, foreign key, column types and status words, and each of the three tables keeps all its
  rows: new ones are only added, and of an old one only those columns change that the statements
  update: key, status and load of a provider, provider and status of a job, status and error of a
  machine.
\<close>

theorem store_history_invariant:
  assumes "wf_tables (tabs p)"
  shows "wf_tables (tabs (run_calls cs p)) \<and>
    (\<exists>rs. map fixed_provider (providers (tabs (run_calls cs p))) = map fixed_provider (providers (tabs p)) @ rs) \<and>
    (\<exists>js. map fixed_job (jobs (tabs (run_calls cs p))) = map fixed_job (jobs (tabs p)) @ js) \<and>
    (\<exists>vs. map fixed_vm (vms (tabs (run_calls cs p))) = map fixed_vm (vms (tabs p)) @ vs)"
  using run_calls_wf [OF assms] run_calls_grown [of p cs] by (simp add: grown_def)

text \<open>A report about a machine that is known, and one about a new one.\<close>

abbreviation two_reports :: "pg_call list" where
  "two_reports \<equiv> [CallUpsertVM \<lparr>v_id = ''m1'', v_job_id = ''j1'', v_provider_id = ''b'', v_vm_ip = ''1'', v_port = 1,
      v_status = ''running'', v_error = [], v_created_at = 0\<rparr>,
    CallUpsertVM \<lparr>v_id = ''m2'', v_job_id = ''j2'', v_provider_id = ''b'', v_vm_ip = ''2'', v_port = 2,
      v_status = ''running'', v_error = [], v_created_at = 0\<rparr>, CallMarkOffline 90000000000]"

theorem store_history_invariant_witness:
  "wf_tables (tabs (run_calls two_reports sample_pg)) \<and>
   (\<exists>vs. map fixed_vm (vms (tabs (run_calls two_reports sample_pg))) = map fixed_vm (vms (tabs sample_pg)) @ vs)"
  using store_history_invariant [OF sample_pg_wf, of two_reports] by blast

text \<open>
  Result (sweep). A sweep that reports a count has switched exactly the online providers not
  seen within the interval to offline, that many of them; every other column and table is
  as before, and no provider that is still online is stale.
\<close>

theorem MarkOffline_sweeps:
  assumes "MarkOffline olderThan p = (Inr n, q)"
  shows "n = int (length (filter (stale (clock p) (olderThan sdiv 1000000000)) (providers (tabs p)))) \<and>
    providers (tabs q) = map (\<lambda>r. if stale (clock p) (olderThan sdiv 1000000000) r
      then r\<lparr>p_status := ''offline''\<rparr> else r) (providers (tabs p)) \<and>
    jobs (tabs q) = jobs (tabs p) \<and> vms (tabs q) = vms (tabs p) \<and>
    (\<forall>r \<in> set (providers (tabs q)). p_status r = ''online'' \<longrightarrow>
       clock p - (olderThan sdiv 1000000000) * 1000000 \<le> p_last_seen r)"
proof -
  from assms have "sql_mark_offline (olderThan sdiv 1000000000) (pg_env p) (clock p) (tabs p)
      = (Inr n, tabs q)"
    by (auto simp: MarkOffline_def dest: exec_Inr)
  then have "n = int (length (filter (stale (clock p) (olderThan sdiv 1000000000)) (providers (tabs p))))"
    and "tabs q = (tabs p)\<lparr>providers := map (\<lambda>r. if stale (clock p) (olderThan sdiv 1000000000) r
      then r\<lparr>p_status := ''offline''\<rparr> else r) (providers (tabs p))\<rparr>"
    by (auto simp: sql_mark_offline_def update_where_def)
  then show ?thesis by (auto simp: stale_def split: if_splits)
qed

theorem MarkOffline_sweeps_witness:
  "\<exists>q. MarkOffline 90000000000 sample_pg = (Inr 1, q) \<and>
     map p_status (providers (tabs q)) = [''offline'', ''online'']"
proof -
  obtain q where q: "MarkOffline 90000000000 sample_pg = (Inr 1, q)"
    by (simp add: MarkOffline_def exec_served sample_defs sql_mark_offline_def stale_def
        sdiv_nonneg)
  show ?thesis using MarkOffline_sweeps [OF q] q
    by (simp add: sample_defs stale_def sdiv_nonneg)
qed

text \<open>
  Result (placement). The provider \<open>BestProvider\<close> returns is online, has the cores and the free
  memory asked for, and no eligible provider has more free memory, however the server
  orders ties; the tables are untouched.
\<close>

theorem BestProvider_optimal:
  assumes "pg_ok (pg_env p)" and "BestProvider cpu mem p = (Inr pr, q)"
  shows "tabs q = tabs p \<and>
    (\<exists>r \<in> set (providers (tabs p)). p_id pr = p_id r \<and> p_wg_ip pr = p_wg_ip r \<and>
       p_tunnel_port pr = p_tunnel_port r \<and> p_mode pr = p_mode r \<and>
       p_status r = ''online'' \<and> cpu \<le> p_cpu_cores r \<and> mem \<le> p_mem_free_mb r \<and>
       (\<forall>r' \<in> set (providers (tabs p)). p_status r' = ''online'' \<and> cpu \<le> p_cpu_cores r' \<and>
          mem \<le> p_mem_free_mb r' \<longrightarrow> p_mem_free_mb r' \<le> p_mem_free_mb r))"
proof -
  from assms(2) have run: "sql_best_provider cpu mem (pg_env p) (clock p) (tabs p) = (Inr pr, tabs q)"
    unfolding BestProvider_def by (rule exec_Inr)
  moreover have "tabs q = tabs p"
    using run best_provider.frame [of cpu mem "pg_env p" "clock p" "tabs p"] by simp
  ultimately show ?thesis
    using assms(1) by (elim sql_best_provider_Inr) (auto simp: eligible_def)
qed

theorem BestProvider_optimal_witness:
  "\<exists>pr q. BestProvider 2 512 sample_pg = (Inr pr, q) \<and> tabs q = tabs sample_pg \<and> p_id pr = ''b''"
proof -
  have "map_sum id p_id (fst (BestProvider 2 512 sample_pg)) = Inr ''b''"
    by code_simp
  then obtain pr q where q: "BestProvider 2 512 sample_pg = (Inr pr, q)" and i: "p_id pr = ''b''"
    by (cases "BestProvider 2 512 sample_pg"; cases "fst (BestProvider 2 512 sample_pg)") auto
  have "pg_ok (pg_env sample_pg)" by (simp add: sample_pg_def)
  from BestProvider_optimal [OF this q] q i show ?thesis by blast
qed

text \<open>
  Result (no placement). When the request is served and its parameters fit the columns,
  \<open>BestProvider\<close> answers \<open>sql.ErrNoRows\<close> exactly when no online provider has the cores and
  the free memory, so the scheduler's "no provider available" is neither early nor late.
\<close>

theorem BestProvider_ErrNoRows:
  assumes "pg_ok (pg_env p)" and "fst (next_outcome p) = Served"
    and "int4_ok cpu" and "int4_ok mem"
  shows "fst (BestProvider cpu mem p) = Inl ErrNoRows \<longleftrightarrow>
    \<not> (\<exists>r \<in> set (providers (tabs p)). p_status r = ''online'' \<and> cpu \<le> p_cpu_cores r \<and>
         mem \<le> p_mem_free_mb r)"
  using sql_best_provider_none [OF assms(1,3,4), of "clock p" "tabs p"] assms(2)
  by (cases "sql_best_provider cpu mem (pg_env p) (clock p) (tabs p)")
    (auto simp: BestProvider_def exec_eq eligible_def)

theorem BestProvider_ErrNoRows_witness:
  "fst (BestProvider 2 8192 sample_pg) = Inl ErrNoRows \<and> fst (BestProvider 2 512 sample_pg) \<noteq> Inl ErrNoRows"
proof -
  have h: "pg_ok (pg_env sample_pg)" "fst (next_outcome sample_pg) = Served"
    by (simp_all add: sample_pg_def next_outcome_def)
  have i: "int4_ok 2" "int4_ok 8192" "int4_ok 512" by (simp_all add: int4_ok_def)
  show ?thesis
    using BestProvider_ErrNoRows [OF h i(1) i(2)] BestProvider_ErrNoRows [OF h i(1) i(3)]
    by (simp add: sample_defs)
qed

end
