(* ===== verification/Provider_Presence.thy ===== *)
theory Provider_Presence
  imports Postgres
begin

text \<open>
  Which providers are online. A provider is kept online by its heartbeats and taken offline
  by the sweep; this theory follows one row of the \<open>providers\<close> table through arbitrary
  histories of store calls (\<open>pkg/store/postgres.go\<close>), and looks rows up and registers them.
\<close>


section \<open>One row\<close>

definition provider_at :: "tables \<Rightarrow> string \<Rightarrow> provider option" where
  "provider_at t i = List.find (\<lambda>r. p_id r = i) (providers t)"

definition present :: "int \<Rightarrow> provider \<Rightarrow> bool" where
  "present since r \<longleftrightarrow> p_status r = ''online'' \<and> since \<le> p_last_seen r"

text \<open>The calls by which provider \<open>i\<close> shows that it is alive.\<close>

fun signs_of_life :: "string \<Rightarrow> pg_call \<Rightarrow> bool" where
  "signs_of_life i (CallUpsertProvider pr) = (p_id pr = i)"
| "signs_of_life i (CallHeartbeat j a c m) = (j = i)"
| "signs_of_life i c = False"

lemma provider_at_mem: "provider_at t i = Some r \<Longrightarrow> r \<in> set (providers t) \<and> p_id r = i"
  by (auto simp: provider_at_def dest: find_SomeD)

lemma provider_at_wf: "wf_tables t \<Longrightarrow> r \<in> set (providers t) \<Longrightarrow> provider_at t (p_id r) = Some r"
  by (simp add: provider_at_def wf_tables_def find_key)

lemma provider_at_cong: "providers t = providers t' \<Longrightarrow> provider_at t i = provider_at t' i"
  by (simp add: provider_at_def)

lemma provider_at_update [simp]:
  assumes "\<And>r. p_id (f r) = p_id r"
  shows "provider_at (t\<lparr>providers := update_where (\<lambda>r. p_id r = i) f (providers t)\<rparr>) j =
    (if j = i then map_option f (provider_at t j) else provider_at t j)"
  using assms by (simp add: provider_at_def find_update_where)

lemma find_update_if:
  "(\<And>x. k (f x) = k x) \<Longrightarrow> List.find (\<lambda>x. k x = i) (update_where P f xs) =
     map_option (\<lambda>x. if P x then f x else x) (List.find (\<lambda>x. k x = i) xs)"
  by (induction xs) (auto simp: update_where_def)

lemma provider_at_sweep:
  "provider_at (t\<lparr>providers := update_where P (\<lambda>r. r\<lparr>p_status := st\<rparr>) (providers t)\<rparr>) i =
     map_option (\<lambda>r. if P r then r\<lparr>p_status := st\<rparr> else r) (provider_at t i)"
  by (simp add: provider_at_def find_update_if)


section \<open>Statements on one row\<close>

lemma sql_upsert_provider_at:
  assumes "provider_at t i = Some r"
  shows "provider_at (snd (sql_upsert_provider pr E now t)) i = Some r \<or>
    p_id pr = i \<and> provider_at (snd (sql_upsert_provider pr E now t)) i =
      Some (r\<lparr>p_wg_pubkey := p_wg_pubkey pr, p_status := ''online'', p_last_seen := now\<rparr>)"
proof -
  have "provider_at (t\<lparr>providers := providers t @ [x]\<rparr>) i = Some r" for x
    using assms by (simp add: provider_at_def find_append)
  then show ?thesis
    using assms by (auto simp: sql_upsert_provider_def with_params_def split: option.splits)
qed

lemma sql_update_heartbeat_at:
  assumes "provider_at t i = Some r"
  shows "provider_at (snd (sql_update_heartbeat j a c m E now t)) i = Some r \<or>
    j = i \<and> (\<exists>r'. provider_at (snd (sql_update_heartbeat j a c m E now t)) i = Some r' \<and>
      p_status r' = ''online'' \<and> p_last_seen r' = now)"
  using assms by (auto simp: sql_update_heartbeat_def with_params_def split: option.splits)

lemma sql_mark_offline_at:
  assumes "provider_at t i = Some r"
  shows "provider_at (snd (sql_mark_offline secs E now t)) i =
    Some (if stale now secs r then r\<lparr>p_status := ''offline''\<rparr> else r)"
  using assms by (simp add: sql_mark_offline_def provider_at_sweep)

text \<open>A call changes a row only as a sign of life of its provider or as a sweep.\<close>

lemma run_call_at:
  assumes "provider_at (tabs p) i = Some r"
  obtains (same) "provider_at (tabs (run_call c p)) i = Some r"
  | (alive) r' where "signs_of_life i c" and "provider_at (tabs (run_call c p)) i = Some r'"
      and "p_status r' = ''online''" and "p_last_seen r' = clock p"
  | (swept) d where "c = CallMarkOffline d" and "stale (clock p) (d sdiv 1000000000) r"
      and "provider_at (tabs (run_call c p)) i = Some (r\<lparr>p_status := ''offline''\<rparr>)"
proof (cases c)
  case (CallUpsertProvider pr)
  let ?P = "\<lambda>t. provider_at t i = Some r \<or> p_id pr = i \<and>
      (\<exists>r'. provider_at t i = Some r' \<and> p_status r' = ''online'' \<and> p_last_seen r' = clock p)"
  have "?P (snd (sql_upsert_provider pr (pg_env p) (clock p) (tabs p)))"
    using sql_upsert_provider_at [OF assms, of pr "pg_env p" "clock p"] by auto
  with assms have "?P (tabs (snd (exec (sql_upsert_provider pr) p)))"
    by (intro exec_rule [where P = ?P]) blast+
  then have "?P (tabs (run_call c p))" by (simp add: CallUpsertProvider op_defs)
  with CallUpsertProvider show ?thesis using same alive signs_of_life.simps(1) by blast
next
  case (CallHeartbeat j a cl m)
  let ?P = "\<lambda>t. provider_at t i = Some r \<or> j = i \<and>
      (\<exists>r'. provider_at t i = Some r' \<and> p_status r' = ''online'' \<and> p_last_seen r' = clock p)"
  have "?P (tabs (snd (exec (sql_update_heartbeat j a cl m) p)))"
    using assms sql_update_heartbeat_at [OF assms, of j a cl m "pg_env p" "clock p"]
    by (intro exec_rule [where P = ?P]) blast+
  then have "?P (tabs (run_call c p))" by (simp add: CallHeartbeat op_defs)
  with CallHeartbeat show ?thesis using same alive signs_of_life.simps(2) by blast
next
  case (CallMarkOffline d)
  let ?P = "\<lambda>t. provider_at t i = Some r \<or> stale (clock p) (d sdiv 1000000000) r \<and>
      provider_at t i = Some (r\<lparr>p_status := ''offline''\<rparr>)"
  have "?P (snd (sql_mark_offline (d sdiv 1000000000) (pg_env p) (clock p) (tabs p)))"
    using sql_mark_offline_at [OF assms] by simp
  with assms have "?P (tabs (snd (exec (sql_mark_offline (d sdiv 1000000000)) p)))"
    by (intro exec_rule [where P = ?P]) blast+
  then have "?P (tabs (run_call c p))" by (simp add: CallMarkOffline op_defs)
  with CallMarkOffline show ?thesis using same swept by blast
next
  case (CallInsertJob j)
  with assms show ?thesis
    using insert_job.exec_part [of j p] by (intro same) (simp add: op_defs provider_at_def)
next
  case (CallAssignJob j pid)
  with assms show ?thesis
    using assign_job.exec_part [of j pid p] by (intro same) (simp add: op_defs provider_at_def)
next
  case (CallUpsertVM v)
  with assms show ?thesis
    using upsert_vm.exec_part [of v p] by (intro same) (simp add: op_defs provider_at_def)
next
  case (CallNextPendingJob l j)
  with assms show ?thesis
    using NextPendingJob_part [of l j p] by (intro same) (simp add: provider_at_def)
next
  case (CallBestProvider cpu mem)
  with assms show ?thesis
    using best_provider.exec_part [of cpu mem p] by (intro same) (simp add: op_defs)
next
  case (CallGetProvider j)
  with assms show ?thesis
    using get_provider.exec_part [of j p] by (intro same) (simp add: op_defs)
next
  case CallListProviders
  with assms show ?thesis
    using list_providers.exec_part [of p] by (intro same) (simp add: op_defs)
next
  case (Pass_Time d)
  with assms show ?thesis by (intro same) simp
qed

lemma run_call_clock: "clock p \<le> clock (run_call c p)"
  by (cases c) (simp_all add: op_defs)

lemma run_calls_clock: "clock p \<le> clock (run_calls cs p)"
proof (induction cs arbitrary: p)
  case (Cons c cs)
  show ?case using Cons.IH [of "run_call c p"] run_call_clock [of p c]
    by (simp add: run_calls_def)
qed (simp add: run_calls_def)



section \<open>Staying online and going offline\<close>

lemma run_call_present:
  assumes "provider_at (tabs p) i = Some r" and "present since r" and "since \<le> clock p"
    and "\<And>d. c = CallMarkOffline d \<Longrightarrow> clock p - (d sdiv 1000000000) * 1000000 \<le> since"
  shows "\<exists>r'. provider_at (tabs (run_call c p)) i = Some r' \<and> present since r'"
  using assms(1)
proof (cases rule: run_call_at [where c = c])
  case (swept d)
  with assms(2) assms(4) [of d] show ?thesis by (auto simp: stale_def present_def)
qed (use assms in \<open>auto simp: present_def\<close>)

lemma run_calls_present:
  assumes "provider_at (tabs p) i = Some r" and "present since r" and "since \<le> clock p"
    and "\<And>d. CallMarkOffline d \<in> set cs \<Longrightarrow> D \<le> d sdiv 1000000000"
    and "clock (run_calls cs p) \<le> since + D * 1000000"
  shows "\<exists>r'. provider_at (tabs (run_calls cs p)) i = Some r' \<and> present since r'"
  using assms
proof (induction cs arbitrary: p r)
  case (Cons c cs)
  have now: "clock p \<le> since + D * 1000000"
    using Cons.prems(5) run_call_clock [of p c] run_calls_clock [of "run_call c p" cs]
    by (simp add: run_calls_def)
  have "clock p - (d sdiv 1000000000) * 1000000 \<le> since" if "c = CallMarkOffline d" for d
    using now Cons.prems(4) [of d] that by simp
  from run_call_present [OF Cons.prems(1-3) this] obtain r1
    where "provider_at (tabs (run_call c p)) i = Some r1" "present since r1" by blast
  from Cons.IH [OF this] Cons.prems run_call_clock [of p c] show ?case
    by (simp add: run_calls_def)
qed (auto simp: run_calls_def)

lemma run_call_silent:
  assumes "provider_at (tabs p) i = Some r" and "p_last_seen r = seen"
    and "\<not> signs_of_life i c"
  shows "\<exists>r'. provider_at (tabs (run_call c p)) i = Some r' \<and> p_last_seen r' = seen \<and>
    (p_status r = ''offline'' \<longrightarrow> p_status r' = ''offline'')"
  using assms(1) by (cases rule: run_call_at [where c = c]) (use assms in auto)

lemma run_calls_silent:
  assumes "provider_at (tabs p) i = Some r" and "p_last_seen r = seen"
    and "list_all (\<lambda>c. \<not> signs_of_life i c) cs"
  shows "\<exists>r'. provider_at (tabs (run_calls cs p)) i = Some r' \<and> p_last_seen r' = seen \<and>
    (p_status r = ''offline'' \<longrightarrow> p_status r' = ''offline'')"
  using assms
proof (induction cs arbitrary: p r)
  case (Cons c cs)
  from run_call_silent [OF Cons.prems(1,2)] Cons.prems(3) obtain r1
    where "provider_at (tabs (run_call c p)) i = Some r1" "p_last_seen r1 = seen"
      "p_status r = ''offline'' \<longrightarrow> p_status r1 = ''offline''" by auto
  with Cons.IH [OF this(1,2)] Cons.prems(3) show ?case by (auto simp: run_calls_def)
qed (simp add: run_calls_def)

lemma run_calls_append: "run_calls (cs @ ds) p = run_calls ds (run_calls cs p)"
  by (simp add: run_calls_def)


section \<open>Properties\<close>

text \<open>
  C16 (heartbeat). After a heartbeat of a known provider has been accepted, no history of
  store calls by anybody, with sweeps of 90 seconds and any losses on the wire, takes it
  offline while at most 90 seconds pass.
\<close>

theorem heartbeat_keeps_online:
  assumes "provider_at (tabs p) i \<noteq> None"
    and "UpdateHeartbeat i activeVMs cpuLoad memFree p = (Inr (), q)"
    and "\<And>d. CallMarkOffline d \<in> set cs \<Longrightarrow> d = 90 * 1000000000"
    and "clock (run_calls cs q) \<le> clock p + 90 * 1000000"
  shows "\<exists>r. provider_at (tabs (run_calls cs q)) i = Some r \<and> p_status r = ''online''"
proof -
  from assms(2) have run: "sql_update_heartbeat i activeVMs cpuLoad memFree (pg_env p) (clock p) (tabs p)
      = (Inr (), tabs q)"
    unfolding UpdateHeartbeat_def by (rule exec_Inr)
  have q: "clock q = clock p"
    using assms(2) by (metis UpdateHeartbeat_def exec_frame(2) snd_conv)
  from run have "tabs q = (tabs p)\<lparr>providers := update_where (\<lambda>r. p_id r = i)
      (\<lambda>r. r\<lparr>p_last_seen := clock p, p_active_vms := activeVMs,
             p_cpu_load := (case real4 (pg_env p) cpuLoad of Some y \<Rightarrow> y | None \<Rightarrow> cpuLoad),
             p_mem_free_mb := memFree, p_status := ''online''\<rparr>) (providers (tabs p))\<rparr>"
    unfolding sql_update_heartbeat_def by (auto dest!: with_params_Inr)
  with assms(1) obtain r where "provider_at (tabs q) i = Some r" "present (clock p) r"
    by (auto simp: present_def)
  moreover have "90 \<le> d sdiv 1000000000" if "CallMarkOffline d \<in> set cs" for d
    using assms(3) [OF that] by (simp add: sdiv_nonneg)
  ultimately show ?thesis
    using run_calls_present [of q i r "clock p" cs 90] assms(4) q by (auto simp: present_def)
qed

theorem heartbeat_keeps_online_witness:
  "\<exists>r. provider_at (tabs (run_calls [Pass_Time 60000000, CallMarkOffline 90000000000]
      (snd (UpdateHeartbeat ''a'' 0 0 2048 sample_pg)))) ''a'' = Some r \<and> p_status r = ''online''"
proof -
  have "provider_at (tabs sample_pg) ''a'' \<noteq> None"
    by (simp add: provider_at_def sample_pg_def sample_provider_def zero_provider_def)
  moreover have "fst (UpdateHeartbeat ''a'' 0 0 2048 sample_pg) = Inr ()"
    by code_simp
  then have "UpdateHeartbeat ''a'' 0 0 2048 sample_pg = (Inr (), snd (UpdateHeartbeat ''a'' 0 0 2048 sample_pg))"
    by (metis prod.collapse)
  ultimately show ?thesis
    by (rule heartbeat_keeps_online)
      (simp_all add: run_calls_def op_defs)
qed

text \<open>
  C17 (silence). A provider that gives no sign of life is offline after the first sweep that
  succeeds later than 90 seconds after it was last seen, and stays offline until it is heard
  of again, whatever else happens to the store before, between and after.
\<close>

theorem silent_provider_goes_offline:
  assumes "wf_tables (tabs p)" and "provider_at (tabs p) i = Some r"
    and "list_all (\<lambda>c. \<not> signs_of_life i c) (before @ after)"
    and "MarkOffline (90 * 1000000000) (run_calls before p) = (Inr n, q)"
    and "p_last_seen r + 90 * 1000000 < clock (run_calls before p)"
  shows "\<exists>r'. provider_at (tabs (run_calls after q)) i = Some r' \<and> p_status r' = ''offline''"
proof -
  let ?b = "run_calls before p"
  from run_calls_silent [OF assms(2) refl, of before] assms(3) obtain r1
    where r1: "provider_at (tabs ?b) i = Some r1" "p_last_seen r1 = p_last_seen r" by auto
  have wf: "wf_provider r1"
    using provider_at_mem [OF r1(1)] run_calls_wf [OF assms(1), of before]
    by (auto simp: wf_tables_def)
  from assms(4) have "sql_mark_offline 90 (pg_env ?b) (clock ?b) (tabs ?b) = (Inr n, tabs q)"
    by (auto simp: MarkOffline_def sdiv_nonneg dest: exec_Inr)
  with sql_mark_offline_at [OF r1(1), of 90 "pg_env ?b" "clock ?b"]
  obtain r2 where r2: "provider_at (tabs q) i = Some r2" "p_status r2 = ''offline''"
    using r1(2) assms(5) wf by (auto simp: stale_def wf_provider_def status_words split: if_splits)
  from run_calls_silent [OF r2(1) refl, of after] r2(2) assms(3) show ?thesis by auto
qed

theorem silent_provider_goes_offline_witness:
  "\<exists>r'. provider_at (tabs (run_calls [CallHeartbeat ''b'' 0 0 64]
      (snd (MarkOffline 90000000000 (run_calls [CallBestProvider 1 1] sample_pg))))) ''a'' = Some r' \<and>
    p_status r' = ''offline''"
proof -
  have r: "provider_at (tabs sample_pg) ''a'' = Some (sample_provider ''a'' 1024 0)"
    by (simp add: provider_at_def sample_pg_def sample_provider_def zero_provider_def)
  have "fst (MarkOffline (90 * 1000000000) (run_calls [CallBestProvider 1 1] sample_pg)) = Inr 1"
    by code_simp
  then have m: "MarkOffline (90 * 1000000000) (run_calls [CallBestProvider 1 1] sample_pg) =
      (Inr 1, snd (MarkOffline (90 * 1000000000) (run_calls [CallBestProvider 1 1] sample_pg)))"
    by (metis prod.collapse)
  have "clock (run_calls [CallBestProvider 1 1] sample_pg) = 500000000" by code_simp
  with silent_provider_goes_offline [OF sample_pg_wf r _ m, of "[CallHeartbeat ''b'' 0 0 64]"]
  show ?thesis by (simp add: sample_provider_def)
qed

text \<open>
  Result (registration is found). Registering a new id and then looking it up, with any requests
  served, returns the key, address, port and mode that were registered, with status online
  and nothing else filled in.
\<close>

theorem registered_provider_is_found:
  assumes "wf_tables (tabs p)" and "pg_ok (pg_env p)"
    and "p_id pr \<notin> p_id ` set (providers (tabs p))"
    and "UpsertProvider pr p = (Inr (), q)" and "fst (next_outcome q) = Served"
  shows "fst (GetProvider (p_id pr) q) = Inr (zero_provider\<lparr>p_id := p_id pr,
    p_wg_pubkey := p_wg_pubkey pr, p_wg_ip := p_wg_ip pr, p_tunnel_port := p_tunnel_port pr,
    p_mode := p_mode pr, p_status := ''online''\<rparr>)"
proof -
  from assms(4) have run: "sql_upsert_provider pr (pg_env p) (clock p) (tabs p) = (Inr (), tabs q)"
    unfolding UpsertProvider_def by (rule exec_Inr)
  have env: "pg_env q = pg_env p"
    using assms(4) by (metis UpsertProvider_def exec_frame(1) snd_conv)
  from run assms(3) have "tabs q = (tabs p)\<lparr>providers := providers (tabs p) @ [inserted_provider (clock p) pr]\<rparr>"
    unfolding sql_upsert_provider_def by (auto dest!: with_params_Inr)
  then have tq: "providers (tabs q) = providers (tabs p) @ [inserted_provider (clock p) pr]" by simp
  from run have ok: "text_ok (pg_env p) (p_id pr)"
    by (auto simp: sql_upsert_provider_def with_params_def bind_error_None split: option.splits)
  have "mset (filter (\<lambda>r. p_id r = p_id pr) (scan_providers (pg_env p) (providers (tabs q)))) =
      mset (filter (\<lambda>r. p_id r = p_id pr) (providers (tabs q)))"
    using assms(2) by (simp only: pg_ok_def mset_filter)
  also have "filter (\<lambda>r. p_id r = p_id pr) (providers (tabs p)) = []"
    using assms(3) by (metis (mono_tags, lifting) filter_False imageI)
  then have "mset (filter (\<lambda>r. p_id r = p_id pr) (providers (tabs q))) =
      {#inserted_provider (clock p) pr#}"
    using tq by (simp add: inserted_provider_def)
  finally have "filter (\<lambda>r. p_id r = p_id pr) (scan_providers (pg_env p) (providers (tabs q))) =
      [inserted_provider (clock p) pr]" by (simp del: mset_filter)
  with assms(5) env ok show ?thesis
    by (simp add: GetProvider_def exec_eq sql_get_provider_def with_params_def bind_error_None
        inserted_provider_def status_words split: option.splits)
qed

theorem registered_provider_is_found_witness:
  "map_sum id p_wg_ip (fst (GetProvider ''c'' (snd (UpsertProvider (sample_provider ''c'' 0 0) sample_pg))))
     = Inr ''10.99.1.1''"
proof -
  let ?pr = "sample_provider ''c'' 0 0"
  have "fst (UpsertProvider ?pr sample_pg) = Inr ()" by code_simp
  then have u: "UpsertProvider ?pr sample_pg = (Inr (), snd (UpsertProvider ?pr sample_pg))"
    by (metis prod.collapse)
  have "fst (next_outcome (snd (UpsertProvider ?pr sample_pg))) = Served" by code_simp
  moreover have "pg_ok (pg_env sample_pg)" "p_id ?pr \<notin> p_id ` set (providers (tabs sample_pg))"
    by (simp_all add: sample_pg_def sample_provider_def zero_provider_def)
  ultimately show ?thesis
    using registered_provider_is_found [OF sample_pg_wf _ _ u]
    by (simp add: sample_provider_def zero_provider_def)
qed

text \<open>
  Result (VM reports). A report for a VM that is already known, from any provider, changes its
  status and error text only: the address, the port and the provider of the first report
  stay. A report of an unknown VM by an unknown provider is refused and changes nothing.
\<close>

theorem UpsertVM_reports:
  assumes "wf_tables (tabs p)" and "UpsertVM v p = (r, q)"
  shows "(\<forall>w \<in> set (vms (tabs p)). v_id w = v_id v \<longrightarrow> r = Inr () \<longrightarrow>
      vms (tabs q) = map (\<lambda>x. if x = w then w\<lparr>v_status := v_status v, v_error := v_error v\<rparr> else x)
        (vms (tabs p))) \<and>
    (v_id v \<notin> v_id ` set (vms (tabs p)) \<longrightarrow> v_provider_id v \<notin> p_id ` set (providers (tabs p)) \<longrightarrow>
      r \<noteq> Inr () \<and> tabs q = tabs p) \<and>
    providers (tabs q) = providers (tabs p) \<and> jobs (tabs q) = jobs (tabs p)"
proof (intro conjI ballI impI)
  fix w assume w: "w \<in> set (vms (tabs p))" "v_id w = v_id v" "r = Inr ()"
  then have run: "sql_upsert_vm v (pg_env p) (clock p) (tabs p) = (Inr (), tabs q)"
    using assms(2) by (simp add: UpsertVM_def exec_Inr)
  have "v_id v \<in> v_id ` set (vms (tabs p))" using w(1) by (simp flip: w(2))
  with run have "tabs q = (tabs p)\<lparr>vms := update_where (\<lambda>w. v_id w = v_id v)
      (\<lambda>w. w\<lparr>v_status := v_status v, v_error := v_error v\<rparr>) (vms (tabs p))\<rparr>"
    unfolding sql_upsert_vm_def by (auto dest!: with_params_Inr)
  moreover have "v_id x = v_id v \<longleftrightarrow> x = w" if "x \<in> set (vms (tabs p))" for x
    using key_unique [of v_id "vms (tabs p)"] assms(1) that w by (auto simp: wf_tables_def)
  ultimately show "vms (tabs q) = map (\<lambda>x. if x = w then w\<lparr>v_status := v_status v,
      v_error := v_error v\<rparr> else x) (vms (tabs p))"
    by (simp add: update_where_def cong: map_cong)
next
  assume new: "v_id v \<notin> v_id ` set (vms (tabs p))"
    "v_provider_id v \<notin> p_id ` set (providers (tabs p))"
  have refused: "snd (sql_upsert_vm v (pg_env p) (clock p) (tabs p)) = tabs p"
    "fst (sql_upsert_vm v (pg_env p) (clock p) (tabs p)) \<noteq> Inr ()"
    unfolding sql_upsert_vm_def with_params_def if_not_P [OF new(1)] if_P [OF new(2)]
    by (simp_all split: option.split)
  have "tabs (snd (exec (sql_upsert_vm v) p)) = tabs p"
    using refused(1) by (intro exec_rule [where P = "\<lambda>t. t = tabs p"]) simp_all
  then show "tabs q = tabs p" using assms(2) by (simp add: UpsertVM_def)
  show "r \<noteq> Inr ()"
    using refused(2) assms(2) exec_Inr [of "sql_upsert_vm v" p "()" q]
    by (metis UpsertVM_def fst_conv)
qed (use upsert_vm.exec_part [of v p] assms(2) in \<open>simp_all add: UpsertVM_def\<close>)

theorem UpsertVM_reports_witness:
  "UpsertVM (sample_vm ''j0'' ''b'' ''running'') sample_pg = (Inr (), snd (UpsertVM (sample_vm ''j0'' ''b'' ''running'') sample_pg))
   \<and> map v_provider_id (vms (tabs (snd (UpsertVM (sample_vm ''j0'' ''b'' ''running'') sample_pg)))) = [''a'']"
proof -
  let ?v = "sample_vm ''j0'' ''b'' ''running''"
  have "fst (UpsertVM ?v sample_pg) = Inr ()" by code_simp
  then have u: "UpsertVM ?v sample_pg = (Inr (), snd (UpsertVM ?v sample_pg))"
    by (metis prod.collapse)
  show ?thesis
    using UpsertVM_reports [OF sample_pg_wf u] u by (simp add: sample_pg_def sample_vm_def)
qed

end
