(* ===== verification/Job_Lifecycle.thy ===== *)
theory Job_Lifecycle
  imports Postgres
begin

text \<open>
  The life of a job in the \<open>jobs\<close> table. The abstract specification is a map from job ids to
  a phase and a provider, with three actions: a job is created, assigned to a provider, and
  claimed by it. Every operation of \<open>pkg/store/postgres.go\<close> is shown to refine one action or
  none, and what a provider can be handed follows from that: only a job scheduled for it,
  and each job at most once.
\<close>


section \<open>Phases\<close>

datatype job_phase = Pending | Scheduled | Running

fun rank :: "job_phase \<Rightarrow> nat" where
  "rank Pending = 0" | "rank Scheduled = 1" | "rank Running = 2"

lemma rank_inject: "rank a = rank b \<Longrightarrow> a = b"
  by (cases a; cases b) simp_all

instantiation job_phase :: linorder
begin

definition less_eq_job_phase :: "job_phase \<Rightarrow> job_phase \<Rightarrow> bool" where
  "a \<le> b \<longleftrightarrow> rank a \<le> rank b"

definition less_job_phase :: "job_phase \<Rightarrow> job_phase \<Rightarrow> bool" where
  "a < b \<longleftrightarrow> rank a < rank b"

instance
  by standard (auto simp: less_eq_job_phase_def less_job_phase_def intro: rank_inject)

end

text \<open>The words of the status column.\<close>

definition phase_of :: "string \<Rightarrow> job_phase" where
  "phase_of s = (if s = ''running'' then Running
                 else if s = ''scheduled'' then Scheduled else Pending)"

lemma Running_greatest [simp]: "ph \<le> Running"
  by (cases ph) (simp_all add: less_eq_job_phase_def)

lemma Running_only: "Running \<le> ph \<longleftrightarrow> ph = Running"
  by (cases ph) (simp_all add: less_eq_job_phase_def)


section \<open>The abstract specification\<close>

type_synonym lifecycle_state = "string \<Rightarrow> (job_phase \<times> string) option"

datatype job_action = Create string | Assign string string | Claim string string

inductive lifecycle :: "lifecycle_state \<Rightarrow> job_action option \<Rightarrow> lifecycle_state \<Rightarrow> bool" where
  create: "m i = None \<Longrightarrow> lifecycle m (Some (Create i)) (m(i \<mapsto> (Pending, [])))"
| assign: "m i = Some (ph, pid') \<Longrightarrow> lifecycle m (Some (Assign i pid)) (m(i \<mapsto> (Scheduled, pid)))"
| claim: "m i = Some (Scheduled, pid) \<Longrightarrow>
    lifecycle m (Some (Claim i pid)) (m(i \<mapsto> (Running, pid)))"
| stutter: "lifecycle m None m"

inductive_cases lifecycleE: "lifecycle m a m'"
inductive_simps lifecycle_claim: "lifecycle m (Some (Claim i pid)) m'"
inductive_simps lifecycle_none: "lifecycle m None m'"

text \<open>A job's phase never goes back, except that an assignment schedules it.\<close>

lemma lifecycle_phase:
  assumes "lifecycle m a m'" and "m i = Some (ph, pid)" and "\<And>pid'. a \<noteq> Some (Assign i pid')"
  shows "\<exists>ph'. m' i = Some (ph', pid) \<and> ph \<le> ph'"
  using assms by (cases rule: lifecycle.cases) (auto split: if_splits)


section \<open>The abstraction\<close>

definition job_at :: "tables \<Rightarrow> string \<Rightarrow> job option" where
  "job_at t i = List.find (\<lambda>j. j_id j = i) (jobs t)"

definition abs_jobs :: "tables \<Rightarrow> lifecycle_state" where
  "abs_jobs t i = map_option (\<lambda>j. (phase_of (j_status j), j_provider_id j)) (job_at t i)"

text \<open>The action of one call of the store, read off its result.\<close>

definition action_of :: "pg_call \<Rightarrow> pg \<Rightarrow> job_action option" where
  "action_of c p =
     (if abs_jobs (tabs (run_call c p)) = abs_jobs (tabs p) then None
      else (case c of
          CallInsertJob j \<Rightarrow> Some (Create (j_id j))
        | CallAssignJob i pid \<Rightarrow> Some (Assign i pid)
        | CallNextPendingJob l pid \<Rightarrow>
            map_option (\<lambda>j. Claim (j_id j) pid) (fst (fst (NextPendingJob l pid p)))
        | _ \<Rightarrow> None))"

text \<open>The jobs handed out by a history of calls: those returned without an error.\<close>

fun deliveries :: "pg_call list \<Rightarrow> pg \<Rightarrow> string list" where
  "deliveries [] p = []"
| "deliveries (c # cs) p =
     (case c of
        CallNextPendingJob l i \<Rightarrow>
          (case fst (NextPendingJob l i p) of
             (Some j, None) \<Rightarrow> [j_id j]
           | _ \<Rightarrow> [])
      | _ \<Rightarrow> []) @ deliveries cs (run_call c p)"


section \<open>Statements on the abstract state\<close>

lemma job_at_mem: "job_at t i = Some j \<Longrightarrow> j \<in> set (jobs t) \<and> j_id j = i"
  by (auto simp: job_at_def dest: find_SomeD)

lemma job_at_wf: "wf_tables t \<Longrightarrow> j \<in> set (jobs t) \<Longrightarrow> job_at t (j_id j) = Some j"
  by (simp add: job_at_def wf_tables_def find_key)

lemma abs_jobs_cong: "jobs t = jobs t' \<Longrightarrow> abs_jobs t = abs_jobs t'"
  by (simp add: abs_jobs_def job_at_def fun_eq_iff)

lemma abs_jobs_insert:
  assumes "j_id j \<notin> j_id ` set (jobs t)"
  shows "abs_jobs (t\<lparr>jobs := jobs t @ [inserted_job j]\<rparr>) = (abs_jobs t)(j_id j \<mapsto> (Pending, []))"
  using find_fresh [OF assms]
  by (auto simp: abs_jobs_def job_at_def fun_eq_iff find_append inserted_job_def phase_of_def
      split: option.splits)

lemma abs_jobs_update:
  assumes "\<And>j. j_id (f j) = j_id j"
  shows "abs_jobs (t\<lparr>jobs := update_where (\<lambda>j. j_id j = i) f (jobs t)\<rparr>) =
    (case job_at t i of None \<Rightarrow> abs_jobs t
     | Some j \<Rightarrow> (abs_jobs t)(i \<mapsto> (phase_of (j_status (f j)), j_provider_id (f j))))"
  using assms
  by (auto simp: abs_jobs_def job_at_def fun_eq_iff find_update_where split: option.splits)

lemma sql_insert_job_refines:
  "abs_jobs (snd (sql_insert_job j E now t)) = abs_jobs t \<or>
   lifecycle (abs_jobs t) (Some (Create (j_id j))) (abs_jobs (snd (sql_insert_job j E now t)))"
proof (cases "j_id j \<in> j_id ` set (jobs t) \<or> (\<exists>ps e. bind_error E ps = Some e \<and>
    snd (sql_insert_job j E now t) = t)")
  case False
  then have "abs_jobs t (j_id j) = None"
    by (simp add: abs_jobs_def job_at_def find_fresh)
  from lifecycle.create [of "abs_jobs t", OF this] False show ?thesis
    by (auto simp: sql_insert_job_def with_params_def abs_jobs_insert split: option.splits)
qed (auto simp: sql_insert_job_def with_params_def split: option.splits)

lemma sql_assign_job_refines:
  "abs_jobs (snd (sql_assign_job i pid E now t)) = abs_jobs t \<or>
   lifecycle (abs_jobs t) (Some (Assign i pid)) (abs_jobs (snd (sql_assign_job i pid E now t)))"
proof (cases "job_at t i")
  case None
  then show ?thesis
    by (auto simp: sql_assign_job_def with_params_def abs_jobs_update split: option.splits)
next
  case (Some j)
  then have "abs_jobs t i = Some (phase_of (j_status j), j_provider_id j)"
    by (simp add: abs_jobs_def)
  from lifecycle.assign [of "abs_jobs t", OF this, of pid] Some show ?thesis
    by (auto simp: sql_assign_job_def with_params_def abs_jobs_update phase_of_def
        split: option.splits)
qed

lemma sql_set_running_abs:
  assumes "wf_tables t" and "j \<in> set (jobs t)"
  shows "abs_jobs (snd (sql_set_running (j_id j) E now t)) =
    (abs_jobs t)(j_id j \<mapsto> (Running, j_provider_id j))"
  using job_at_wf [OF assms] by (simp add: sql_set_running_def abs_jobs_update phase_of_def)

lemma sql_next_job_ready:
  assumes "fst (sql_next_job l i E now t) = Inr j" and "pg_ok E"
  obtains k where "k \<in> set (jobs t)" and "ready l i k" and "j_id j = j_id k"
    and "\<And>k'. k' \<in> set (jobs t) \<Longrightarrow> ready l i k' \<Longrightarrow> j_created_at k \<le> j_created_at k'"
    and "j = k\<lparr>j_provider_id := [], j_status := [], j_created_at := zero_time\<rparr>"
proof -
  from assms(1) have "sql_next_job l i E now t = (Inr j, snd (sql_next_job l i E now t))"
    by (metis prod.collapse)
  from sql_next_job_Inr [OF this assms(2)] show ?thesis
    by (metis that job.select_convs(1) job.simps(12,19) job.surjective job.update_convs(2,9,10))
qed



section \<open>Every call refines the specification\<close>

lemma exec_refines:
  assumes "abs_jobs (snd (st (pg_env p) (clock p) (tabs p))) = abs_jobs (tabs p) \<or>
    lifecycle (abs_jobs (tabs p)) a (abs_jobs (snd (st (pg_env p) (clock p) (tabs p))))"
  shows "abs_jobs (tabs (snd (exec st p))) = abs_jobs (tabs p) \<or>
    lifecycle (abs_jobs (tabs p)) a (abs_jobs (tabs (snd (exec st p))))"
  using assms exec_tabs [of st p] by auto

lemma NextPendingJob_refines:
  assumes "wf_tables (tabs p)" and "pg_ok (pg_env p)"
    and "NextPendingJob l i p = ((jo, eo), q)"
  shows "abs_jobs (tabs q) = abs_jobs (tabs p) \<and> (jo = None \<or> eo \<noteq> None) \<or>
    (\<exists>j. jo = Some j \<and> abs_jobs (tabs p) (j_id j) = Some (Scheduled, i) \<and> j_id j \<notin> l \<and>
       abs_jobs (tabs q) = (abs_jobs (tabs p))(j_id j \<mapsto> (Running, i)))"
  using assms(3)
proof (cases rule: NextPendingJob_cases)
  case same
  then show ?thesis by simp
next
  case (claimed j)
  from sql_next_job_ready [OF claimed(2) assms(2)] obtain k
    where k: "k \<in> set (jobs (tabs p))" "ready l i k" "j_id j = j_id k" by blast
  from k assms(1) have "abs_jobs (tabs p) (j_id j) = Some (Scheduled, i)"
    by (simp add: abs_jobs_def job_at_wf ready_def phase_of_def)
  moreover have "abs_jobs (tabs q) = (abs_jobs (tabs p))(j_id j \<mapsto> (Running, i))"
    using sql_set_running_abs [OF assms(1) k(1)] k claimed(3) by (simp add: ready_def)
  ultimately show ?thesis using claimed(1) k by (auto simp: ready_def)
qed

lemma no_job_change:
  "jobs (tabs (run_call c p)) = jobs (tabs p) \<Longrightarrow> action_of c p = None"
  by (simp add: action_of_def) (metis abs_jobs_cong)

lemmas quiet_calls = upsert_provider.exec_part update_heartbeat.exec_part mark_offline.exec_part
  upsert_vm.exec_part best_provider.exec_part get_provider.exec_part list_providers.exec_part

lemma run_call_refines:
  assumes "wf_tables (tabs p)" and "pg_ok (pg_env p)"
  shows "lifecycle (abs_jobs (tabs p)) (action_of c p) (abs_jobs (tabs (run_call c p)))"
proof (cases "abs_jobs (tabs (run_call c p)) = abs_jobs (tabs p)")
  case True
  then show ?thesis by (simp add: action_of_def lifecycle.stutter)
next
  case False
  have quiet: "jobs (tabs (run_call c p)) \<noteq> jobs (tabs p)"
    using False abs_jobs_cong by blast
  show ?thesis
  proof (cases c)
    case (CallInsertJob j)
    with False show ?thesis
      using exec_refines [where st = "sql_insert_job j" and a = "Some (Create (j_id j))", of p,
          OF sql_insert_job_refines]
      by (simp add: action_of_def op_defs)
  next
    case (CallAssignJob i pid)
    with False show ?thesis
      using exec_refines [where st = "sql_assign_job i pid" and a = "Some (Assign i pid)", of p,
          OF sql_assign_job_refines]
      by (simp add: action_of_def op_defs)
  next
    case (CallNextPendingJob l i)
    obtain jo eo q where n: "NextPendingJob l i p = ((jo, eo), q)" by (metis prod.exhaust)
    with NextPendingJob_refines [OF assms n] False CallNextPendingJob obtain j
      where "jo = Some j" and "abs_jobs (tabs p) (j_id j) = Some (Scheduled, i)"
        and "abs_jobs (tabs q) = (abs_jobs (tabs p))(j_id j \<mapsto> (Running, i))"
      by auto
    with False CallNextPendingJob n show ?thesis
      by (simp add: action_of_def lifecycle_claim)
  qed (use quiet quiet_calls in \<open>simp_all add: op_defs\<close>)
qed

lemma run_call_frame [simp]: "pg_env (run_call c p) = pg_env p"
  by (cases c) (simp_all add: op_defs)



section \<open>Deliveries\<close>

text \<open>A job that runs stays as it is for as long as it is not assigned again.\<close>

lemma run_call_phase:
  assumes "wf_tables (tabs p)" and "pg_ok (pg_env p)"
    and "abs_jobs (tabs p) i = Some (ph, pid)" and "\<And>pid'. c \<noteq> CallAssignJob i pid'"
  shows "\<exists>ph'. abs_jobs (tabs (run_call c p)) i = Some (ph', pid) \<and> ph \<le> ph'"
proof -
  have "action_of c p \<noteq> Some (Assign i pid')" for pid'
    using assms(4) by (cases c) (auto simp: action_of_def)
  with lifecycle_phase [OF run_call_refines [OF assms(1,2)] assms(3)] show ?thesis by blast
qed

lemma run_calls_phase:
  assumes "wf_tables (tabs p)" and "pg_ok (pg_env p)"
    and "abs_jobs (tabs p) i = Some (ph, pid)" and "\<And>pid'. CallAssignJob i pid' \<notin> set cs"
  shows "\<exists>ph'. abs_jobs (tabs (run_calls cs p)) i = Some (ph', pid) \<and> ph \<le> ph'"
  using assms
proof (induction cs arbitrary: p ph)
  case Nil
  then show ?case by (simp add: run_calls_def)
next
  case (Cons c cs)
  from Cons.prems have "\<And>pid'. c \<noteq> CallAssignJob i pid'" by auto
  from run_call_phase [OF Cons.prems(1-3) this] obtain ph1
    where p1: "abs_jobs (tabs (run_call c p)) i = Some (ph1, pid)" "ph \<le> ph1" by blast
  from Cons.IH [OF run_call_wf [OF Cons.prems(1)] _ p1(1)] Cons.prems p1(2) show ?case
    by (force simp: run_calls_def intro: order_trans)
qed

lemma delivery_claims:
  assumes "wf_tables (tabs p)" and "pg_ok (pg_env p)"
    and "fst (NextPendingJob l i p) = (Some j, None)"
  shows "abs_jobs (tabs p) (j_id j) = Some (Scheduled, i)"
    and "abs_jobs (tabs (run_call (CallNextPendingJob l i) p)) (j_id j) = Some (Running, i)"
proof -
  have n: "NextPendingJob l i p = ((Some j, None), snd (NextPendingJob l i p))"
    using assms(3) by (metis prod.collapse)
  from NextPendingJob_refines [OF assms(1,2) n]
  show "abs_jobs (tabs p) (j_id j) = Some (Scheduled, i)"
    and "abs_jobs (tabs (run_call (CallNextPendingJob l i) p)) (j_id j) = Some (Running, i)"
    by auto
qed

lemma deliveries_running:
  assumes "wf_tables (tabs p)" and "pg_ok (pg_env p)"
    and "abs_jobs (tabs p) i = Some (Running, pid)" and "\<And>pid'. CallAssignJob i pid' \<notin> set cs"
  shows "i \<notin> set (deliveries cs p)"
  using assms
proof (induction cs arbitrary: p)
  case (Cons c cs)
  have not: "\<And>pid'. c \<noteq> CallAssignJob i pid'" using Cons.prems(4) by auto
  have "abs_jobs (tabs (run_call c p)) i = Some (Running, pid)"
    using run_call_phase [OF Cons.prems(1-3) not] by (auto simp: Running_only)
  from Cons.IH [OF run_call_wf [OF Cons.prems(1)] _ this] Cons.prems
  have "i \<notin> set (deliveries cs (run_call c p))" by auto
  moreover have "fst (NextPendingJob l pr p) \<noteq> (Some j, None)" if "j_id j = i" for l pr j
    using delivery_claims(1) [OF Cons.prems(1,2), of l pr j] Cons.prems(3) that by auto
  ultimately show ?case
    by (auto split: pg_call.splits prod.splits option.splits) (metis surj_pair)+
qed simp

lemma deliveries_count:
  assumes "wf_tables (tabs p)" and "pg_ok (pg_env p)" and "\<And>pid'. CallAssignJob i pid' \<notin> set cs"
  shows "count_list (deliveries cs p) i \<le> 1"
  using assms
proof (induction cs arbitrary: p)
  case (Cons c cs)
  note wf' = run_call_wf [OF Cons.prems(1), of c]
  have IH: "count_list (deliveries cs (run_call c p)) i \<le> 1"
    using Cons.IH [OF wf'] Cons.prems by auto
  show ?case
  proof (cases "\<exists>l pr j. c = CallNextPendingJob l pr \<and> fst (NextPendingJob l pr p) = (Some j, None)
      \<and> j_id j = i")
    case True
    then obtain l pr j where c: "c = CallNextPendingJob l pr"
      and n: "fst (NextPendingJob l pr p) = (Some j, None)" "j_id j = i" by blast
    from delivery_claims(2) [OF Cons.prems(1,2) n(1)] n c
    have "abs_jobs (tabs (run_call c p)) i = Some (Running, pr)" by simp
    from deliveries_running [OF wf' _ this] Cons.prems
    have "i \<notin> set (deliveries cs (run_call c p))" by auto
    with c n show ?thesis by (simp add: count_list_0_iff)
  next
    case False
    with IH show ?thesis
      by (auto split: pg_call.splits prod.splits option.splits)
  qed
qed simp


lemma NextPendingJob_Some:
  assumes "wf_tables (tabs p)" and "pg_ok (pg_env p)"
    and "NextPendingJob locked i p = ((Some j, None), q)"
  shows "\<exists>k \<in> set (jobs (tabs p)). j_provider_id k = i \<and> j_status k = ''scheduled'' \<and>
      j_id k \<notin> locked \<and> j = k\<lparr>j_provider_id := [], j_status := [], j_created_at := zero_time\<rparr> \<and>
      (\<forall>k' \<in> set (jobs (tabs p)). ready locked i k' \<longrightarrow> j_created_at k \<le> j_created_at k') \<and>
      tabs q = (tabs p)\<lparr>jobs := map (\<lambda>x. if x = k then k\<lparr>j_status := ''running''\<rparr> else x)
                         (jobs (tabs p))\<rparr>"
  using assms(3)
proof (cases rule: NextPendingJob_cases)
  case (claimed j')
  then have "fst (sql_next_job locked i (pg_env p) (clock p) (tabs p)) = Inr j" by simp
  from sql_next_job_ready [OF this assms(2)] obtain k where k: "k \<in> set (jobs (tabs p))"
    "ready locked i k" "j_id j = j_id k"
    "\<And>k'. k' \<in> set (jobs (tabs p)) \<Longrightarrow> ready locked i k' \<Longrightarrow> j_created_at k \<le> j_created_at k'"
    "j = k\<lparr>j_provider_id := [], j_status := [], j_created_at := zero_time\<rparr>" by blast
  have "x = k" if "x \<in> set (jobs (tabs p))" "j_id x = j_id k" for x
    using key_unique [of j_id "jobs (tabs p)"] assms(1) that k(1) by (simp add: wf_tables_def)
  then have "update_where (\<lambda>x. j_id x = j_id k) (\<lambda>x. x\<lparr>j_status := ''running''\<rparr>) (jobs (tabs p)) =
      map (\<lambda>x. if x = k then k\<lparr>j_status := ''running''\<rparr> else x) (jobs (tabs p))"
    by (auto simp: update_where_def)
  with claimed k show ?thesis
    by (intro bexI [of _ k]) (auto simp: sql_set_running_def ready_def)
qed simp


section \<open>Properties\<close>

text \<open>
  C5 (job life cycle). Every operation of the store, whatever its outcome on the wire, moves
  the jobs by one action of the abstract life cycle or leaves them alone; a creation comes
  from \<open>InsertJob\<close>, an assignment from \<open>AssignJob\<close>, a claim from \<open>NextPendingJob\<close> of the
  provider the job is scheduled for.
\<close>

theorem store_refines_lifecycle:
  assumes "wf_tables (tabs p)" and "pg_ok (pg_env p)"
  shows "\<exists>a. lifecycle (abs_jobs (tabs p)) a (abs_jobs (tabs (run_call c p))) \<and>
    (case a of None \<Rightarrow> True
     | Some (Create i) \<Rightarrow> \<exists>j. c = CallInsertJob j \<and> j_id j = i
     | Some (Assign i pid) \<Rightarrow> c = CallAssignJob i pid
     | Some (Claim i pid) \<Rightarrow> \<exists>l. c = CallNextPendingJob l pid)"
  using run_call_refines [OF assms, of c]
  by (intro exI [of _ "action_of c p"])
    (auto simp: action_of_def split: option.splits job_action.splits pg_call.splits)

theorem store_refines_lifecycle_witness:
  "\<exists>a. lifecycle (abs_jobs (tabs sample_pg)) a
     (abs_jobs (tabs (run_call (CallNextPendingJob {} ''b'') sample_pg)))"
  using store_refines_lifecycle [OF sample_pg_wf, of "CallNextPendingJob {} ''b''"]
  by (auto simp: sample_pg_def)

text \<open>
  Result (progress only). Over any history of store calls that does not assign the job again, a
  job keeps its provider and its phase never goes back: pending, scheduled, running.
\<close>

theorem job_phase_monotone:
  assumes "wf_tables (tabs p)" and "pg_ok (pg_env p)"
    and "job_at (tabs p) i = Some j" and "\<And>pid. CallAssignJob i pid \<notin> set cs"
  shows "\<exists>j'. job_at (tabs (run_calls cs p)) i = Some j' \<and> j_provider_id j' = j_provider_id j \<and>
    phase_of (j_status j) \<le> phase_of (j_status j')"
  using run_calls_phase [OF assms(1,2) _ assms(4), of "phase_of (j_status j)" "j_provider_id j"]
    assms(3)
  by (auto simp: abs_jobs_def)

theorem job_phase_monotone_witness:
  "\<exists>j'. job_at (tabs (run_calls [CallNextPendingJob {} ''b'', CallMarkOffline 90] sample_pg)) ''j1''
     = Some j' \<and> Scheduled \<le> phase_of (j_status j')"
proof -
  have j: "job_at (tabs sample_pg) ''j1'' = Some (sample_job ''j1'' ''b'' ''scheduled'')"
    by (simp add: sample_pg_def job_at_def sample_job_def)
  have "pg_ok (pg_env sample_pg)" by (simp add: sample_pg_def)
  from job_phase_monotone [OF sample_pg_wf this j, of "[CallNextPendingJob {} ''b'', CallMarkOffline 90]"]
  show ?thesis by (auto simp: sample_job_def phase_of_def)
qed

text \<open>
  C13 (claim). When \<open>NextPendingJob\<close> returns a job without an error, that job was scheduled
  for this provider, not locked by another transaction, and no such job has an earlier
  \<open>created_at\<close>; the returned fields are the row's, exactly that row becomes running, and
  providers and VMs are untouched.
\<close>

theorem NextPendingJob_claims:
  assumes "wf_tables (tabs p)" and "pg_ok (pg_env p)"
    and "NextPendingJob locked i p = ((Some j, None), q)"
  shows "\<exists>k \<in> set (jobs (tabs p)). j_provider_id k = i \<and> j_status k = ''scheduled'' \<and>
      j_id k \<notin> locked \<and> j = k\<lparr>j_provider_id := [], j_status := [], j_created_at := zero_time\<rparr> \<and>
      (\<forall>k' \<in> set (jobs (tabs p)). ready locked i k' \<longrightarrow> j_created_at k \<le> j_created_at k') \<and>
      tabs q = (tabs p)\<lparr>jobs := map (\<lambda>x. if x = k then k\<lparr>j_status := ''running''\<rparr> else x)
                         (jobs (tabs p))\<rparr>"
  by (rule NextPendingJob_Some [OF assms])

theorem NextPendingJob_claims_witness:
  "\<exists>q. NextPendingJob {} ''b'' sample_pg = ((Some (sample_job ''j1'' [] []), None), q) \<and>
     map j_status (jobs (tabs q)) = [''running'', ''running'']"
proof -
  have "fst (NextPendingJob {} ''b'' sample_pg) = (Some (sample_job ''j1'' [] []), None)"
    by code_simp
  then obtain q where q: "NextPendingJob {} ''b'' sample_pg = ((Some (sample_job ''j1'' [] []), None), q)"
    by (metis prod.collapse)
  have "pg_ok (pg_env sample_pg)" by (simp add: sample_pg_def)
  from NextPendingJob_claims [OF sample_pg_wf this q] q show ?thesis
    by (auto simp: sample_pg_def sample_job_def)
qed

text \<open>
  Result (delivery). Over any history of store calls by any pollers and with any losses on the
  wire, a job that is not assigned again is handed out at most once.
\<close>

theorem delivered_at_most_once:
  assumes "wf_tables (tabs p)" and "pg_ok (pg_env p)" and "\<And>pid. CallAssignJob i pid \<notin> set cs"
  shows "count_list (deliveries cs p) i \<le> 1"
  by (rule deliveries_count [OF assms])

theorem delivered_at_most_once_witness:
  "deliveries [CallNextPendingJob {} ''b'', CallNextPendingJob {} ''b''] sample_pg = [''j1''] \<and>
   count_list (deliveries [CallNextPendingJob {} ''b'', CallNextPendingJob {} ''b''] sample_pg) ''j1'' \<le> 1"
proof -
  have d: "deliveries [CallNextPendingJob {} ''b'', CallNextPendingJob {} ''b''] sample_pg = [''j1'']"
    by code_simp
  have "pg_ok (pg_env sample_pg)" by (simp add: sample_pg_def)
  from delivered_at_most_once [OF sample_pg_wf this,
      of "''j1''" "[CallNextPendingJob {} ''b'', CallNextPendingJob {} ''b'']"] d
  show ?thesis by simp
qed

text \<open>
  Result (lost job). When the answer to the commit is lost, the caller gets an error, yet the
  job is running, and no later history without a new assignment ever hands it out: delivery
  is at most once, not exactly once.
\<close>

theorem unacked_commit_loses_job:
  assumes "wf_tables (tabs p)" and "pg_ok (pg_env p)"
    and "outcomes p = [Served, Served, Served, Unacked m]"
    and "fst (sql_next_job locked i (pg_env p) (clock p) (tabs p)) = Inr j"
    and "\<And>pid. CallAssignJob (j_id j) pid \<notin> set cs"
  shows "fst (NextPendingJob locked i p) = (Some j, Some (NetErr m)) \<and>
    abs_jobs (tabs (snd (NextPendingJob locked i p))) (j_id j) = Some (Running, i) \<and>
    j_id j \<notin> set (deliveries cs (snd (NextPendingJob locked i p)))"
proof -
  let ?q = "snd (NextPendingJob locked i p)"
  have n: "fst (NextPendingJob locked i p) = (Some j, Some (NetErr m)) \<and>
      tabs ?q = snd (sql_set_running (j_id j) (pg_env p) (clock p) (tabs p))"
    using assms(3,4) next_job.frame [of locked i "pg_env p" "clock p" "tabs p"]
    by (auto simp: NextPendingJob_def exec_def next_outcome_def sql_set_running_def
        split: prod.splits)
  from sql_next_job_ready [OF assms(4,2)] obtain k
    where k: "k \<in> set (jobs (tabs p))" "ready locked i k" "j_id j = j_id k" by blast
  have run: "abs_jobs (tabs ?q) (j_id j) = Some (Running, i)"
    using n sql_set_running_abs [OF assms(1) k(1)] k by (simp add: ready_def)
  moreover have "j_id j \<notin> set (deliveries cs ?q)"
    using deliveries_running [OF NextPendingJob_wf [OF assms(1)] _ run assms(5)] assms(2) by simp
  ultimately show ?thesis using n by simp
qed

definition lossy_pg :: pg where
  "lossy_pg = sample_pg\<lparr>outcomes := [Served, Served, Served, Unacked ''EOF'']\<rparr>"

theorem unacked_commit_loses_job_witness:
  "fst (NextPendingJob {} ''b'' lossy_pg) = (Some (sample_job ''j1'' [] []), Some (NetErr ''EOF'')) \<and>
   ''j1'' \<notin> set (deliveries [CallNextPendingJob {} ''b''] (snd (NextPendingJob {} ''b'' lossy_pg)))"
proof -
  have h: "wf_tables (tabs lossy_pg)" "pg_ok (pg_env lossy_pg)"
      "outcomes lossy_pg = [Served, Served, Served, Unacked ''EOF'']"
    using sample_pg_wf by (simp_all add: lossy_pg_def sample_pg_def)
  have j: "fst (sql_next_job {} ''b'' (pg_env lossy_pg) (clock lossy_pg) (tabs lossy_pg)) =
      Inr (sample_job ''j1'' [] [])"
    by code_simp
  from unacked_commit_loses_job [OF h j, of "[CallNextPendingJob {} ''b'']"] show ?thesis
    by (simp add: sample_job_def)
qed

end
