(* ===== verification/Redis_Store.thy ===== *)
theory Redis_Store
  imports Go_Prelude "HOL-Library.Sublist"
begin

text \<open>
  The Redis store of the control plane (\<open>pkg/store/redis.go\<close>): the job queue of each
  provider, the counters ports and WireGuard addresses are taken from, and the set of
  registration tokens. The Redis server and its client are not part of the repository: they
  are the record \<open>redis_client\<close> of commands over an unknown state, with the documented
  behaviour of the commands stated as \<open>redis_ok\<close>. Three interfaces are stated as locales and
  interpreted by the operations of the store: a queue, an allocator and a token store.
\<close>


section \<open>The client\<close>

text \<open>What can be observed of the server: the value of each key, by the type it is used at.\<close>

record redis_keys =
  counters :: "string \<Rightarrow> int"
  lists :: "string \<Rightarrow> string list"
  sets :: "string \<Rightarrow> string set"

record 'r redis_client =
  Incr :: "string \<Rightarrow> 'r \<Rightarrow> int result \<times> 'r"
  LPush :: "string \<Rightarrow> string \<Rightarrow> 'r \<Rightarrow> int result \<times> 'r"
  BRPop :: "int \<Rightarrow> string \<Rightarrow> 'r \<Rightarrow> string list result \<times> 'r"
  SAdd :: "string \<Rightarrow> string \<Rightarrow> 'r \<Rightarrow> int result \<times> 'r"
  SRem :: "string \<Rightarrow> string \<Rightarrow> 'r \<Rightarrow> int result \<times> 'r"
  SIsMember :: "string \<Rightarrow> string \<Rightarrow> 'r \<Rightarrow> bool result \<times> 'r"
  keyspace :: "'r \<Rightarrow> redis_keys"

text \<open>
  A command that answers has taken effect once; a command that returns an error has taken
  effect once or not at all (the answer can be lost). This is a client that does not send a command
  again by itself: a repeat after a lost answer, which go-redis makes unless it is told not to, is not
  covered. \<open>Redis_Nil\<close> is the time-out of \<open>BRPOP\<close> on an empty list.
\<close>

definition effect :: "redis_keys \<Rightarrow> redis_keys \<Rightarrow> 'a result \<Rightarrow> redis_keys \<Rightarrow> bool" where
  "effect ks ks1 r ks' \<longleftrightarrow> (if isl r then ks' \<in> {ks, ks1} else ks' = ks1)"

definition incr_ok :: "'r redis_client \<Rightarrow> bool" where
  "incr_ok C \<longleftrightarrow> (\<forall>k s r s'. Incr C k s = (r, s') \<longrightarrow>
     (let ks = keyspace C s; n = counters ks k + 1 in
      effect ks (ks\<lparr>counters := (counters ks)(k := n)\<rparr>) r (keyspace C s') \<and>
      (\<forall>m. r = Inr m \<longrightarrow> m = n \<and> m < 2 ^ 63)))"

definition lpush_ok :: "'r redis_client \<Rightarrow> bool" where
  "lpush_ok C \<longleftrightarrow> (\<forall>k v s r s'. LPush C k v s = (r, s') \<longrightarrow>
     (let ks = keyspace C s in
      effect ks (ks\<lparr>lists := (lists ks)(k := v # lists ks k)\<rparr>) r (keyspace C s')))"

definition brpop_ok :: "'r redis_client \<Rightarrow> bool" where
  "brpop_ok C \<longleftrightarrow> (\<forall>w k s r s'. BRPop C w k s = (r, s') \<longrightarrow>
     (let ks = keyspace C s in
      (\<forall>res. r = Inr res \<longrightarrow> lists ks k \<noteq> [] \<and> res = [k, last (lists ks k)]) \<and>
      (r = Inl Redis_Nil \<longrightarrow> lists ks k = []) \<and>
      effect ks (ks\<lparr>lists := (lists ks)(k := butlast (lists ks k))\<rparr>) r (keyspace C s')))"

definition sadd_ok :: "'r redis_client \<Rightarrow> bool" where
  "sadd_ok C \<longleftrightarrow> (\<forall>k v s r s'. SAdd C k v s = (r, s') \<longrightarrow>
     (let ks = keyspace C s in
      effect ks (ks\<lparr>sets := (sets ks)(k := insert v (sets ks k))\<rparr>) r (keyspace C s')))"

definition srem_ok :: "'r redis_client \<Rightarrow> bool" where
  "srem_ok C \<longleftrightarrow> (\<forall>k v s r s'. SRem C k v s = (r, s') \<longrightarrow>
     (let ks = keyspace C s in
      effect ks (ks\<lparr>sets := (sets ks)(k := sets ks k - {v})\<rparr>) r (keyspace C s')))"

definition sismember_ok :: "'r redis_client \<Rightarrow> bool" where
  "sismember_ok C \<longleftrightarrow> (\<forall>k v s r s'. SIsMember C k v s = (r, s') \<longrightarrow>
     keyspace C s' = keyspace C s \<and> (\<forall>b. r = Inr b \<longrightarrow> (b \<longleftrightarrow> v \<in> sets (keyspace C s) k)))"

definition redis_ok :: "'r redis_client \<Rightarrow> bool" where
  "redis_ok C \<longleftrightarrow> incr_ok C \<and> lpush_ok C \<and> brpop_ok C \<and> sadd_ok C \<and> srem_ok C \<and> sismember_ok C"


section \<open>The store\<close>

record 'r redis =
  client :: "'r redis_client"
  server :: 'r

definition command :: "('r \<Rightarrow> 'a result \<times> 'r) \<Rightarrow> 'r redis \<Rightarrow> 'a result \<times> 'r redis" where
  "command f R = (let (r, s) = f (server R) in (r, R\<lparr>server := s\<rparr>))"

definition jobQueueKey :: "string \<Rightarrow> string" where
  "jobQueueKey providerID = ''dcp:jobs:'' @ providerID"

definition tokenSetKey :: string where
  "tokenSetKey = ''dcp:reg_tokens''"

definition PushJob :: "string \<Rightarrow> string \<Rightarrow> 'r redis \<Rightarrow> unit result \<times> 'r redis" where
  "PushJob providerID jobID R =
     (case command (LPush (client R) (jobQueueKey providerID) jobID) R of
        (Inl e, R') \<Rightarrow> (Inl e, R') | (Inr _, R') \<Rightarrow> (Inr (), R'))"

text \<open>\<open>res[1]\<close> panics on a slice that is too short.\<close>

definition PopJob :: "string \<Rightarrow> int \<Rightarrow> 'r redis \<Rightarrow> string result \<times> 'r redis" where
  "PopJob providerID waitSec R =
     (case command (BRPop (client R) (wrap64 (waitSec * 1000000000)) (jobQueueKey providerID)) R of
        (Inl e, R') \<Rightarrow> if e = Redis_Nil then (Inr '''', R') else (Inl e, R')
      | (Inr res, R') \<Rightarrow>
          (case res of _ # v # _ \<Rightarrow> (Inr v, R')
           | _ \<Rightarrow> (Inl (Panic ''index out of range [1]''), R')))"

definition port_of :: "int \<Rightarrow> int" where
  "port_of n = n smod 10000 + 40000"

definition AllocPort :: "'r redis \<Rightarrow> int result \<times> 'r redis" where
  "AllocPort R =
     (case command (Incr (client R) ''dcp:port_counter'') R of
        (Inl e, R') \<Rightarrow> (Inl e, R') | (Inr n, R') \<Rightarrow> (Inr (port_of n), R'))"

definition wg_ip_of :: "int \<Rightarrow> string" where
  "wg_ip_of n =
     (let n2 = wrap64 (n - 1) sdiv 254; n3 = wrap64 (n - 1) smod 254 + 1
      in ''10.99.'' @ show_int (n2 + 1) @ ''.'' @ show_int n3)"

definition AllocWGIP :: "'r redis \<Rightarrow> string result \<times> 'r redis" where
  "AllocWGIP R =
     (case command (Incr (client R) ''dcp:wg_ip_counter'') R of
        (Inl e, R') \<Rightarrow> (Inl e, R') | (Inr n, R') \<Rightarrow> (Inr (wg_ip_of n), R'))"

definition AddToken :: "string \<Rightarrow> 'r redis \<Rightarrow> unit result \<times> 'r redis" where
  "AddToken token R =
     (case command (SAdd (client R) tokenSetKey token) R of
        (Inl e, R') \<Rightarrow> (Inl e, R') | (Inr _, R') \<Rightarrow> (Inr (), R'))"

definition TokenValid :: "string \<Rightarrow> 'r redis \<Rightarrow> bool result \<times> 'r redis" where
  "TokenValid token R =
     (if token = '''' then (Inr False, R)
      else command (SIsMember (client R) tokenSetKey token) R)"

definition RevokeToken :: "string \<Rightarrow> 'r redis \<Rightarrow> unit result \<times> 'r redis" where
  "RevokeToken token R =
     (case command (SRem (client R) tokenSetKey token) R of
        (Inl e, R') \<Rightarrow> (Inl e, R') | (Inr _, R') \<Rightarrow> (Inr (), R'))"

lemmas redis_ops [op_defs] = PushJob_def PopJob_def AllocPort_def AllocWGIP_def AddToken_def
  TokenValid_def RevokeToken_def


section \<open>What the operations are about\<close>

definition ready_redis :: "'r redis \<Rightarrow> bool" where
  "ready_redis R \<longleftrightarrow> redis_ok (client R)"

definition keys_of :: "'r redis \<Rightarrow> redis_keys" where
  "keys_of R = keyspace (client R) (server R)"

text \<open>The queue of a provider, oldest job first, the tokens, and the two counters.\<close>

definition queue_of :: "'r redis \<Rightarrow> string \<Rightarrow> string list" where
  "queue_of R p = rev (lists (keys_of R) (jobQueueKey p))"

definition tokens_of :: "'r redis \<Rightarrow> string set" where
  "tokens_of R = sets (keys_of R) tokenSetKey"

definition ports_used :: "'r redis \<Rightarrow> int" where
  "ports_used R = counters (keys_of R) ''dcp:port_counter''"

definition ips_used :: "'r redis \<Rightarrow> int" where
  "ips_used R = counters (keys_of R) ''dcp:wg_ip_counter''"


section \<open>A server in memory\<close>

text \<open>A concrete server for closed examples: the keys themselves, every command answered.\<close>

definition memory_client :: "redis_keys redis_client" where
  "memory_client =
     \<lparr>Incr = (\<lambda>k ks. if counters ks k + 1 < 2 ^ 63
        then (Inr (counters ks k + 1), ks\<lparr>counters := (counters ks)(k := counters ks k + 1)\<rparr>)
        else (Inl (Plain ''ERR increment or decrement would overflow''), ks)),
      LPush = (\<lambda>k v ks. (Inr (int (length (lists ks k)) + 1),
        ks\<lparr>lists := (lists ks)(k := v # lists ks k)\<rparr>)),
      BRPop = (\<lambda>w k ks. if lists ks k = [] then (Inl Redis_Nil, ks)
        else (Inr [k, last (lists ks k)], ks\<lparr>lists := (lists ks)(k := butlast (lists ks k))\<rparr>)),
      SAdd = (\<lambda>k v ks. (Inr (if v \<in> sets ks k then 0 else 1),
        ks\<lparr>sets := (sets ks)(k := insert v (sets ks k))\<rparr>)),
      SRem = (\<lambda>k v ks. (Inr (if v \<in> sets ks k then 1 else 0),
        ks\<lparr>sets := (sets ks)(k := sets ks k - {v})\<rparr>)),
      SIsMember = (\<lambda>k v ks. (Inr (v \<in> sets ks k), ks)),
      keyspace = (\<lambda>ks. ks)\<rparr>"

definition sample_redis :: "redis_keys redis" where
  "sample_redis = \<lparr>client = memory_client, server =
     \<lparr>counters = (\<lambda>k. 0), lists = (\<lambda>k. []), sets = (\<lambda>k. {})\<rparr>\<rparr>"

lemma memory_client_ok: "redis_ok memory_client"
  by (simp add: redis_ok_def incr_ok_def lpush_ok_def brpop_ok_def sadd_ok_def srem_ok_def
      sismember_ok_def memory_client_def effect_def)

lemma sample_redis_ready: "ready_redis sample_redis"
  by (simp add: ready_redis_def sample_redis_def memory_client_ok)


section \<open>Laws of the operations\<close>

lemma client_frame [simp]:
  "client (snd (PushJob p j R)) = client R" "client (snd (PopJob p w R)) = client R"
  "client (snd (AllocPort R)) = client R" "client (snd (AllocWGIP R)) = client R"
  "client (snd (AddToken t R)) = client R" "client (snd (RevokeToken t R)) = client R"
  "client (snd (TokenValid t R)) = client R"
  by (auto simp: op_defs command_def split: prod.splits sum.splits list.splits)

lemma ready_frame [simp]:
  "ready_redis (snd (PushJob p j R)) = ready_redis R" "ready_redis (snd (PopJob p w R)) = ready_redis R"
  "ready_redis (snd (AllocPort R)) = ready_redis R" "ready_redis (snd (AllocWGIP R)) = ready_redis R"
  "ready_redis (snd (AddToken t R)) = ready_redis R" "ready_redis (snd (RevokeToken t R)) = ready_redis R"
  "ready_redis (snd (TokenValid t R)) = ready_redis R"
  by (simp_all add: ready_redis_def)

lemma jobQueueKey_inject [simp]: "jobQueueKey p = jobQueueKey q \<longleftrightarrow> p = q"
  by (simp add: jobQueueKey_def)

text \<open>What each operation does to the keys, whether it answers or fails.\<close>

lemma PushJob_effect:
  assumes "ready_redis R" and "PushJob p j R = (r, R')"
  shows "effect (keys_of R) ((keys_of R)\<lparr>lists := (lists (keys_of R))(jobQueueKey p :=
    j # lists (keys_of R) (jobQueueKey p))\<rparr>) r (keys_of R')"
proof -
  obtain r0 s where c: "LPush (client R) (jobQueueKey p) j (server R) = (r0, s)" by fastforce
  from assms(1) c have "effect (keys_of R) ((keys_of R)\<lparr>lists := (lists (keys_of R))(jobQueueKey p :=
    j # lists (keys_of R) (jobQueueKey p))\<rparr>) r0 (keyspace (client R) s)"
    by (auto simp: ready_redis_def redis_ok_def lpush_ok_def keys_of_def Let_def)
  with assms(2) c show ?thesis
    by (auto simp: PushJob_def command_def keys_of_def effect_def split: sum.splits)
qed

lemma PopJob_effect:
  fixes R :: "'r redis" and p :: string
  assumes "ready_redis R" and "PopJob p w R = (r, R')"
  defines "q \<equiv> lists (keys_of R) (jobQueueKey p)"
  defines "popped \<equiv> (keys_of R)\<lparr>lists := (lists (keys_of R))(jobQueueKey p := butlast q)\<rparr>"
  shows "case r of
      Inr j \<Rightarrow> if q = [] then j = [] \<and> keys_of R' \<in> {keys_of R, popped}
               else j = last q \<and> keys_of R' = popped
    | Inl e \<Rightarrow> keys_of R' \<in> {keys_of R, popped}"
proof -
  obtain r0 s where c: "BRPop (client R) (wrap64 (w * 1000000000)) (jobQueueKey p) (server R) = (r0, s)"
    by fastforce
  from assms(1) c have "effect (keys_of R) popped r0 (keyspace (client R) s)"
    and "r0 = Inl Redis_Nil \<Longrightarrow> q = []" and "\<And>res. r0 = Inr res \<Longrightarrow> q \<noteq> [] \<and> res = [jobQueueKey p, last q]"
    unfolding q_def popped_def
    by (auto simp: ready_redis_def redis_ok_def brpop_ok_def keys_of_def Let_def)
  with assms(2) c show ?thesis
    by (cases r0) (auto simp: PopJob_def command_def keys_of_def effect_def split: if_splits sum.splits)
qed

lemma AllocPort_effect:
  assumes "ready_redis R" and "AllocPort R = (r, R')"
  shows "effect (keys_of R) ((keys_of R)\<lparr>counters := (counters (keys_of R))(''dcp:port_counter'' :=
      ports_used R + 1)\<rparr>) r (keys_of R')" (is ?e)
    and "r = Inr a \<Longrightarrow> a = port_of (ports_used R + 1) \<and> ports_used R + 1 < 2 ^ 63"
proof -
  obtain r0 s where c: "Incr (client R) ''dcp:port_counter'' (server R) = (r0, s)" by fastforce
  from assms(1) c have "effect (keys_of R) ((keys_of R)\<lparr>counters := (counters (keys_of R))
      (''dcp:port_counter'' := ports_used R + 1)\<rparr>) r0 (keyspace (client R) s)"
    and "\<And>n. r0 = Inr n \<Longrightarrow> n = ports_used R + 1 \<and> n < 2 ^ 63"
    by (auto simp: ready_redis_def redis_ok_def incr_ok_def keys_of_def ports_used_def Let_def)
  with assms(2) c show ?e
    and "r = Inr a \<Longrightarrow> a = port_of (ports_used R + 1) \<and> ports_used R + 1 < 2 ^ 63"
    by (auto simp: AllocPort_def command_def keys_of_def effect_def split: sum.splits)
qed

lemma AllocWGIP_effect:
  assumes "ready_redis R" and "AllocWGIP R = (r, R')"
  shows "effect (keys_of R) ((keys_of R)\<lparr>counters := (counters (keys_of R))(''dcp:wg_ip_counter'' :=
      ips_used R + 1)\<rparr>) r (keys_of R')" (is ?e)
    and "r = Inr a \<Longrightarrow> a = wg_ip_of (ips_used R + 1) \<and> ips_used R + 1 < 2 ^ 63"
proof -
  obtain r0 s where c: "Incr (client R) ''dcp:wg_ip_counter'' (server R) = (r0, s)" by fastforce
  from assms(1) c have "effect (keys_of R) ((keys_of R)\<lparr>counters := (counters (keys_of R))
      (''dcp:wg_ip_counter'' := ips_used R + 1)\<rparr>) r0 (keyspace (client R) s)"
    and "\<And>n. r0 = Inr n \<Longrightarrow> n = ips_used R + 1 \<and> n < 2 ^ 63"
    by (auto simp: ready_redis_def redis_ok_def incr_ok_def keys_of_def ips_used_def Let_def)
  with assms(2) c show ?e
    and "r = Inr a \<Longrightarrow> a = wg_ip_of (ips_used R + 1) \<and> ips_used R + 1 < 2 ^ 63"
    by (auto simp: AllocWGIP_def command_def keys_of_def effect_def split: sum.splits)
qed

lemma AddToken_effect:
  assumes "ready_redis R" and "AddToken t R = (r, R')"
  shows "effect (keys_of R) ((keys_of R)\<lparr>sets := (sets (keys_of R))(tokenSetKey :=
    insert t (tokens_of R))\<rparr>) r (keys_of R')"
proof -
  obtain r0 s where c: "SAdd (client R) tokenSetKey t (server R) = (r0, s)" by fastforce
  from assms(1) c have "effect (keys_of R) ((keys_of R)\<lparr>sets := (sets (keys_of R))(tokenSetKey :=
      insert t (tokens_of R))\<rparr>) r0 (keyspace (client R) s)"
    by (auto simp: ready_redis_def redis_ok_def sadd_ok_def keys_of_def tokens_of_def Let_def)
  with assms(2) c show ?thesis
    by (auto simp: AddToken_def command_def keys_of_def effect_def split: sum.splits)
qed

lemma RevokeToken_effect:
  assumes "ready_redis R" and "RevokeToken t R = (r, R')"
  shows "effect (keys_of R) ((keys_of R)\<lparr>sets := (sets (keys_of R))(tokenSetKey :=
    tokens_of R - {t})\<rparr>) r (keys_of R')"
proof -
  obtain r0 s where c: "SRem (client R) tokenSetKey t (server R) = (r0, s)" by fastforce
  from assms(1) c have "effect (keys_of R) ((keys_of R)\<lparr>sets := (sets (keys_of R))(tokenSetKey :=
      tokens_of R - {t})\<rparr>) r0 (keyspace (client R) s)"
    by (auto simp: ready_redis_def redis_ok_def srem_ok_def keys_of_def tokens_of_def Let_def)
  with assms(2) c show ?thesis
    by (auto simp: RevokeToken_def command_def keys_of_def effect_def split: sum.splits)
qed

lemma TokenValid_effect:
  assumes "ready_redis R" and "TokenValid t R = (r, R')"
  shows "keys_of R' = keys_of R" and "r = Inr b \<Longrightarrow> b \<longleftrightarrow> t \<noteq> [] \<and> t \<in> tokens_of R"
proof -
  obtain r0 s where c: "SIsMember (client R) tokenSetKey t (server R) = (r0, s)" by fastforce
  from assms(1) c have "keyspace (client R) s = keys_of R"
    and "\<And>b. r0 = Inr b \<Longrightarrow> b \<longleftrightarrow> t \<in> tokens_of R"
    by (auto simp: ready_redis_def redis_ok_def sismember_ok_def keys_of_def tokens_of_def)
  with assms(2) c show "keys_of R' = keys_of R" and "r = Inr b \<Longrightarrow> b \<longleftrightarrow> t \<noteq> [] \<and> t \<in> tokens_of R"
    by (auto simp: TokenValid_def command_def keys_of_def split: if_splits)
qed


section \<open>Ports and addresses\<close>

lemma port_of_nonneg: "0 \<le> n \<Longrightarrow> port_of n = n mod 10000 + 40000"
  by (simp add: port_of_def smod_nonneg)

lemma wg_ip_of_pos:
  assumes "0 < n" and "n < 2 ^ 63"
  shows "wg_ip_of n = ''10.99.'' @ show_nat (nat ((n - 1) div 254) + 1) @ ''.'' @
    show_nat (nat ((n - 1) mod 254) + 1)"
proof -
  have "wrap64 (n - 1) = n - 1" using assms by simp
  moreover have "0 \<le> (n - 1) div 254" using assms by (simp add: pos_imp_zdiv_nonneg_iff)
  then obtain a where "(n - 1) div 254 = int a" by (rule nonneg_int_cases)
  moreover have "0 \<le> (n - 1) mod 254" by (rule pos_mod_sign) simp
  then obtain b where "(n - 1) mod 254 = int b" by (rule nonneg_int_cases)
  ultimately show ?thesis
    using assms by (simp add: wg_ip_of_def sdiv_nonneg smod_nonneg show_int_def nat_add_distrib Let_def)
qed

text \<open>The four fields of an address.\<close>

lemma wg_ip_fields:
  assumes "0 < n" and "n < 2 ^ 63"
  shows "split_on CHR ''.'' (wg_ip_of n) = [''10'', ''99'', show_nat (nat ((n - 1) div 254) + 1),
    show_nat (nat ((n - 1) mod 254) + 1)]"
proof -
  have "split_on CHR ''.'' (show_nat a @ ''.'' @ show_nat b) = [show_nat a, show_nat b]" for a b
    using split_on_append [OF no_dot_show_nat [of a], of "show_nat b"]
      split_on_free [OF no_dot_show_nat [of b]] by simp
  then show ?thesis using wg_ip_of_pos [OF assms] by simp
qed

lemma wg_ip_inj: "inj_on wg_ip_of {0<..<2 ^ 63}"
proof (rule inj_onI)
  fix m n :: int assume m: "m \<in> {0<..<2 ^ 63}" and n: "n \<in> {0<..<2 ^ 63}"
    and eq: "wg_ip_of m = wg_ip_of n"
  have fields: "[''10'', ''99'', show_nat (nat ((m - 1) div 254) + 1), show_nat (nat ((m - 1) mod 254) + 1)] =
      [''10'', ''99'', show_nat (nat ((n - 1) div 254) + 1), show_nat (nat ((n - 1) mod 254) + 1)]"
    using wg_ip_fields [of m] wg_ip_fields [of n] m n eq by (metis greaterThanLessThan_iff)
  have "0 \<le> (k - 1) div 254" and "0 \<le> (k - 1) mod 254" if "0 < k" for k :: int
    using that by (simp_all add: pos_imp_zdiv_nonneg_iff)
  then have "nat ((k - 1) div 254) = nat ((l - 1) div 254) \<Longrightarrow> (k - 1) div 254 = (l - 1) div 254"
    and "nat ((k - 1) mod 254) = nat ((l - 1) mod 254) \<Longrightarrow> (k - 1) mod 254 = (l - 1) mod 254"
    if "0 < k" "0 < l" for k l :: int
    using that by (metis eq_nat_nat_iff)+
  moreover have "0 < m" and "0 < n" using m n by simp_all
  moreover have "nat ((m - 1) div 254) = nat ((n - 1) div 254)"
    and "nat ((m - 1) mod 254) = nat ((n - 1) mod 254)"
    using fields by (simp_all only: list.inject show_nat_inject add_right_cancel)
  ultimately have "m - 1 = n - 1" by (intro div_mod_unique [of "m - 1" 254]) blast+
  then show "m = n" by simp
qed


section \<open>A queue per key\<close>

datatype queue_op = Push string string | Pop string
datatype queue_event = Pushed string string | Popped string string | Idle | Failed

text \<open>A history of pushes and pops, with what each of them answered.\<close>

fun queue_run :: "(string \<Rightarrow> string \<Rightarrow> 's \<Rightarrow> unit result \<times> 's) \<Rightarrow>
    (string \<Rightarrow> int \<Rightarrow> 's \<Rightarrow> string result \<times> 's) \<Rightarrow> queue_op list \<Rightarrow> 's \<Rightarrow> queue_event list \<times> 's"
where
  "queue_run push pop [] s = ([], s)"
| "queue_run push pop (Push p j # ops) s =
     (let (r, s1) = push p j s; (es, s2) = queue_run push pop ops s1
      in ((if isl r then Failed else Pushed p j) # es, s2))"
| "queue_run push pop (Pop p # ops) s =
     (let (r, s1) = pop p 25 s; (es, s2) = queue_run push pop ops s1
      in ((case r of Inl e \<Rightarrow> Failed | Inr j \<Rightarrow> if j = [] then Idle else Popped p j) # es, s2))"

fun popped :: "string \<Rightarrow> queue_event list \<Rightarrow> string list" where
  "popped p [] = []"
| "popped p (Popped q j # es) = (if q = p then j # popped p es else popped p es)"
| "popped p (e # es) = popped p es"

fun offered :: "string \<Rightarrow> queue_op list \<Rightarrow> string list" where
  "offered p [] = []"
| "offered p (Push q j # ops) = (if q = p then j # offered p ops else offered p ops)"
| "offered p (Pop q # ops) = offered p ops"

locale job_queue =
  fixes ok :: "'s \<Rightarrow> bool"
    and push :: "string \<Rightarrow> string \<Rightarrow> 's \<Rightarrow> unit result \<times> 's"
    and pop :: "string \<Rightarrow> int \<Rightarrow> 's \<Rightarrow> string result \<times> 's"
    and items :: "'s \<Rightarrow> string \<Rightarrow> string list"
  assumes push_keeps: "ok s \<Longrightarrow> ok (snd (push p j s))"
    and pop_keeps: "ok s \<Longrightarrow> ok (snd (pop p w s))"
    and push_answered: "ok s \<Longrightarrow> push p j s = (Inr u, s') \<Longrightarrow> items s' = (items s)(p := items s p @ [j])"
    and push_failed: "ok s \<Longrightarrow> push p j s = (Inl e, s') \<Longrightarrow>
      items s' \<in> {items s, (items s)(p := items s p @ [j])}"
    and pop_answered: "ok s \<Longrightarrow> pop p w s = (Inr j, s') \<Longrightarrow>
      (case items s p of [] \<Rightarrow> j = [] \<and> items s' = items s
       | x # xs \<Rightarrow> j = x \<and> items s' = (items s)(p := xs))"
    and pop_failed: "ok s \<Longrightarrow> pop p w s = (Inl e, s') \<Longrightarrow>
      items s' \<in> {items s, (items s)(p := tl (items s p))}"
begin

text \<open>No failure: what is popped and what remains is what was there and what was pushed.\<close>

lemma fifo:
  assumes "ok s" and "queue_run push pop ops s = (es, s')" and "Failed \<notin> set es"
    and "[] \<notin> set (items s p)" and "[] \<notin> set (offered p ops)"
  shows "popped p es @ items s' p = items s p @ offered p ops"
  using assms
proof (induction ops arbitrary: s es)
  case (Cons op ops)
  show ?case
  proof (cases op)
    case (Push q j)
    obtain r s1 where p1: "push q j s = (r, s1)" by fastforce
    obtain es1 where e1: "queue_run push pop ops s1 = (es1, s')" "es = (if isl r then Failed else Pushed q j) # es1"
      using Cons.prems(2) Push p1 by (auto split: prod.splits)
    from Cons.prems(3) e1 obtain u where r: "r = Inr u" by (cases r) auto
    note i = push_answered [OF Cons.prems(1) p1 [unfolded r]]
    from Cons.IH [of s1 es1] push_keeps [OF Cons.prems(1), of q j] p1 e1 r i Cons.prems Push
    show ?thesis by (auto split: if_splits)
  next
    case (Pop q)
    obtain r s1 where p1: "pop q 25 s = (r, s1)" by fastforce
    obtain es1 where e1: "queue_run push pop ops s1 = (es1, s')"
      "es = (case r of Inl e \<Rightarrow> Failed | Inr j \<Rightarrow> if j = [] then Idle else Popped q j) # es1"
      using Cons.prems(2) Pop p1 by (auto split: prod.splits)
    from Cons.prems(3) e1 obtain j where r: "r = Inr j" by (cases r) auto
    note i = pop_answered [OF Cons.prems(1) p1 [unfolded r]]
    from Cons.IH [of s1 es1] pop_keeps [OF Cons.prems(1), of q 25] p1 e1 r i Cons.prems Pop
    show ?thesis by (cases "items s q") (auto split: if_splits)
  qed
qed simp

text \<open>Whatever fails: nothing is popped twice, out of turn, or without having been offered.\<close>

lemma no_duplicates:
  assumes "ok s" and "queue_run push pop ops s = (es, s')"
  shows "subseq (popped p es @ items s' p) (items s p @ offered p ops)"
  using assms
proof (induction ops arbitrary: s es)
  case (Cons op ops)
  show ?case
  proof (cases op)
    case (Push q j)
    obtain r s1 where p1: "push q j s = (r, s1)" by fastforce
    obtain es1 where e1: "queue_run push pop ops s1 = (es1, s')" "es = (if isl r then Failed else Pushed q j) # es1"
      using Cons.prems(2) Push p1 by (auto split: prod.splits)
    have "items s1 \<in> {items s, (items s)(q := items s q @ [j])}"
      using push_answered [OF Cons.prems(1)] push_failed [OF Cons.prems(1)] p1 by (cases r) auto
    moreover have "subseq (offered p ops) (offered p (op # ops))" using Push by auto
    then have "subseq (items s p @ offered p ops) (items s p @ offered p (op # ops))"
      by (rule list_emb_append_mono [OF subseq_order.order_refl])
    ultimately have "subseq (items s1 p @ offered p ops) (items s p @ offered p (op # ops))"
      using Push by auto
    with Cons.IH [of s1 es1] push_keeps [OF Cons.prems(1), of q j] p1 e1 show ?thesis
      by (auto intro: subseq_order.order_trans split: if_splits)
  next
    case (Pop q)
    obtain r s1 where p1: "pop q 25 s = (r, s1)" by fastforce
    obtain es1 where e1: "queue_run push pop ops s1 = (es1, s')"
      "es = (case r of Inl e \<Rightarrow> Failed | Inr j \<Rightarrow> if j = [] then Idle else Popped q j) # es1"
      using Cons.prems(2) Pop p1 by (auto split: prod.splits)
    define out where "out = (case r of Inr j \<Rightarrow> if j \<noteq> [] \<and> q = p then [j] else [] | Inl e \<Rightarrow> [])"
    have "subseq (out @ items s1 p) (items s p)"
    proof (cases r)
      case (Inl e)
      with pop_failed [OF Cons.prems(1), of q 25 e s1] p1 show ?thesis
        by (cases "items s q") (auto simp: out_def)
    next
      case (Inr j)
      with pop_answered [OF Cons.prems(1), of q 25 j s1] p1 show ?thesis
        by (cases "items s q") (auto simp: out_def)
    qed
    from list_emb_append_mono [OF this subseq_order.order_refl, of "offered p ops"]
    have later: "subseq (out @ items s1 p @ offered p ops) (items s p @ offered p ops)" by simp
    have "subseq (popped p es1 @ items s' p) (items s1 p @ offered p ops)"
      using Cons.IH [of s1 es1] pop_keeps [OF Cons.prems(1), of q 25] p1 e1 by simp
    then have "subseq (out @ popped p es1 @ items s' p) (out @ items s1 p @ offered p ops)"
      by (rule list_emb_append_mono [OF subseq_order.order_refl])
    from subseq_order.order_trans [OF this later] e1(2) Pop show ?thesis
      by (cases r) (auto simp: out_def split: if_splits)
  qed
qed simp

end

interpretation provider_queue: job_queue ready_redis PushJob PopJob queue_of
proof unfold_locales
  fix R R' :: "'r redis" and p j w u e
  show "ready_redis R \<Longrightarrow> PushJob p j R = (Inr u, R') \<Longrightarrow>
      queue_of R' = (queue_of R)(p := queue_of R p @ [j])"
    using PushJob_effect [of R p j "Inr u" R'] by (auto simp: queue_of_def effect_def)
  show "ready_redis R \<Longrightarrow> PushJob p j R = (Inl e, R') \<Longrightarrow>
      queue_of R' \<in> {queue_of R, (queue_of R)(p := queue_of R p @ [j])}"
    using PushJob_effect [of R p j "Inl e" R'] by (auto simp: queue_of_def effect_def)
  show "ready_redis R \<Longrightarrow> PopJob p w R = (Inr j, R') \<Longrightarrow>
      (case queue_of R p of [] \<Rightarrow> j = [] \<and> queue_of R' = queue_of R
       | x # xs \<Rightarrow> j = x \<and> queue_of R' = (queue_of R)(p := xs))"
    using PopJob_effect [of R p w "Inr j" R']
    by (cases "lists (keys_of R) (jobQueueKey p)" rule: rev_cases)
      (auto simp: queue_of_def split: if_splits)
  show "ready_redis R \<Longrightarrow> PopJob p w R = (Inl e, R') \<Longrightarrow>
      queue_of R' \<in> {queue_of R, (queue_of R)(p := tl (queue_of R p))}"
    using PopJob_effect [of R p w "Inl e" R']
    by (cases "lists (keys_of R) (jobQueueKey p)" rule: rev_cases)
      (auto simp: queue_of_def split: if_splits)
qed simp_all


section \<open>An allocator per counter\<close>

text \<open>The values handed out by a number of allocations, of which some may fail.\<close>

fun alloc_run :: "('s \<Rightarrow> 'a result \<times> 's) \<Rightarrow> nat \<Rightarrow> 's \<Rightarrow> 'a list \<times> 's" where
  "alloc_run alloc 0 s = ([], s)"
| "alloc_run alloc (Suc n) s =
     (let (r, s1) = alloc s; (xs, s2) = alloc_run alloc n s1
      in (case r of Inl e \<Rightarrow> (xs, s2) | Inr x \<Rightarrow> (x # xs, s2)))"

locale allocator =
  fixes ok :: "'s \<Rightarrow> bool"
    and alloc :: "'s \<Rightarrow> 'a result \<times> 's"
    and used :: "'s \<Rightarrow> int"
    and val_at :: "int \<Rightarrow> 'a"
  assumes keeps: "ok s \<Longrightarrow> ok (snd (alloc s))"
    and answered: "ok s \<Longrightarrow> alloc s = (Inr a, s') \<Longrightarrow>
      used s' = used s + 1 \<and> a = val_at (used s') \<and> used s' < 2 ^ 63"
    and failed: "ok s \<Longrightarrow> alloc s = (Inl e, s') \<Longrightarrow> used s' \<in> {used s, used s + 1}"
begin

lemma run_values:
  assumes "ok s" and "alloc_run alloc n s = (xs, s')"
  shows "\<exists>ns. xs = map val_at ns \<and> sorted_wrt (<) ns \<and> set ns \<subseteq> {used s<..used s'} \<and>
    set ns \<subseteq> {..<2 ^ 63} \<and> used s \<le> used s' \<and> used s' \<le> used s + int n"
  using assms
proof (induction n arbitrary: s xs)
  case 0
  then show ?case by simp
next
  case (Suc n)
  obtain r s1 where a: "alloc s = (r, s1)" by fastforce
  obtain ys s2 where y0: "alloc_run alloc n s1 = (ys, s2)" by fastforce
  with Suc.prems(2) a have "s2 = s'" by (auto split: sum.splits)
  with y0 have y: "alloc_run alloc n s1 = (ys, s')" by simp
  from Suc.IH [OF _ y] keeps [OF Suc.prems(1)] a obtain ns where ns: "ys = map val_at ns"
    "sorted_wrt (<) ns" "set ns \<subseteq> {used s1<..used s'}" "set ns \<subseteq> {..<2 ^ 63}" "used s1 \<le> used s'"
    "used s' \<le> used s1 + int n" by auto
  show ?case
  proof (cases r)
    case (Inl e)
    from failed [OF Suc.prems(1) a [unfolded Inl]] ns Suc.prems(2) a y Inl show ?thesis
      by (intro exI [of _ ns]) auto
  next
    case (Inr x)
    from answered [OF Suc.prems(1) a [unfolded Inr]] ns Suc.prems(2) a y Inr show ?thesis
      by (intro exI [of _ "used s1 # ns"]) auto
  qed
qed

lemma run_distinct:
  assumes "ok s" and "alloc_run alloc n s = (xs, s')" and "inj_on val_at ({used s<..used s + int n} \<inter> {..<2 ^ 63})"
  shows "distinct xs" and "set xs \<subseteq> val_at ` ({used s<..used s + int n} \<inter> {..<2 ^ 63})"
proof -
  from run_values [OF assms(1,2)] obtain ns where ns: "xs = map val_at ns" "sorted_wrt (<) ns"
    "set ns \<subseteq> {used s<..used s + int n} \<inter> {..<2 ^ 63}" by fastforce
  then have "distinct ns" by (simp add: strict_sorted_iff)
  with ns inj_on_subset [OF assms(3) ns(3)] show "distinct xs" by (simp add: distinct_map)
  from ns show "set xs \<subseteq> val_at ` ({used s<..used s + int n} \<inter> {..<2 ^ 63})" by auto
qed

end

interpretation ports: allocator ready_redis AllocPort ports_used port_of
proof unfold_locales
  fix R R' :: "'r redis" and a e
  show "ready_redis R \<Longrightarrow> AllocPort R = (Inr a, R') \<Longrightarrow>
      ports_used R' = ports_used R + 1 \<and> a = port_of (ports_used R') \<and> ports_used R' < 2 ^ 63"
    using AllocPort_effect(1) [of R "Inr a" R'] AllocPort_effect(2) [of R "Inr a" R' a] by (auto simp: ports_used_def effect_def)
  show "ready_redis R \<Longrightarrow> AllocPort R = (Inl e, R') \<Longrightarrow> ports_used R' \<in> {ports_used R, ports_used R + 1}"
    using AllocPort_effect(1) [of R "Inl e" R'] by (auto simp: ports_used_def effect_def)
qed simp

interpretation addresses: allocator ready_redis AllocWGIP ips_used wg_ip_of
proof unfold_locales
  fix R R' :: "'r redis" and a e
  show "ready_redis R \<Longrightarrow> AllocWGIP R = (Inr a, R') \<Longrightarrow>
      ips_used R' = ips_used R + 1 \<and> a = wg_ip_of (ips_used R') \<and> ips_used R' < 2 ^ 63"
    using AllocWGIP_effect(1) [of R "Inr a" R'] AllocWGIP_effect(2) [of R "Inr a" R' a] by (auto simp: ips_used_def effect_def)
  show "ready_redis R \<Longrightarrow> AllocWGIP R = (Inl e, R') \<Longrightarrow> ips_used R' \<in> {ips_used R, ips_used R + 1}"
    using AllocWGIP_effect(1) [of R "Inl e" R'] by (auto simp: ips_used_def effect_def)
qed simp


section \<open>A store of tokens\<close>

datatype token_op = Issue string | Revoke string

fun token_run :: "(string \<Rightarrow> 's \<Rightarrow> unit result \<times> 's) \<Rightarrow> (string \<Rightarrow> 's \<Rightarrow> unit result \<times> 's) \<Rightarrow>
    token_op list \<Rightarrow> 's \<Rightarrow> bool \<times> 's" where
  "token_run add revoke [] s = (True, s)"
| "token_run add revoke (x # xs) s =
     (let (r, s1) = (case x of Issue t \<Rightarrow> add t s | Revoke t \<Rightarrow> revoke t s);
          (answered, s2) = token_run add revoke xs s1
      in (\<not> isl r \<and> answered, s2))"

text \<open>The last word on a token.\<close>

fun last_word :: "string \<Rightarrow> token_op list \<Rightarrow> bool \<Rightarrow> bool" where
  "last_word t [] b = b"
| "last_word t (Issue u # xs) b = last_word t xs (t = u \<or> b)"
| "last_word t (Revoke u # xs) b = last_word t xs (b \<and> t \<noteq> u)"

locale token_store =
  fixes ok :: "'s \<Rightarrow> bool"
    and add revoke :: "string \<Rightarrow> 's \<Rightarrow> unit result \<times> 's"
    and valid :: "string \<Rightarrow> 's \<Rightarrow> bool result \<times> 's"
    and tokens :: "'s \<Rightarrow> string set"
  assumes add_keeps: "ok s \<Longrightarrow> ok (snd (add t s))"
    and revoke_keeps: "ok s \<Longrightarrow> ok (snd (revoke t s))"
    and add_answered: "ok s \<Longrightarrow> add t s = (Inr u, s') \<Longrightarrow> tokens s' = insert t (tokens s)"
    and revoke_answered: "ok s \<Longrightarrow> revoke t s = (Inr u, s') \<Longrightarrow> tokens s' = tokens s - {t}"
    and valid_answered: "ok s \<Longrightarrow> valid t s = (Inr b, s') \<Longrightarrow> b \<longleftrightarrow> t \<noteq> [] \<and> t \<in> tokens s"
    and valid_reads: "ok s \<Longrightarrow> tokens (snd (valid t s)) = tokens s"
begin

lemma run_tokens:
  assumes "ok s" and "token_run add revoke ops s = (True, s')"
  shows "ok s'" and "t \<in> tokens s' \<longleftrightarrow> last_word t ops (t \<in> tokens s)"
proof -
  have "ok s' \<and> (t \<in> tokens s' \<longleftrightarrow> last_word t ops (t \<in> tokens s))"
    using assms
  proof (induction ops arbitrary: s)
    case (Cons x xs)
    show ?case
    proof (cases x)
      case (Issue u)
      obtain r s1 where a: "add u s = (r, s1)" by fastforce
      with Cons.prems Issue obtain v where r: "r = Inr v"
        and n: "token_run add revoke xs s1 = (True, s')" by (cases r) (auto split: prod.splits)
      from Cons.IH [OF _ n] add_keeps [OF Cons.prems(1), of u] a r
        add_answered [OF Cons.prems(1) a [unfolded r]] Issue show ?thesis by auto
    next
      case (Revoke u)
      obtain r s1 where a: "revoke u s = (r, s1)" by fastforce
      with Cons.prems Revoke obtain v where r: "r = Inr v"
        and n: "token_run add revoke xs s1 = (True, s')" by (cases r) (auto split: prod.splits)
      from Cons.IH [OF _ n] revoke_keeps [OF Cons.prems(1), of u] a r
        revoke_answered [OF Cons.prems(1) a [unfolded r]] Revoke show ?thesis by auto
    qed
  qed simp
  then show "ok s'" and "t \<in> tokens s' \<longleftrightarrow> last_word t ops (t \<in> tokens s)" by simp_all
qed

lemma valid_after_run:
  assumes "ok s" and "token_run add revoke ops s = (True, s1)" and "valid t s1 = (Inr b, s2)"
  shows "b \<longleftrightarrow> t \<noteq> [] \<and> last_word t ops (t \<in> tokens s)"
  using valid_answered [OF run_tokens(1) [OF assms(1,2)] assms(3)] run_tokens(2) [OF assms(1,2)]
  by simp

end

interpretation registration: token_store ready_redis AddToken RevokeToken TokenValid tokens_of
proof unfold_locales
  fix R R' :: "'r redis" and t u b
  show "ready_redis R \<Longrightarrow> AddToken t R = (Inr u, R') \<Longrightarrow> tokens_of R' = insert t (tokens_of R)"
    using AddToken_effect [of R t "Inr u" R'] by (auto simp: tokens_of_def effect_def)
  show "ready_redis R \<Longrightarrow> RevokeToken t R = (Inr u, R') \<Longrightarrow> tokens_of R' = tokens_of R - {t}"
    using RevokeToken_effect [of R t "Inr u" R'] by (auto simp: tokens_of_def effect_def)
  show "ready_redis R \<Longrightarrow> TokenValid t R = (Inr b, R') \<Longrightarrow> b \<longleftrightarrow> t \<noteq> [] \<and> t \<in> tokens_of R"
    by (rule TokenValid_effect(2)) auto
  show "ready_redis R \<Longrightarrow> tokens_of (snd (TokenValid t R)) = tokens_of R"
    using TokenValid_effect(1) [of R t] by (cases "TokenValid t R") (simp add: tokens_of_def)
qed simp_all


section \<open>Properties\<close>

lemma wg_ip_of_is_ipv4:
  assumes "0 < n" and "n < 2 ^ 63"
  shows "is_ipv4 (wg_ip_of n) \<longleftrightarrow> n \<le> 64770"
proof -
  have "show_nat 10 = ''10''" "show_nat 99 = ''99''" by code_simp+
  then have "value_of_digits ''10'' = 10" "value_of_digits ''99'' = 99"
    by (metis value_show_nat)+
  then have "is_ipv4 (wg_ip_of n) \<longleftrightarrow>
      nat ((n - 1) div 254) + 1 < 256 \<and> nat ((n - 1) mod 254) + 1 < 256"
    using \<open>show_nat 10 = ''10''\<close> \<open>show_nat 99 = ''99''\<close>
    by (simp add: is_ipv4_def wg_ip_fields [OF assms])
  also have "\<dots> \<longleftrightarrow> (n - 1) div 254 < 255"
    using pos_mod_bound [of 254 "n - 1"] by linarith
  also have "\<dots> \<longleftrightarrow> n \<le> 64770"
    using div_mult_mod_eq [of "n - 1" 254] pos_mod_bound [of 254 "n - 1"] pos_mod_sign [of 254 "n - 1"]
    by linarith
  finally show ?thesis .
qed

lemma alloc_run_WGIP:
  "ready_redis R \<Longrightarrow> 0 \<le> ips_used R \<Longrightarrow> alloc_run AllocWGIP n R = (xs, R') \<Longrightarrow> distinct xs"
  by (rule addresses.run_distinct(1)) (auto intro: inj_on_subset [OF wg_ip_inj])

text \<open>
  Result (addresses are unique). However many addresses are allocated, whichever of the calls
  fail, no two calls return the same WireGuard address.
\<close>

theorem wg_addresses_distinct:
  assumes "ready_redis R" and "0 \<le> ips_used R" and "alloc_run AllocWGIP n R = (xs, R')"
  shows "distinct xs"
  by (rule alloc_run_WGIP [OF assms])

theorem wg_addresses_distinct_witness:
  "\<exists>R'. alloc_run AllocWGIP 3 sample_redis = ([''10.99.1.1'', ''10.99.1.2'', ''10.99.1.3''], R') \<and>
     distinct [''10.99.1.1'', ''10.99.1.2'', ''10.99.1.3'']"
proof -
  have "fst (alloc_run AllocWGIP 3 sample_redis) = [''10.99.1.1'', ''10.99.1.2'', ''10.99.1.3'']"
    by code_simp
  then obtain R' where a: "alloc_run AllocWGIP 3 sample_redis =
      ([''10.99.1.1'', ''10.99.1.2'', ''10.99.1.3''], R')" by (metis prod.collapse)
  have "0 \<le> ips_used sample_redis" by code_simp
  from wg_addresses_distinct [OF sample_redis_ready this a] a show ?thesis by blast
qed

text \<open>The addresses of 10.99.0.0/16, and its part 10.99.0.0/24 that holds the control plane's own.\<close>

definition in_network :: "string \<Rightarrow> bool" where
  "in_network ip \<longleftrightarrow> is_ipv4 ip \<and> take 2 (split_on CHR ''.'' ip) = [''10'', ''99'']"

text \<open>
  C32 (addresses run out). What is allocated is an address of 10.99.0.0/16 exactly for the first
  64770 allocations; the allocator has no bound, and from then on it returns texts such as
  10.99.256.1, which are no IPv4 addresses at all. The third field is never 0, so no allocation is the
  control plane's own 10.99.0.1, or in its 10.99.0.0/24.
\<close>

theorem wg_addresses_valid_iff:
  assumes "ready_redis R" and "0 \<le> ips_used R" and "AllocWGIP R = (Inr ip, R')"
  shows "(in_network ip \<longleftrightarrow> ips_used R' \<le> 64770) \<and> (is_ipv4 ip \<longleftrightarrow> in_network ip) \<and>
    split_on CHR ''.'' ip ! 2 \<noteq> ''0'' \<and> ip \<noteq> ''10.99.0.1''"
proof -
  from addresses.answered [OF assms(1,3)] assms(2)
  have n: "ip = wg_ip_of (ips_used R')" "0 < ips_used R'" "ips_used R' < 2 ^ 63" by simp_all
  note fields = wg_ip_fields [OF n(2,3), folded n(1)]
  have "show_nat 0 = ''0''" by code_simp
  then have "show_nat (nat ((ips_used R' - 1) div 254) + 1) \<noteq> ''0''"
    by (metis Suc_eq_plus1 nat.distinct(1) show_nat_inject)
  then have third: "split_on CHR ''.'' ip ! 2 \<noteq> ''0''" using fields by simp
  have "split_on CHR ''.'' ''10.99.0.1'' ! 2 = ''0''" by code_simp
  with third have "ip \<noteq> ''10.99.0.1''" by blast
  moreover have "take 2 (split_on CHR ''.'' ip) = [''10'', ''99'']" using fields by simp
  then have "in_network ip \<longleftrightarrow> is_ipv4 ip" by (simp add: in_network_def)
  moreover have "is_ipv4 ip \<longleftrightarrow> ips_used R' \<le> 64770" using wg_ip_of_is_ipv4 [OF n(2,3)] n(1) by simp
  ultimately show ?thesis using third by blast
qed

definition worn_redis :: "redis_keys redis" where
  "worn_redis = sample_redis\<lparr>server := (server sample_redis)\<lparr>counters := (\<lambda>k. 64770)\<rparr>\<rparr>"

theorem wg_addresses_valid_iff_witness:
  "\<exists>R'. AllocWGIP worn_redis = (Inr ''10.99.256.1'', R') \<and> \<not> in_network ''10.99.256.1'' \<and> \<not> is_ipv4 ''10.99.256.1''"
proof -
  have "fst (AllocWGIP worn_redis) = Inr ''10.99.256.1''" by code_simp
  then obtain R' where a: "AllocWGIP worn_redis = (Inr ''10.99.256.1'', R')" by (metis prod.collapse)
  have r: "ready_redis worn_redis" and u: "0 \<le> ips_used worn_redis" "ips_used worn_redis = 64770"
    using sample_redis_ready
    by (simp_all add: worn_redis_def ready_redis_def ips_used_def keys_of_def sample_redis_def memory_client_def)
  have "\<not> ips_used R' \<le> 64770" using addresses.answered [OF r a] u(2) by simp
  with wg_addresses_valid_iff [OF r u(1) a] a show ?thesis by blast
qed

text \<open>
  Result (ports). Any 10000 allocations in a row, failures included, return pairwise different
  ports between 40000 and 49999.
\<close>

theorem ports_distinct_in_window:
  assumes "ready_redis R" and "0 \<le> ports_used R" and "n \<le> 10000"
    and "alloc_run AllocPort n R = (xs, R')"
  shows "distinct xs \<and> set xs \<subseteq> {40000..49999}"
proof -
  let ?I = "{ports_used R<..ports_used R + int n} \<inter> {..<2 ^ 63}"
  have "inj_on port_of ?I"
  proof (rule inj_onI)
    fix a b assume "a \<in> ?I" "b \<in> ?I" "port_of a = port_of b"
    then have "a mod 10000 = b mod 10000" and "\<bar>a - b\<bar> < 10000"
      using assms(2,3) by (auto simp: port_of_nonneg)
    then show "a = b" by (rule mod_close_unique)
  qed
  moreover have "port_of ` ?I \<subseteq> {40000..49999}"
    using assms(2) by (auto simp: port_of_nonneg)
  ultimately show ?thesis
    using ports.run_distinct [OF assms(1,4)] by blast
qed

theorem ports_distinct_in_window_witness:
  "\<exists>R'. alloc_run AllocPort 2 sample_redis = ([40001, 40002], R') \<and> set [40001, 40002 :: int] \<subseteq> {40000..49999}"
proof -
  have "fst (alloc_run AllocPort 2 sample_redis) = [40001, 40002]" by code_simp
  then obtain R' where a: "alloc_run AllocPort 2 sample_redis = ([40001, 40002], R')" by (metis prod.collapse)
  have "0 \<le> ports_used sample_redis" by code_simp
  from ports_distinct_in_window [OF sample_redis_ready this _ a] a show ?thesis by simp
qed

text \<open>
  Result (ports wrap). The port of an allocation is handed out again exactly 10000 allocations
  later, whether or not its first holder is still registered: a port is not unique.
\<close>

theorem port_is_reused:
  assumes "ready_redis R1" and "ready_redis R2" and "0 \<le> ports_used R1"
    and "AllocPort R1 = (Inr a, R1')" and "AllocPort R2 = (Inr b, R2')"
    and "ports_used R2 = ports_used R1 + 10000"
  shows "a = b"
proof -
  have "port_of (k + 10000) = port_of k" if "0 \<le> k" for k
    using that by (simp add: port_of_nonneg)
  moreover have "ports_used R2' = ports_used R1' + 10000" "0 \<le> ports_used R1'"
    using ports.answered [OF assms(1,4)] ports.answered [OF assms(2,5)] assms(3,6) by simp_all
  ultimately show ?thesis
    using ports.answered [OF assms(1,4)] ports.answered [OF assms(2,5)] by metis
qed

definition later_redis :: "redis_keys redis" where
  "later_redis = sample_redis\<lparr>server := (server sample_redis)\<lparr>counters := (\<lambda>k. 10000)\<rparr>\<rparr>"

theorem port_is_reused_witness:
  "fst (AllocPort sample_redis) = Inr 40001 \<and> fst (AllocPort later_redis) = Inr 40001"
proof -
  have a: "AllocPort sample_redis = (Inr 40001, snd (AllocPort sample_redis))"
    by (rule prod_eqI) (code_simp, simp)
  have b: "\<exists>b. AllocPort later_redis = (Inr b, snd (AllocPort later_redis))"
    by (intro exI [of _ 40001] prod_eqI) (code_simp, simp)
  have r: "ready_redis later_redis" using sample_redis_ready by (simp add: later_redis_def ready_redis_def)
  have u: "0 \<le> ports_used sample_redis" "ports_used later_redis = ports_used sample_redis + 10000"
    by code_simp+
  from b obtain b where b: "AllocPort later_redis = (Inr b, snd (AllocPort later_redis))" by blast
  from port_is_reused [OF sample_redis_ready r u(1) a b u(2)] a b show ?thesis by (metis fst_conv)
qed

text \<open>
  Result (queue order). Over any history of pushes and pops for any providers in which no
  command fails, the job ids a provider has popped, followed by those still queued, are the
  ids queued before followed by the ids pushed, in that order.
\<close>

theorem provider_queue_fifo:
  assumes "ready_redis R" and "queue_run PushJob PopJob ops R = (es, R')" and "Failed \<notin> set es"
    and "[] \<notin> set (queue_of R p)" and "[] \<notin> set (offered p ops)"
  shows "popped p es @ queue_of R' p = queue_of R p @ offered p ops"
  by (rule provider_queue.fifo [OF assms])

definition sample_ops :: "queue_op list" where
  "sample_ops = [Push ''a'' ''j1'', Push ''b'' ''j2'', Push ''a'' ''j3'', Pop ''a'', Pop ''c'']"

theorem provider_queue_fifo_witness:
  "\<exists>es R'. queue_run PushJob PopJob sample_ops sample_redis = (es, R') \<and>
     popped ''a'' es @ queue_of R' ''a'' = [''j1'', ''j3'']"
proof -
  have e: "fst (queue_run PushJob PopJob sample_ops sample_redis) =
      [Pushed ''a'' ''j1'', Pushed ''b'' ''j2'', Pushed ''a'' ''j3'', Popped ''a'' ''j1'', Idle]"
    by code_simp
  obtain es R' where q: "queue_run PushJob PopJob sample_ops sample_redis = (es, R')" by fastforce
  have "Failed \<notin> set es" using e q by simp
  moreover have "queue_of sample_redis ''a'' = []" by code_simp
  moreover have "offered ''a'' sample_ops = [''j1'', ''j3'']" by code_simp
  ultimately have "popped ''a'' es @ queue_of R' ''a'' = [''j1'', ''j3'']"
    using provider_queue_fifo [OF sample_redis_ready q, of "''a''"] by simp
  with q show ?thesis by blast
qed

text \<open>
  Result (queue under failures). Whatever commands fail and whether or not a failed command took
  effect, what a provider pops and what stays queued is a subsequence of what was queued and
  pushed: nothing is popped twice, out of order, or for another provider.
\<close>

theorem provider_queue_at_most_once:
  assumes "ready_redis R" and "queue_run PushJob PopJob ops R = (es, R')"
  shows "subseq (popped p es @ queue_of R' p) (queue_of R p @ offered p ops)"
  by (rule provider_queue.no_duplicates [OF assms])

theorem provider_queue_at_most_once_witness:
  "subseq (popped ''a'' (fst (queue_run PushJob PopJob sample_ops sample_redis))) [''j1'', ''j3'']"
proof -
  obtain es R' where q: "queue_run PushJob PopJob sample_ops sample_redis = (es, R')" by fastforce
  have "queue_of sample_redis ''a'' = []" "offered ''a'' sample_ops = [''j1'', ''j3'']" by code_simp+
  with provider_queue_at_most_once [OF sample_redis_ready q, of "''a''"]
  have "subseq (popped ''a'' es @ queue_of R' ''a'') [''j1'', ''j3'']" by simp
  moreover have "subseq (popped ''a'' es) (popped ''a'' es @ queue_of R' ''a'')"
    by (rule prefix_imp_subseq) simp
  ultimately have "subseq (popped ''a'' es) [''j1'', ''j3'']"
    by (rule subseq_order.order_trans [rotated])
  then show ?thesis by (simp only: q fst_conv)
qed

text \<open>
  Result (tokens). After any history of issued and revoked tokens that the server answered,
  \<open>TokenValid\<close> accepts a token exactly if it is not empty and the last word on it was that it
  is issued; checking consumes nothing.
\<close>

theorem token_valid_iff_issued:
  assumes "ready_redis R" and "token_run AddToken RevokeToken ops R = (True, R1)"
    and "TokenValid t R1 = (Inr b, R2)"
  shows "(b \<longleftrightarrow> t \<noteq> [] \<and> last_word t ops (t \<in> tokens_of R)) \<and> tokens_of R2 = tokens_of R1"
  using registration.valid_after_run [OF assms]
    registration.valid_reads [OF registration.run_tokens(1) [OF assms(1,2)], of t] assms(3)
  by simp

theorem token_valid_iff_issued_witness:
  "fst (TokenValid ''t'' (snd (token_run AddToken RevokeToken [Issue ''t'', Revoke ''u''] sample_redis))) = Inr True"
proof -
  let ?run = "token_run AddToken RevokeToken [Issue ''t'', Revoke ''u''] sample_redis"
  have "fst ?run" by code_simp
  then have r: "?run = (True, snd ?run)" by (metis prod.collapse)
  obtain b where "fst (TokenValid ''t'' (snd ?run)) = Inr b"
    by (auto simp: TokenValid_def command_def AddToken_def RevokeToken_def sample_redis_def memory_client_def)
  then have v: "TokenValid ''t'' (snd ?run) = (Inr b, snd (TokenValid ''t'' (snd ?run)))"
    by (metis prod.collapse)
  have "b"
    using token_valid_iff_issued [OF sample_redis_ready r v] by simp
  with arg_cong [where f = fst, OF v] show ?thesis
    by simp
qed

end
