(* ===== verification/Stores.thy ===== *)
theory Stores
  imports Provider_Presence Job_Lifecycle Redis_Store
begin

text \<open>
  The two stores side by side, as the registry, the scheduler and the API handlers share
  them: a database and a Redis connection. A component's operation runs an operation of one
  store at a time (\<open>on_pg\<close>, \<open>on_redis\<close>) and stops at the first error, which it wraps
  (\<open>attempt\<close>). A locale states what any sequence of such operations keeps.
\<close>

record 'r stores =
  db :: pg
  cache :: "'r redis"

definition on_pg :: "(pg \<Rightarrow> 'a \<times> pg) \<Rightarrow> 'r stores \<Rightarrow> 'a \<times> 'r stores" where
  "on_pg f S = (let (r, p) = f (db S) in (r, S\<lparr>db := p\<rparr>))"

definition on_redis :: "('r redis \<Rightarrow> 'a \<times> 'r redis) \<Rightarrow> 'r stores \<Rightarrow> 'a \<times> 'r stores" where
  "on_redis f S = (let (r, R) = f (cache S) in (r, S\<lparr>cache := R\<rparr>))"

text \<open>\<open>x, err := ..; if err != nil { return nil, fmt.Errorf("pre: %w", err) }\<close>\<close>

fun attempt :: "string \<Rightarrow> 'a result \<times> 's \<Rightarrow> ('a \<Rightarrow> 's \<Rightarrow> 'b result \<times> 's) \<Rightarrow> 'b result \<times> 's" where
  "attempt pre (Inl e, s) k = (Inl (Errorf pre e []), s)"
| "attempt pre (Inr x, s) k = k x s"

lemma attempt_cases:
  assumes "attempt pre (r0, s0) k = (r, s)"
  obtains (failed) e where "r0 = Inl e" "r = Inl (Errorf pre e [])" "s = s0"
    | (went_on) x where "r0 = Inr x" "k x s0 = (r, s)"
  using assms by (cases r0) auto

lemma on_pg_eq: "on_pg f S = (r, S') \<longleftrightarrow> f (db S) = (r, db S') \<and> S' = S\<lparr>db := db S'\<rparr>"
  by (cases "f (db S)") (auto simp: on_pg_def)

lemma on_redis_eq: "on_redis f S = (r, S') \<longleftrightarrow> f (cache S) = (r, cache S') \<and> S' = S\<lparr>cache := cache S'\<rparr>"
  by (cases "f (cache S)") (auto simp: on_redis_def)

lemma on_pg_cache [simp]: "cache (snd (on_pg f S)) = cache S" "db (snd (on_pg f S)) = snd (f (db S))"
  by (simp_all add: on_pg_def split: prod.splits)

lemma on_redis_db [simp]: "db (snd (on_redis f S)) = db S" "cache (snd (on_redis f S)) = snd (f (cache S))"
  by (simp_all add: on_redis_def split: prod.splits)

lemma fst_on [simp]: "fst (on_pg f S) = fst (f (db S))" "fst (on_redis g S) = fst (g (cache S))"
  by (simp_all add: on_pg_def on_redis_def split: prod.splits)

text \<open>A counter of Redis moved on by one.\<close>

definition bump :: "string \<Rightarrow> redis_keys \<Rightarrow> redis_keys" where
  "bump k ks = ks\<lparr>counters := (counters ks)(k := counters ks k + 1)\<rparr>"

lemma bump_sel [simp]:
  "lists (bump k ks) = lists ks" "sets (bump k ks) = sets ks"
  "counters (bump k ks) l = (if l = k then counters ks k + 1 else counters ks l)"
  by (simp_all add: bump_def)

lemma AllocWGIP_bump:
  assumes "ready_redis R" and "AllocWGIP R = (r, R')"
  shows "effect (keys_of R) (bump ''dcp:wg_ip_counter'' (keys_of R)) r (keys_of R')"
  using AllocWGIP_effect(1) [OF assms] by (simp add: bump_def ips_used_def)

lemma AllocPort_bump:
  assumes "ready_redis R" and "AllocPort R = (r, R')"
  shows "effect (keys_of R) (bump ''dcp:port_counter'' (keys_of R)) r (keys_of R')"
  using AllocPort_effect(1) [OF assms] by (simp add: bump_def ports_used_def)

lemma effect_Inr [simp]: "effect ks ks1 (Inr x) ks' \<longleftrightarrow> ks' = ks1"
  by (simp add: effect_def)

lemma effect_Inl [simp]: "effect ks ks1 (Inl e) ks' \<longleftrightarrow> ks' = ks \<or> ks' = ks1"
  by (auto simp: effect_def)

text \<open>Both stores in order: the tables well formed, the Redis client as documented.\<close>

definition stores_ok :: "'r stores \<Rightarrow> bool" where
  "stores_ok S \<longleftrightarrow> wf_tables (tabs (db S)) \<and> pg_ok (pg_env (db S)) \<and> ready_redis (cache S)"

text \<open>
  The contract of a component's operation (the argument \<open>c\<close> is its request): it reaches the
  database only by the calls of the store, by some of \<open>may_call\<close>, and leaves the Redis
  client in place. Whatever holds of every history of store calls then holds of it, and of
  any sequence of such operations.
\<close>

definition through :: "pg_call set \<Rightarrow> 'r stores \<Rightarrow> 'r stores \<Rightarrow> bool" where
  "through may_call S S' \<longleftrightarrow> client (cache S') = client (cache S) \<and>
     (\<exists>cs. set cs \<subseteq> may_call \<and> db S' = run_calls cs (db S))"

lemma through_refl [simp]: "through A S S"
  unfolding through_def by (intro conjI exI [of _ "[]"]) (simp_all add: run_calls_def)

lemma through_trans:
  assumes "through A S S'" and "through A S' S''" shows "through A S S''"
proof -
  obtain cs ds where "set cs \<subseteq> A" "db S' = run_calls cs (db S)" "set ds \<subseteq> A" "db S'' = run_calls ds (db S')"
    using assms by (auto simp: through_def)
  then have "set (cs @ ds) \<subseteq> A \<and> db S'' = run_calls (cs @ ds) (db S)"
    by (simp add: run_calls_append)
  then have "\<exists>es. set es \<subseteq> A \<and> db S'' = run_calls es (db S)" by blast
  with assms show ?thesis by (simp add: through_def)
qed

lemma through_mono: "through A S S' \<Longrightarrow> A \<subseteq> B \<Longrightarrow> through B S S'"
  by (fastforce simp: through_def)

lemma through_call:
  assumes "run_call c (db S) = db S'" and "c \<in> A" and "cache S' = cache S"
  shows "through A S S'"
  using assms by (auto simp: through_def run_calls_def intro!: exI [of _ "[c]"])

lemma through_redis: "db S' = db S \<Longrightarrow> client (cache S') = client (cache S) \<Longrightarrow> through A S S'"
  by (auto simp: through_def run_calls_def intro!: exI [of _ "[]"])

lemma through_attempt:
  assumes "through A S (snd m)" and "\<And>x S1. through A S1 (snd (k x S1))"
  shows "through A S (snd (attempt pre m k))"
proof (cases m)
  case (Pair r S1)
  with assms show ?thesis by (cases r) (auto intro: through_trans)
qed

lemma through_on_redis: "(\<And>R. client (snd (f R)) = client R) \<Longrightarrow> through A S (snd (on_redis f S))"
  by (rule through_redis) simp_all

lemma through_on_pg: "run_call c (db S) = snd (f (db S)) \<Longrightarrow> c \<in> A \<Longrightarrow> through A S (snd (on_pg f S))"
  by (rule through_call) simp_all

lemma through_calls:
  "CallUpsertProvider pr \<in> A \<Longrightarrow> through A S (snd (on_pg (UpsertProvider pr) S))"
  "CallHeartbeat i a l m \<in> A \<Longrightarrow> through A S (snd (on_pg (UpdateHeartbeat i a l m) S))"
  "CallBestProvider c n \<in> A \<Longrightarrow> through A S (snd (on_pg (BestProvider c n) S))"
  "CallInsertJob j \<in> A \<Longrightarrow> through A S (snd (on_pg (InsertJob j) S))"
  "CallAssignJob j' i \<in> A \<Longrightarrow> through A S (snd (on_pg (AssignJob j' i) S))"
  "CallNextPendingJob L i \<in> A \<Longrightarrow> through A S (snd (on_pg (NextPendingJob L i) S))"
  "CallUpsertVM v \<in> A \<Longrightarrow> through A S (snd (on_pg (UpsertVM v) S))"
  "CallGetProvider i \<in> A \<Longrightarrow> through A S (snd (on_pg (GetProvider i) S))"
  "CallListProviders \<in> A \<Longrightarrow> through A S (snd (on_pg ListProviders S))"
  by (rule through_on_pg, rule run_call.simps, assumption)+

lemma through_if: "through A S (snd x) \<Longrightarrow> through A S (snd y) \<Longrightarrow> through A S (snd (if b then x else y))"
  by simp

lemma run_calls_env: "pg_env (run_calls cs p) = pg_env p"
  unfolding run_calls_def by (induction cs arbitrary: p) simp_all

lemma through_ok:
  assumes "through A S S'" and "stores_ok S" shows "stores_ok S'"
  using assms run_calls_wf
  by (auto simp: through_def stores_ok_def run_calls_env ready_redis_def)

locale store_client =
  fixes op :: "'c \<Rightarrow> 'r stores \<Rightarrow> 'a \<times> 'r stores" and may_call :: "pg_call set"
  assumes op_through: "through may_call S (snd (op c S))"
begin

definition serve :: "'c list \<Rightarrow> 'r stores \<Rightarrow> 'r stores" where
  "serve cs = fold (\<lambda>c S. snd (op c S)) cs"

lemma serve_through: "through may_call S (serve cs S)"
  by (induction cs arbitrary: S) (auto simp: serve_def intro: through_trans op_through)

lemma serve_ok: "stores_ok S \<Longrightarrow> stores_ok (serve cs S)"
  by (rule through_ok [OF serve_through])

lemma op_ok: "stores_ok S \<Longrightarrow> stores_ok (snd (op c S))"
  by (rule through_ok [OF op_through])

text \<open>An operation that is silent about a provider leaves it as it was, but for the sweeps.\<close>

lemma serve_silent:
  assumes "\<And>c. c \<in> may_call \<Longrightarrow> \<not> signs_of_life i c" and "provider_at (tabs (db S)) i = Some r"
    and "p_status r = ''offline''"
  shows "\<exists>r'. provider_at (tabs (db (serve cs S))) i = Some r' \<and> p_status r' = ''offline''"
proof -
  obtain ds where "set ds \<subseteq> may_call" "db (serve cs S) = run_calls ds (db S)"
    using serve_through [of S cs] by (auto simp: through_def)
  moreover have "list_all (\<lambda>c. \<not> signs_of_life i c) ds"
    using calculation(1) assms(1) by (auto simp: list_all_iff)
  ultimately show ?thesis
    using run_calls_silent [OF assms(2) refl, of ds] assms(3) by auto
qed

end

definition sample_stores :: "redis_keys stores" where
  "sample_stores = \<lparr>db = sample_pg, cache = sample_redis\<rparr>"

lemma sample_stores_ok: "stores_ok sample_stores"
  by (simp add: stores_ok_def sample_stores_def sample_pg_wf sample_redis_ready)
    (simp add: sample_pg_def)

end
