(* ===== verification/Registry.thy ===== *)
theory Registry
  imports Stores
begin

text \<open>
  The registry of providers (\<open>internal/registry/registry.go\<close>): registration, the only place
  where tokens are checked, heartbeats, and the sweep that takes silent providers offline.
  The id from \<open>uuid.New\<close> and the reading of \<open>time.Now\<close> are arguments.
\<close>

record registry =
  g_wgPub :: string
  g_cpEndpoint :: string

record register_request =
  rq_Token :: string
  rq_WGPubKey :: string
  rq_Location :: string
  rq_Mode :: string
  rq_CPUCores :: int
  rq_MemoryMB :: int
  rq_DiskGB :: int
  rq_MachineID :: string
  rq_BinaryHash :: string

record register_result =
  rs_ProviderID :: string
  rs_WGConfig :: string
  rs_TunnelPort :: int
  rs_WGIP :: string

definition line :: "string \<Rightarrow> string" where
  "line s = s @ [CHR 0x0A]"

text \<open>The key of the provider is not used, as in the source.\<close>

definition buildWGConfig :: "string \<Rightarrow> string \<Rightarrow> string \<Rightarrow> string \<Rightarrow> string" where
  "buildWGConfig providerPubKey providerIP cpPubKey cpEndpoint =
     line ''[Interface]'' @
     line (''Address = '' @ providerIP @ ''/32'') @
     line ''PrivateKey = /etc/wireguard/prov_private'' @
     line '''' @
     line ''[Peer]'' @
     line (''PublicKey = '' @ cpPubKey) @
     line (''Endpoint = '' @ cpEndpoint) @
     line ''AllowedIPs = 10.99.0.0/16'' @
     line ''PersistentKeepalive = 25''"

definition new_provider :: "string \<Rightarrow> int \<Rightarrow> string \<Rightarrow> int \<Rightarrow> register_request \<Rightarrow> provider" where
  "new_provider providerID now wgIP tunnelPort req = zero_provider\<lparr>
     p_id := providerID, p_token := rq_Token req, p_wg_pubkey := rq_WGPubKey req,
     p_wg_ip := wgIP, p_tunnel_port := tunnelPort, p_location := rq_Location req,
     p_mode := rq_Mode req, p_cpu_cores := rq_CPUCores req, p_memory_mb := rq_MemoryMB req,
     p_disk_gb := rq_DiskGB req, p_machine_id := rq_MachineID req,
     p_binary_hash := rq_BinaryHash req, p_status := ProviderOnline, p_registered_at := now\<rparr>"

definition Register :: "registry \<Rightarrow> string \<Rightarrow> int \<Rightarrow> register_request \<Rightarrow> 'r stores \<Rightarrow>
    register_result result \<times> 'r stores" where
  "Register g providerID now req S =
     attempt ''validate token: '' (on_redis (TokenValid (rq_Token req)) S) (\<lambda>valid S1.
     if \<not> valid then (Inl ErrInvalidToken, S1) else
     attempt ''alloc wg ip: '' (on_redis AllocWGIP S1) (\<lambda>wgIP S2.
     attempt ''alloc port: '' (on_redis AllocPort S2) (\<lambda>tunnelPort S3.
     attempt ''upsert provider: ''
       (on_pg (UpsertProvider (new_provider providerID now wgIP tunnelPort req)) S3) (\<lambda>_ S4.
     (Inr \<lparr>rs_ProviderID = providerID,
           rs_WGConfig = buildWGConfig (rq_WGPubKey req) wgIP (g_wgPub g) (g_cpEndpoint g),
           rs_TunnelPort = tunnelPort, rs_WGIP = wgIP\<rparr>, S4)))))"

definition Heartbeat :: "string \<Rightarrow> int \<Rightarrow> rat \<Rightarrow> int \<Rightarrow> 'r stores \<Rightarrow> unit result \<times> 'r stores" where
  "Heartbeat i activeVMs cpuLoad memFree = on_pg (UpdateHeartbeat i activeVMs cpuLoad memFree)"

text \<open>
  The sweeper runs until its context is done. \<open>waits\<close> are the times, in microseconds, that
  pass before each tick it takes; an error is logged and the loop goes on. The result is
  the number of rows that were swept, as it is logged.
\<close>

fun SweepOffline :: "nat list \<Rightarrow> pg \<Rightarrow> int list \<times> pg" where
  "SweepOffline [] p = ([], p)"
| "SweepOffline (w # waits) p =
     (case MarkOffline (90 * 1000000000) (p\<lparr>clock := clock p + int w\<rparr>) of
        (Inl e, p') \<Rightarrow> SweepOffline waits p'
      | (Inr n, p') \<Rightarrow>
          (let (ns, p'') = SweepOffline waits p' in (if n > 0 then n # ns else ns, p'')))"

section \<open>How a registration ends\<close>

definition valid_token :: "string \<Rightarrow> 'r redis \<Rightarrow> bool" where
  "valid_token t R \<longleftrightarrow> t \<noteq> [] \<and> t \<in> tokens_of R"

text \<open>The row a registration writes, with the next address and the next port.\<close>

definition next_provider :: "string \<Rightarrow> int \<Rightarrow> register_request \<Rightarrow> 'r redis \<Rightarrow> provider" where
  "next_provider providerID now req R =
     new_provider providerID now (wg_ip_of (ips_used R + 1)) (port_of (ports_used R + 1)) req"

abbreviation ip_taken :: "redis_keys \<Rightarrow> redis_keys" where
  "ip_taken \<equiv> bump ''dcp:wg_ip_counter''"

abbreviation port_taken :: "redis_keys \<Rightarrow> redis_keys" where
  "port_taken \<equiv> bump ''dcp:port_counter''"

text \<open>The checks and allocations that come before the row is written, on Redis alone.\<close>

lemma Register_cases:
  assumes ok: "ready_redis (cache S)" and run: "Register g i now req S = (r, S')"
  obtains
    (check_failed) e where "r = Inl (Errorf ''validate token: '' e [])" "db S' = db S"
      "keys_of (cache S') = keys_of (cache S)"
  | (rejected) "r = Inl ErrInvalidToken" "\<not> valid_token (rq_Token req) (cache S)" "db S' = db S"
      "keys_of (cache S') = keys_of (cache S)"
  | (no_ip) e where "r = Inl (Errorf ''alloc wg ip: '' e [])" "valid_token (rq_Token req) (cache S)"
      "db S' = db S" "keys_of (cache S') \<in> {keys_of (cache S), ip_taken (keys_of (cache S))}"
  | (no_port) e where "r = Inl (Errorf ''alloc port: '' e [])" "valid_token (rq_Token req) (cache S)"
      "db S' = db S" "keys_of (cache S') \<in> {ip_taken (keys_of (cache S)),
        port_taken (ip_taken (keys_of (cache S)))}"
  | (no_row) e where "r = Inl (Errorf ''upsert provider: '' e [])"
      "valid_token (rq_Token req) (cache S)"
      "UpsertProvider (next_provider i now req (cache S)) (db S) = (Inl e, db S')"
      "keys_of (cache S') = port_taken (ip_taken (keys_of (cache S)))" "ips_used (cache S) + 1 < 2 ^ 63"
  | (registered) "valid_token (rq_Token req) (cache S)"
      "r = Inr \<lparr>rs_ProviderID = i, rs_WGConfig = buildWGConfig (rq_WGPubKey req)
         (wg_ip_of (ips_used (cache S) + 1)) (g_wgPub g) (g_cpEndpoint g),
         rs_TunnelPort = port_of (ports_used (cache S) + 1), rs_WGIP = wg_ip_of (ips_used (cache S) + 1)\<rparr>"
      "UpsertProvider (next_provider i now req (cache S)) (db S) = (Inr (), db S')"
      "keys_of (cache S') = port_taken (ip_taken (keys_of (cache S)))"
      "ips_used (cache S) + 1 < 2 ^ 63" "ports_used (cache S) + 1 < 2 ^ 63"
proof -
  obtain v R1 where t: "TokenValid (rq_Token req) (cache S) = (v, R1)" by fastforce
  obtain a R2 where ip: "AllocWGIP R1 = (a, R2)" by fastforce
  obtain b R3 where port: "AllocPort R2 = (b, R3)" by fastforce
  have r1: "ready_redis R1" and r2: "ready_redis R2"
    using ok t ip ready_frame(7) [of "rq_Token req" "cache S"] ready_frame(4) [of R1] by simp_all
  note tok = TokenValid_effect [OF ok t]
  have k1: "keys_of R1 = keys_of (cache S)" by (rule tok)
  note k2 = AllocWGIP_bump [OF r1 ip, unfolded k1]
  note k3 = AllocPort_bump [OF r2 port]
  note steps = Register_def on_redis_def on_pg_def t ip port
  show thesis
  proof (cases v)
    case (Inl e)
    with run have "r = Inl (Errorf ''validate token: '' e [])" "S' = S\<lparr>cache := R1\<rparr>"
      by (simp_all add: steps)
    with k1 show thesis by (intro check_failed) simp_all
  next
    case v: (Inr valid)
    show thesis
    proof (cases valid)
      case False
      with run v have "r = Inl ErrInvalidToken" "S' = S\<lparr>cache := R1\<rparr>" by (simp_all add: steps)
      with k1 tok(2) [OF v] False show thesis by (intro rejected) (simp_all add: valid_token_def)
    next
      case valid: True
      have val: "valid_token (rq_Token req) (cache S)"
        using tok(2) [OF v] valid by (simp add: valid_token_def)
      show thesis
      proof (cases a)
        case a: (Inl e)
        with run v valid have "r = Inl (Errorf ''alloc wg ip: '' e [])" "S' = S\<lparr>cache := R2\<rparr>"
          by (simp_all add: steps)
        with k2 a show thesis by (intro no_ip [OF _ val]) simp_all
      next
        case a: (Inr wgIP)
        have wg: "wgIP = wg_ip_of (ips_used (cache S) + 1)" "ips_used (cache S) + 1 < 2 ^ 63"
          using AllocWGIP_effect(2) [OF r1 ip a] by (simp_all add: ips_used_def k1)
        show thesis
        proof (cases b)
          case b: (Inl e)
          with run v valid a have "r = Inl (Errorf ''alloc port: '' e [])" "S' = S\<lparr>cache := R3\<rparr>"
            by (simp_all add: steps)
          with k2 k3 a b show thesis by (intro no_port [OF _ val]) simp_all
        next
          case b: (Inr tp)
          have tp: "tp = port_of (ports_used (cache S) + 1)" "ports_used (cache S) + 1 < 2 ^ 63"
            using AllocPort_effect(2) [OF r2 port b] k2 a by (simp_all add: ports_used_def)
          have keys: "keys_of R3 = port_taken (ip_taken (keys_of (cache S)))"
            using k2 k3 a b by simp
          obtain u p where up: "UpsertProvider (next_provider i now req (cache S)) (db S) = (u, p)"
            by fastforce
          then have up': "UpsertProvider (new_provider i now wgIP tp req) (db S) = (u, p)"
            by (simp add: next_provider_def wg tp)
          have run: "attempt ''upsert provider: '' (u, S\<lparr>cache := R3, db := p\<rparr>) (\<lambda>_ S4.
              (Inr \<lparr>rs_ProviderID = i, rs_WGConfig = buildWGConfig (rq_WGPubKey req) wgIP (g_wgPub g)
                (g_cpEndpoint g), rs_TunnelPort = tp, rs_WGIP = wgIP\<rparr>, S4)) = (r, S')"
            using run v valid a b by (simp add: steps up')
          show thesis
          proof (cases u)
            case (Inl e)
            with run up keys wg show thesis by (intro no_row [OF _ val]) auto
          next
            case (Inr x)
            with run up keys wg tp show thesis by (intro registered [OF val]) auto
          qed
        qed
      qed
    qed
  qed
qed

section \<open>The registry as a client of the stores\<close>

interpretation registering: store_client "\<lambda>(i, now, req). Register g i now req"
    "range CallUpsertProvider" for g
proof (unfold_locales, clarify)
  fix S :: "'r stores" and i now req
  show "through (range CallUpsertProvider) S (snd (Register g i now req S))"
    unfolding Register_def
    by (intro through_attempt through_if through_on_redis through_calls) simp_all
qed

interpretation heartbeats: store_client "\<lambda>(i, a, c, m). Heartbeat i a c m"
    "{c. \<exists>i a l m. c = CallHeartbeat i a l m}"
  by unfold_locales (auto simp: Heartbeat_def intro!: through_calls)

text \<open>A failed upsert has changed the tables only if its answer was lost.\<close>

lemma UpsertProvider_failed:
  assumes "UpsertProvider pr p = (Inl e, q)"
  shows "tabs q = tabs p \<or> (\<exists>m. e = NetErr m) \<and> (\<exists>u. sql_upsert_provider pr (pg_env p) (clock p) (tabs p) = (Inr u, tabs q))"
proof (cases "tabs q = tabs p")
  case False
  obtain u where u: "sql_upsert_provider pr (pg_env p) (clock p) (tabs p) = (Inr u, tabs q)"
    using upsert_provider.exec_atomic [OF assms [unfolded UpsertProvider_def] False] by blast
  with assms have "\<exists>m. e = NetErr m"
    by (auto simp: UpsertProvider_def exec_eq split: outcome.splits)
  with u show ?thesis by blast
qed simp

lemma sql_upsert_provider_new:
  assumes "sql_upsert_provider pr E now t = (Inr u, t')" and "p_id pr \<notin> p_id ` set (providers t)"
  shows "t' = t\<lparr>providers := providers t @ [inserted_provider now pr]\<rparr>"
  using assms by (auto simp: sql_upsert_provider_def dest!: with_params_Inr)

lemma next_provider_sel [simp]:
  "p_id (next_provider i now req R) = i" "p_token (next_provider i now req R) = rq_Token req"
  "p_wg_ip (next_provider i now req R) = wg_ip_of (ips_used R + 1)"
  "p_tunnel_port (next_provider i now req R) = port_of (ports_used R + 1)"
  by (simp_all add: next_provider_def new_provider_def)


lemma Register_Inr:
  assumes "ready_redis (cache S)" and "i \<notin> p_id ` set (providers (tabs (db S)))"
    and "Register g i now req S = (Inr res, S')"
  shows "rq_Token req \<noteq> [] \<and> rq_Token req \<in> tokens_of (cache S) \<and>
    res = \<lparr>rs_ProviderID = i, rs_WGConfig = buildWGConfig (rq_WGPubKey req)
         (wg_ip_of (ips_used (cache S) + 1)) (g_wgPub g) (g_cpEndpoint g),
       rs_TunnelPort = port_of (ports_used (cache S) + 1),
       rs_WGIP = wg_ip_of (ips_used (cache S) + 1)\<rparr> \<and>
    tabs (db S') = (tabs (db S))\<lparr>providers := providers (tabs (db S)) @
      [inserted_provider (clock (db S)) (new_provider i now (rs_WGIP res) (rs_TunnelPort res) req)]\<rparr> \<and>
    ips_used (cache S') = ips_used (cache S) + 1 \<and> ports_used (cache S') = ports_used (cache S) + 1 \<and>
    tokens_of (cache S') = tokens_of (cache S) \<and> queue_of (cache S') = queue_of (cache S)"
  using assms(1,3)
proof (cases rule: Register_cases)
  case registered
  from registered(3) have "sql_upsert_provider (next_provider i now req (cache S)) (pg_env (db S))
      (clock (db S)) (tabs (db S)) = (Inr (), tabs (db S'))"
    by (simp add: UpsertProvider_def exec_Inr)
  from sql_upsert_provider_new [OF this] assms(2)
  have "tabs (db S') = (tabs (db S))\<lparr>providers := providers (tabs (db S)) @
      [inserted_provider (clock (db S)) (next_provider i now req (cache S))]\<rparr>" by simp
  moreover have "ips_used (cache S') = ips_used (cache S) + 1" "ports_used (cache S') = ports_used (cache S) + 1"
    "tokens_of (cache S') = tokens_of (cache S)" "queue_of (cache S') = queue_of (cache S)"
    by (simp_all add: registered(4) ips_used_def ports_used_def tokens_of_def queue_of_def fun_eq_iff)
  ultimately show ?thesis
    using registered(1,2) by (simp add: valid_token_def next_provider_def)
qed simp_all


section \<open>Properties\<close>

text \<open>
  Result (registration needs a token). Without a token that was issued and not revoked, a
  registration fails, with \<open>ErrInvalidToken\<close> or because the token could not be looked up,
  and neither the database nor any key of Redis has changed: no address, port or row is spent.
\<close>

theorem Register_needs_token:
  assumes "ready_redis (cache S)" and "rq_Token req = [] \<or> rq_Token req \<notin> tokens_of (cache S)"
    and "Register g i now req S = (r, S')"
  shows "(r = Inl ErrInvalidToken \<or> (\<exists>e. r = Inl (Errorf ''validate token: '' e []))) \<and>
    db S' = db S \<and> keys_of (cache S') = keys_of (cache S)"
  using assms(1,3,2) by (cases rule: Register_cases) (auto simp: valid_token_def)

definition sample_request :: "string \<Rightarrow> register_request" where
  "sample_request tok = \<lparr>rq_Token = tok, rq_WGPubKey = ''pub'', rq_Location = ''eu'', rq_Mode = ''vm'',
     rq_CPUCores = 8, rq_MemoryMB = 16384, rq_DiskGB = 100, rq_MachineID = ''m'', rq_BinaryHash = ''h''\<rparr>"

definition sample_registry :: registry where
  "sample_registry = \<lparr>g_wgPub = ''cp'', g_cpEndpoint = ''1.2.3.4:51820''\<rparr>"

theorem Register_needs_token_witness:
  "\<exists>S'. Register sample_registry ''n'' 0 (sample_request ''bad'') sample_stores = (Inl ErrInvalidToken, S') \<and>
     db S' = db sample_stores"
proof -
  let ?R = "Register sample_registry ''n'' 0 (sample_request ''bad'') sample_stores"
  have r: "ready_redis (cache sample_stores)" using sample_stores_ok by (simp add: stores_ok_def)
  have "fst ?R = Inl ErrInvalidToken" by code_simp
  then have run: "?R = (Inl ErrInvalidToken, snd ?R)" by (metis prod.collapse)
  have "rq_Token (sample_request ''bad'') \<notin> tokens_of (cache sample_stores)"
    by (simp add: sample_stores_def sample_redis_def tokens_of_def keys_of_def memory_client_def)
  with Register_needs_token [OF r _ run] run show ?thesis by blast
qed

text \<open>
  Result (registration). A registration under a new id that succeeds had a valid token, and
  returns the next WireGuard address and the next port with the configuration built from
  them; exactly one row is added, online, with what the request said, and the two counters
  move on by one while tokens and queues stay.
\<close>

theorem Register_success:
  assumes "ready_redis (cache S)" and "i \<notin> p_id ` set (providers (tabs (db S)))"
    and "Register g i now req S = (Inr res, S')"
  shows "rq_Token req \<noteq> [] \<and> rq_Token req \<in> tokens_of (cache S) \<and>
    res = \<lparr>rs_ProviderID = i, rs_WGConfig = buildWGConfig (rq_WGPubKey req)
         (wg_ip_of (ips_used (cache S) + 1)) (g_wgPub g) (g_cpEndpoint g),
       rs_TunnelPort = port_of (ports_used (cache S) + 1),
       rs_WGIP = wg_ip_of (ips_used (cache S) + 1)\<rparr> \<and>
    tabs (db S') = (tabs (db S))\<lparr>providers := providers (tabs (db S)) @
      [inserted_provider (clock (db S)) (new_provider i now (rs_WGIP res) (rs_TunnelPort res) req)]\<rparr> \<and>
    ips_used (cache S') = ips_used (cache S) + 1 \<and> ports_used (cache S') = ports_used (cache S) + 1 \<and>
    tokens_of (cache S') = tokens_of (cache S) \<and> queue_of (cache S') = queue_of (cache S)"
  by (rule Register_Inr [OF assms])

theorem Register_success_witness:
  "\<exists>res S'. Register sample_registry ''n'' 7 (sample_request ''t'')
       (snd (on_redis (AddToken ''t'') sample_stores)) = (Inr res, S') \<and>
     rs_WGIP res = ''10.99.1.1'' \<and> rs_TunnelPort res = 40001 \<and> length (providers (tabs (db S'))) = 3"
proof -
  let ?S = "snd (on_redis (AddToken ''t'') sample_stores)"
  let ?R = "Register sample_registry ''n'' 7 (sample_request ''t'') ?S"
  have r: "ready_redis (cache ?S)" using sample_stores_ok by (simp add: stores_ok_def)
  have "\<not> isl (fst ?R)" by code_simp
  then obtain res where "fst ?R = Inr res" by (metis sum.collapse(2))
  then have run: "?R = (Inr res, snd ?R)" by (metis prod.collapse)
  have "ips_used (cache ?S) = 0" "ports_used (cache ?S) = 0" by code_simp+
  moreover have "wg_ip_of 1 = ''10.99.1.1''" "port_of 1 = 40001" by code_simp+
  moreover have "''n'' \<notin> p_id ` set (providers (tabs (db ?S)))"
    "length (providers (tabs (db ?S))) = 2" by code_simp+
  ultimately show ?thesis using Register_success [OF r _ run] run by (intro exI conjI) auto
qed

text \<open>
  Result (failed registration). A registration under a new id that fails may have spent one
  address and one port, which are never given back, but it has not touched tokens or
  queues, and it leaves the tables as they were, except when the answer to the last
  statement was lost: then the row is there although the caller was told otherwise.
\<close>

theorem Register_failure:
  assumes "ready_redis (cache S)" and "i \<notin> p_id ` set (providers (tabs (db S)))"
    and "Register g i now req S = (Inl e, S')"
  shows "ips_used (cache S') - ips_used (cache S) \<in> {0, 1} \<and>
    ports_used (cache S') - ports_used (cache S) \<in> {0, 1} \<and>
    tokens_of (cache S') = tokens_of (cache S) \<and> queue_of (cache S') = queue_of (cache S) \<and>
    (tabs (db S') = tabs (db S) \<or>
     (\<exists>m. e = Errorf ''upsert provider: '' (NetErr m) []) \<and>
     tabs (db S') = (tabs (db S))\<lparr>providers := providers (tabs (db S)) @
      [inserted_provider (clock (db S)) (new_provider i now (wg_ip_of (ips_used (cache S) + 1))
        (port_of (ports_used (cache S) + 1)) req)]\<rparr>)"
proof -
  have keys: "keys_of (cache S') \<in> {keys_of (cache S), ip_taken (keys_of (cache S)),
      port_taken (ip_taken (keys_of (cache S)))}"
    using assms(1,3) by (cases rule: Register_cases) auto
  have "tabs (db S') = tabs (db S) \<or> (\<exists>m. e = Errorf ''upsert provider: '' (NetErr m) []) \<and>
      tabs (db S') = (tabs (db S))\<lparr>providers := providers (tabs (db S)) @
        [inserted_provider (clock (db S)) (next_provider i now req (cache S))]\<rparr>"
    using assms(1,3)
  proof (cases rule: Register_cases)
    case (no_row e')
    from UpsertProvider_failed [OF this(3)] show ?thesis
      using sql_upsert_provider_new [of "next_provider i now req (cache S)"] assms(2) no_row(1)
      by auto
  qed simp_all
  then show ?thesis
    using keys by (auto simp: next_provider_def ips_used_def ports_used_def tokens_of_def
        queue_of_def fun_eq_iff)
qed

definition lossy_stores :: "redis_keys stores" where
  "lossy_stores = snd (on_redis (AddToken ''t'') (sample_stores\<lparr>db := sample_pg\<lparr>outcomes := [Unacked ''reset'']\<rparr>\<rparr>))"

theorem Register_failure_witness:
  "\<exists>S'. Register sample_registry ''n'' 7 (sample_request ''t'') lossy_stores =
       (Inl (Errorf ''upsert provider: '' (NetErr ''reset'') []), S') \<and>
     tokens_of (cache S') = {''t''} \<and> length (providers (tabs (db S'))) = 3"
proof -
  let ?R = "Register sample_registry ''n'' 7 (sample_request ''t'') lossy_stores"
  have r: "ready_redis (cache lossy_stores)"
    using sample_stores_ok by (simp add: stores_ok_def lossy_stores_def)
  have "fst ?R = Inl (Errorf ''upsert provider: '' (NetErr ''reset'') [])" by code_simp
  then have run: "?R = (Inl (Errorf ''upsert provider: '' (NetErr ''reset'') []), snd ?R)"
    by (metis prod.collapse)
  have "''n'' \<notin> p_id ` set (providers (tabs (db lossy_stores)))" by code_simp
  from Register_failure [OF r this run] have "tokens_of (cache (snd ?R)) = tokens_of (cache lossy_stores)"
    by blast
  moreover have "tokens_of (cache lossy_stores) = {''t''}"
    by (simp add: lossy_stores_def on_redis_def AddToken_def command_def sample_stores_def
        sample_redis_def memory_client_def tokens_of_def keys_of_def)
  moreover have "length (providers (tabs (db (snd ?R)))) = 3" by code_simp
  ultimately show ?thesis using run by blast
qed


subsection \<open>The sweeper\<close>

lemma MarkOffline_keeps:
  "map p_last_seen (providers (tabs (snd (MarkOffline d p)))) = map p_last_seen (providers (tabs p))"
  unfolding MarkOffline_def
  by (rule exec_rule [where P = "\<lambda>t. map p_last_seen (providers t) = map p_last_seen (providers (tabs p))"])
    (simp_all add: sql_mark_offline_def map_update_where)

lemma MarkOffline_outcomes:
  "outcomes (snd (MarkOffline d p)) = drop 1 (outcomes p)" "clock (snd (MarkOffline d p)) = clock p"
  by (auto simp: MarkOffline_def exec_eq next_outcome_def split: prod.splits outcome.splits list.splits)

lemma MarkOffline_answers:
  assumes "outcomes p = [] \<or> hd (outcomes p) = Served"
  obtains n where "fst (MarkOffline d p) = Inr n"
  using assms
  by (cases "outcomes p") (auto simp: MarkOffline_def exec_def next_outcome_def sql_mark_offline_def)

lemma SweepOffline_Cons:
  "snd (SweepOffline (w # waits) p) =
     snd (SweepOffline waits (snd (MarkOffline (90 * 1000000000) (p\<lparr>clock := clock p + int w\<rparr>))))"
  by (simp split: prod.splits sum.splits)

declare SweepOffline.simps(2) [simp del]

lemma SweepOffline_keeps:
  "clock (snd (SweepOffline waits p)) = clock p + int (sum_list waits) \<and>
   map p_last_seen (providers (tabs (snd (SweepOffline waits p)))) = map p_last_seen (providers (tabs p))"
  by (induction waits arbitrary: p)
    (simp_all add: SweepOffline_Cons MarkOffline_keeps MarkOffline_outcomes)

lemma sql_mark_offline_fresh:
  assumes "sql_mark_offline secs E now t = (Inr n, t')" and "r \<in> set (providers t')"
    and "p_status r = ''online''"
  shows "now - secs * 1000000 \<le> p_last_seen r"
  using assms by (auto simp: sql_mark_offline_def update_where_def stale_def split: if_splits)

text \<open>The tick that ends the run is answered.\<close>

definition last_answered :: "nat \<Rightarrow> outcome list \<Rightarrow> bool" where
  "last_answered n ocs \<longleftrightarrow> 0 < n \<and> (length ocs < n \<or> ocs ! (n - 1) = Served)"

lemma last_answered_Suc:
  "last_answered (Suc n) ocs \<Longrightarrow> 0 < n \<Longrightarrow> last_answered n (drop 1 ocs)"
  by (cases ocs; cases n) (auto simp: last_answered_def)

text \<open>
  Result (sweeper). After any number of ticks of the sweeper, some of which may have failed, of
  which the last was answered, no provider is online that has not been seen for 90 seconds,
  and the sweeper has changed no time of a last heartbeat: a failed tick is made good by the next.
\<close>

theorem SweepOffline_catches_up:
  assumes "last_answered (length waits) (outcomes p)"
    and "SweepOffline waits p = (counts, q)"
  shows "clock q = clock p + int (sum_list waits) \<and>
    map p_last_seen (providers (tabs q)) = map p_last_seen (providers (tabs p)) \<and>
    (\<forall>r \<in> set (providers (tabs q)). p_status r = ''online'' \<longrightarrow> clock q - 90 * 1000000 \<le> p_last_seen r)"
proof -
  have "\<forall>r \<in> set (providers (tabs q)). p_status r = ''online'' \<longrightarrow> clock q - 90 * 1000000 \<le> p_last_seen r"
    using assms(1) arg_cong [where f = snd, OF assms(2)]
  proof (induction waits arbitrary: p)
    case (Cons w waits)
    let ?p = "p\<lparr>clock := clock p + int w\<rparr>"
    let ?m = "MarkOffline (90 * 1000000000) ?p"
    show ?case
    proof (cases "waits = []")
      case True
      with Cons.prems(1) have "outcomes ?p = [] \<or> hd (outcomes ?p) = Served"
        by (cases "outcomes p") (auto simp: last_answered_def)
      then obtain n where "fst ?m = Inr n" by (rule MarkOffline_answers)
      then have "?m = (Inr n, snd ?m)" by (metis prod.collapse)
      then have "sql_mark_offline 90 (pg_env ?p) (clock ?p) (tabs ?p) = (Inr n, tabs (snd ?m))"
        by (auto simp: MarkOffline_def sdiv_nonneg dest: exec_Inr)
      moreover have "q = snd ?m" using Cons.prems(2) True by (simp add: SweepOffline_Cons)
      ultimately show ?thesis
        using MarkOffline_outcomes(2) [of "90 * 1000000000" ?p] sql_mark_offline_fresh by fastforce
    next
      case False
      with Cons.prems(1) have "last_answered (length waits) (outcomes (snd ?m))"
        using last_answered_Suc [of "length waits" "outcomes p"] by (simp add: MarkOffline_outcomes)
      from Cons.IH [OF this] Cons.prems(2) show ?thesis by (simp add: SweepOffline_Cons)
    qed
  qed (simp add: last_answered_def)
  with SweepOffline_keeps [of waits p] assms(2) show ?thesis by simp
qed

theorem SweepOffline_catches_up_witness:
  "\<exists>q. SweepOffline [60000000, 60000000] (sample_pg\<lparr>outcomes := [Refused ''down'']\<rparr>) = ([2], q) \<and>
     clock q = 620000000 \<and> (\<forall>r \<in> set (providers (tabs q)). p_status r = ''online'' \<longrightarrow> 530000000 \<le> p_last_seen r)"
proof -
  let ?p = "sample_pg\<lparr>outcomes := [Refused ''down'']\<rparr>"
  let ?w = "[60000000, 60000000]"
  have "fst (SweepOffline ?w ?p) = [2]"
    by (simp add: SweepOffline.simps MarkOffline_def exec_def next_outcome_def sql_mark_offline_def
        stale_def sample_defs sdiv_nonneg)
  then have run: "SweepOffline ?w ?p = ([2], snd (SweepOffline ?w ?p))" by (metis prod.collapse)
  have a: "last_answered (length ?w) (outcomes ?p)" by (simp add: last_answered_def)
  have "clock ?p = 500000000" by (simp add: sample_pg_def)
  with SweepOffline_catches_up [OF a run] have c: "clock (snd (SweepOffline ?w ?p)) = 620000000"
    by simp
  from SweepOffline_catches_up [OF a run, unfolded c] have "\<forall>r \<in> set (providers (tabs (snd (SweepOffline ?w ?p)))).
      p_status r = ''online'' \<longrightarrow> 530000000 \<le> p_last_seen r" by simp
  with run c show ?thesis by blast
qed

end
