(* ===== verification/Scheduler.thy ===== *)
theory Scheduler
  imports Registry
begin

text \<open>
  The scheduler (\<open>internal/scheduler/scheduler.go\<close>): a deploy request is placed on the best
  provider, recorded, assigned and announced on the provider's queue; a poll waits for an
  announcement and claims a job. The id from \<open>uuid.New\<close> is an argument. A blocked poll is
  taken at the moment it is answered.
\<close>

record deploy_request =
  dq_ImageURL :: string
  dq_CPUCores :: int
  dq_MemoryMB :: int
  dq_DiskGB :: int
  dq_SSHPubKey :: string
  dq_Env :: env_map

record deploy_result =
  ds_JobID :: string
  ds_ProviderID :: string

text \<open>\<open>CreatedAt\<close> and \<open>Status\<close> are not among the fields that are set.\<close>

definition new_job :: "string \<Rightarrow> string \<Rightarrow> deploy_request \<Rightarrow> job" where
  "new_job jobID providerID req =
     \<lparr>j_id = jobID, j_provider_id = providerID, j_image_url = dq_ImageURL req,
      j_cpu_cores = dq_CPUCores req, j_memory_mb = dq_MemoryMB req, j_disk_gb = dq_DiskGB req,
      j_ssh_pubkey = dq_SSHPubKey req, j_env = dq_Env req, j_status = [],
      j_created_at = zero_time\<rparr>"

definition no_provider :: "deploy_request \<Rightarrow> go_error" where
  "no_provider req = Plain (''no provider available with '' @ show_int (dq_CPUCores req) @
     '' CPU / '' @ show_int (dq_MemoryMB req) @ '' MB RAM'')"

definition Submit :: "string \<Rightarrow> deploy_request \<Rightarrow> 'r stores \<Rightarrow> deploy_result result \<times> 'r stores" where
  "Submit jobID req S =
     (case on_pg (BestProvider (dq_CPUCores req) (dq_MemoryMB req)) S of
        (Inl e, S1) \<Rightarrow>
          if e = ErrNoRows then (Inl (no_provider req), S1)
          else (Inl (Errorf ''find provider: '' e []), S1)
      | (Inr provider, S1) \<Rightarrow>
          attempt ''insert job: '' (on_pg (InsertJob (new_job jobID (p_id provider) req)) S1) (\<lambda>_ S2.
          attempt ''assign job: '' (on_pg (AssignJob jobID (p_id provider)) S2) (\<lambda>_ S3.
          attempt ''push job to redis: '' (on_redis (PushJob (p_id provider) jobID) S3) (\<lambda>_ S4.
          (Inr \<lparr>ds_JobID = jobID, ds_ProviderID = p_id provider\<rparr>, S4)))))"

text \<open>The id that was popped is only tested for being empty.\<close>

definition PollForProvider :: "string set \<Rightarrow> string \<Rightarrow> int \<Rightarrow> 'r stores \<Rightarrow>
    (job option \<times> go_error option) \<times> 'r stores" where
  "PollForProvider locked providerID waitSec S =
     (case on_redis (PopJob providerID waitSec) S of
        (Inl e, S1) \<Rightarrow> ((None, Some e), S1)
      | (Inr jobID, S1) \<Rightarrow>
          if jobID = '''' then ((None, None), S1)
          else on_pg (NextPendingJob locked providerID) S1)"


section \<open>The scheduler as a client of the stores\<close>

definition submit_calls :: "pg_call set" where
  "submit_calls = {c. (\<exists>n m. c = CallBestProvider n m) \<or> (\<exists>j. c = CallInsertJob j) \<or>
     (\<exists>j i. c = CallAssignJob j i)}"

lemma Submit_through: "through submit_calls S (snd (Submit jobID req S))"
proof -
  have "through submit_calls S (snd (on_pg (BestProvider (dq_CPUCores req) (dq_MemoryMB req)) S))"
    by (rule through_calls) (simp add: submit_calls_def)
  moreover have "through submit_calls S1 (snd (attempt ''insert job: '' (on_pg (InsertJob (new_job jobID pr req)) S1) (\<lambda>_ S2.
      attempt ''assign job: '' (on_pg (AssignJob jobID pr) S2) (\<lambda>_ S3.
      attempt ''push job to redis: '' (on_redis (PushJob pr jobID) S3) (\<lambda>_ S4.
      (Inr \<lparr>ds_JobID = jobID, ds_ProviderID = pr\<rparr>, S4))))))" for S1 :: "'r stores" and pr
    by (intro through_attempt through_on_redis through_calls) (simp_all add: submit_calls_def)
  ultimately show ?thesis
    by (cases "on_pg (BestProvider (dq_CPUCores req) (dq_MemoryMB req)) S")
      (auto simp: Submit_def split: sum.splits intro: through_trans)
qed

interpretation submitting: store_client "\<lambda>(jobID, req). Submit jobID req" submit_calls
  by unfold_locales (auto simp: Submit_through)

lemma PollForProvider_through:
  "through {CallNextPendingJob locked i} S (snd (PollForProvider locked i w S))"
proof -
  have "through {CallNextPendingJob locked i} S (snd (on_redis (PopJob i w) S))"
    by (rule through_on_redis) simp
  moreover have "through {CallNextPendingJob locked i} S1 (snd (on_pg (NextPendingJob locked i) S1))"
    for S1 :: "'r stores"
    by (rule through_calls) simp
  ultimately show ?thesis
    by (cases "on_redis (PopJob i w) S")
      (auto simp: PollForProvider_def split: sum.splits intro: through_trans)
qed

interpretation polling: store_client "\<lambda>(locked, w). PollForProvider locked i w"
    "{c. \<exists>l. c = CallNextPendingJob l i}" for i
  by unfold_locales (auto intro: through_mono [OF PollForProvider_through])


section \<open>How a submission ends\<close>

abbreviation queued :: "string \<Rightarrow> string \<Rightarrow> redis_keys \<Rightarrow> redis_keys" where
  "queued providerID jobID ks \<equiv> ks\<lparr>lists := (lists ks)(jobQueueKey providerID :=
     jobID # lists ks (jobQueueKey providerID))\<rparr>"

text \<open>The row as \<open>InsertJob\<close> leaves it and as \<open>AssignJob\<close> leaves it.\<close>

definition scheduled_job :: "string \<Rightarrow> string \<Rightarrow> deploy_request \<Rightarrow> job" where
  "scheduled_job jobID providerID req =
     (new_job jobID providerID req)\<lparr>j_provider_id := providerID, j_status := ''scheduled''\<rparr>"

lemma Submit_cases:
  assumes "Submit jobID req S = (r, S')"
  obtains
    (unplaced) e where "BestProvider (dq_CPUCores req) (dq_MemoryMB req) (db S) = (Inl e, db S')"
      "r = Inl (if e = ErrNoRows then no_provider req else Errorf ''find provider: '' e [])"
      "cache S' = cache S"
  | (no_row) pr p e where "BestProvider (dq_CPUCores req) (dq_MemoryMB req) (db S) = (Inr pr, p)"
      "InsertJob (new_job jobID (p_id pr) req) p = (Inl e, db S')"
      "r = Inl (Errorf ''insert job: '' e [])" "cache S' = cache S"
  | (unassigned) pr p p' e where
      "BestProvider (dq_CPUCores req) (dq_MemoryMB req) (db S) = (Inr pr, p)"
      "InsertJob (new_job jobID (p_id pr) req) p = (Inr (), p')"
      "AssignJob jobID (p_id pr) p' = (Inl e, db S')"
      "r = Inl (Errorf ''assign job: '' e [])" "cache S' = cache S"
  | (assigned) pr p p' u where
      "BestProvider (dq_CPUCores req) (dq_MemoryMB req) (db S) = (Inr pr, p)"
      "InsertJob (new_job jobID (p_id pr) req) p = (Inr (), p')"
      "AssignJob jobID (p_id pr) p' = (Inr (), db S')"
      "PushJob (p_id pr) jobID (cache S) = (u, cache S')"
      "r = (case u of Inl e \<Rightarrow> Inl (Errorf ''push job to redis: '' e [])
            | Inr _ \<Rightarrow> Inr \<lparr>ds_JobID = jobID, ds_ProviderID = p_id pr\<rparr>)"
proof -
  obtain b p where b: "BestProvider (dq_CPUCores req) (dq_MemoryMB req) (db S) = (b, p)" by fastforce
  note steps = Submit_def on_pg_def on_redis_def b
  show thesis
  proof (cases b)
    case (Inl e)
    with assms have "r = Inl (if e = ErrNoRows then no_provider req else Errorf ''find provider: '' e [])"
      "S' = S\<lparr>db := p\<rparr>" by (auto simp: steps split: if_splits)
    with b Inl show thesis by (intro unplaced) simp_all
  next
    case b': (Inr pr)
    obtain i p' where i: "InsertJob (new_job jobID (p_id pr) req) p = (i, p')" by fastforce
    show thesis
    proof (cases i)
      case (Inl e)
      with assms b' i have "r = Inl (Errorf ''insert job: '' e [])" "S' = S\<lparr>db := p'\<rparr>"
        by (simp_all add: steps)
      with b b' i Inl show thesis by (intro no_row) simp_all
    next
      case i': (Inr x)
      obtain a p'' where a: "AssignJob jobID (p_id pr) p' = (a, p'')" by fastforce
      show thesis
      proof (cases a)
        case (Inl e)
        with assms b' i i' a have "r = Inl (Errorf ''assign job: '' e [])" "S' = S\<lparr>db := p''\<rparr>"
          by (simp_all add: steps)
        with b b' i i' a Inl show thesis by (intro unassigned) simp_all
      next
        case a': (Inr y)
        obtain u R where u: "PushJob (p_id pr) jobID (cache S) = (u, R)" by fastforce
        with assms b' i i' a a' have "S' = S\<lparr>db := p'', cache := R\<rparr>"
          "r = (case u of Inl e \<Rightarrow> Inl (Errorf ''push job to redis: '' e [])
            | Inr _ \<Rightarrow> Inr \<lparr>ds_JobID = jobID, ds_ProviderID = p_id pr\<rparr>)"
          by (cases u; simp add: steps)+
        with b b' i i' a a' u show thesis by (intro assigned) simp_all
      qed
    qed
  qed
qed

text \<open>What the steps of a submission leave, answered or not.\<close>

lemma InsertJob_Inr:
  assumes "InsertJob j p = (Inr u, p')"
  shows "j_id j \<notin> j_id ` set (jobs (tabs p))"
    and "tabs p' = (tabs p)\<lparr>jobs := jobs (tabs p) @ [inserted_job j]\<rparr>"
  using exec_Inr [OF assms [unfolded InsertJob_def]]
  by (auto simp: sql_insert_job_def dest!: with_params_Inr split: if_splits)

lemma AssignJob_Inr:
  assumes "AssignJob j i p = (Inr u, p')"
  shows "tabs p' = (tabs p)\<lparr>jobs := update_where (\<lambda>k. j_id k = j)
    (\<lambda>k. k\<lparr>j_provider_id := i, j_status := ''scheduled''\<rparr>) (jobs (tabs p))\<rparr>"
  using exec_Inr [OF assms [unfolded AssignJob_def]]
  by (auto simp: sql_assign_job_def dest!: with_params_Inr)

lemma InsertJob_Inl:
  assumes "InsertJob j p = (Inl e, p')"
  shows "tabs p' = tabs p \<or> tabs p' = (tabs p)\<lparr>jobs := jobs (tabs p) @ [inserted_job j]\<rparr>"
proof (cases "tabs p' = tabs p")
  case False
  obtain x where "sql_insert_job j (pg_env p) (clock p) (tabs p) = (Inr x, tabs p')"
    by (rule insert_job.exec_atomic [OF assms [unfolded InsertJob_def] False])
  then show ?thesis
    by (auto simp: sql_insert_job_def dest!: with_params_Inr split: if_splits)
qed simp

lemma AssignJob_Inl:
  assumes "AssignJob j i p = (Inl e, p')"
  shows "tabs p' = tabs p \<or> tabs p' = (tabs p)\<lparr>jobs := update_where (\<lambda>k. j_id k = j)
    (\<lambda>k. k\<lparr>j_provider_id := i, j_status := ''scheduled''\<rparr>) (jobs (tabs p))\<rparr>"
proof (cases "tabs p' = tabs p")
  case False
  obtain x where "sql_assign_job j i (pg_env p) (clock p) (tabs p) = (Inr x, tabs p')"
    by (rule assign_job.exec_atomic [OF assms [unfolded AssignJob_def] False])
  then show ?thesis
    by (auto simp: sql_assign_job_def dest!: with_params_Inr)
qed simp

definition pending_row :: "string \<Rightarrow> deploy_request \<Rightarrow> job" where
  "pending_row jobID req = inserted_job (new_job jobID [] req)"

lemma inserted_new_job: "inserted_job (new_job jobID i req) = pending_row jobID req"
  by (simp add: pending_row_def inserted_job_def new_job_def)

lemma new_job_id [simp]: "j_id (new_job jobID i req) = jobID"
  by (simp add: new_job_def)

lemma assign_inserted:
  assumes "jobID \<notin> j_id ` set js"
  shows "update_where (\<lambda>k. j_id k = jobID) (\<lambda>k. k\<lparr>j_provider_id := i, j_status := ''scheduled''\<rparr>)
      (js @ [pending_row jobID req]) = js @ [scheduled_job jobID i req]"
proof -
  have "update_where (\<lambda>k. j_id k = jobID) (\<lambda>k. k\<lparr>j_provider_id := i, j_status := ''scheduled''\<rparr>) js = js"
    using assms by (intro update_where_none) auto
  then show ?thesis
    by (simp add: update_where_def pending_row_def inserted_job_def scheduled_job_def new_job_def)
qed

lemma BestProvider_tabs: "BestProvider c m p = (r, q) \<Longrightarrow> tabs q = tabs p"
  using best_provider.exec_part [of c m p] by (simp add: BestProvider_def)

lemma BestProvider_Inr:
  assumes "BestProvider c m p = (Inr pr, q)" and "pg_ok (pg_env p)"
  obtains r where "r \<in> set (providers (tabs p))" "eligible c m r" "p_id pr = p_id r"
    "\<And>r'. r' \<in> set (providers (tabs p)) \<Longrightarrow> eligible c m r' \<Longrightarrow> p_mem_free_mb r' \<le> p_mem_free_mb r"
proof -
  from assms(1) have "sql_best_provider c m (pg_env p) (clock p) (tabs p) = (Inr pr, tabs q)"
    by (simp add: BestProvider_def exec_Inr)
  then show thesis
    by (rule sql_best_provider_Inr [OF _ assms(2)]) (rule that, simp_all)
qed

lemma PushJob_queue:
  assumes "ready_redis R" and "PushJob i j R = (u, R')"
  shows "case u of Inr _ \<Rightarrow> queue_of R' = (queue_of R)(i := queue_of R i @ [j])
    | Inl _ \<Rightarrow> queue_of R' \<in> {queue_of R, (queue_of R)(i := queue_of R i @ [j])}"
  using provider_queue.push_answered [OF assms(1)] provider_queue.push_failed [OF assms(1)] assms(2)
  by (cases u) auto


lemma Submit_Inr:
  assumes "stores_ok S" and "Submit jobID req S = (Inr res, S')"
  shows "\<exists>r \<in> set (providers (tabs (db S))). eligible (dq_CPUCores req) (dq_MemoryMB req) r \<and>
    (\<forall>r' \<in> set (providers (tabs (db S))). eligible (dq_CPUCores req) (dq_MemoryMB req) r' \<longrightarrow>
       p_mem_free_mb r' \<le> p_mem_free_mb r) \<and>
    res = \<lparr>ds_JobID = jobID, ds_ProviderID = p_id r\<rparr> \<and> jobID \<notin> j_id ` set (jobs (tabs (db S))) \<and>
    tabs (db S') = (tabs (db S))\<lparr>jobs := jobs (tabs (db S)) @ [scheduled_job jobID (p_id r) req]\<rparr> \<and>
    queue_of (cache S') = (queue_of (cache S))(p_id r := queue_of (cache S) (p_id r) @ [jobID])"
  using assms(2)
proof (cases rule: Submit_cases)
  case (assigned pr p p' u)
  from assms(1) have env: "pg_ok (pg_env (db S))" and red: "ready_redis (cache S)"
    by (simp_all add: stores_ok_def)
  from BestProvider_Inr [OF assigned(1) env] obtain r where r: "r \<in> set (providers (tabs (db S)))"
    "eligible (dq_CPUCores req) (dq_MemoryMB req) r" "p_id pr = p_id r"
    "\<And>r'. r' \<in> set (providers (tabs (db S))) \<Longrightarrow> eligible (dq_CPUCores req) (dq_MemoryMB req) r' \<Longrightarrow>
       p_mem_free_mb r' \<le> p_mem_free_mb r" by blast
  note p = BestProvider_tabs [OF assigned(1)]
  note ins = InsertJob_Inr [OF assigned(2)] 
  have new: "jobID \<notin> j_id ` set (jobs (tabs (db S)))"
    using ins(1) p by simp
  have "tabs (db S') = (tabs (db S))\<lparr>jobs := jobs (tabs (db S)) @ [scheduled_job jobID (p_id r) req]\<rparr>"
    using AssignJob_Inr [OF assigned(3)] ins(2) p assign_inserted [OF new] r(3)
    by (simp add: inserted_new_job)
  moreover have "queue_of (cache S') = (queue_of (cache S))(p_id r := queue_of (cache S) (p_id r) @ [jobID])"
    "res = \<lparr>ds_JobID = jobID, ds_ProviderID = p_id r\<rparr>"
    using PushJob_queue [OF red assigned(4)] assigned(5) r(3) by (auto split: sum.splits)
  ultimately show ?thesis using r new by blast
qed simp_all

lemma Submit_scheduled:
  assumes "stores_ok S" and "Submit jobID req S = (Inr res, S')"
  shows "tabs (db S') = (tabs (db S))\<lparr>jobs := jobs (tabs (db S)) @ [scheduled_job jobID (ds_ProviderID res) req]\<rparr>"
    and "queue_of (cache S') = (queue_of (cache S))(ds_ProviderID res :=
      queue_of (cache S) (ds_ProviderID res) @ [jobID])"
  using Submit_Inr [OF assms] by auto


lemma Submit_Inl:
  assumes "stores_ok S" and "Submit jobID req S = (Inl e, S')"
  defines "t \<equiv> tabs (db S)" and "with_row \<equiv> \<lambda>j. (tabs (db S))\<lparr>jobs := jobs (tabs (db S)) @ [j]\<rparr>"
  shows "tabs (db S') = t \<and> queue_of (cache S') = queue_of (cache S) \<and>
      (e = no_provider req \<or> (\<exists>e'. e = Errorf ''find provider: '' e' [] \<or> e = Errorf ''insert job: '' e' [])) \<or>
    tabs (db S') = with_row (pending_row jobID req) \<and> queue_of (cache S') = queue_of (cache S) \<and>
      (\<exists>e'. e = Errorf ''insert job: '' e' [] \<or> e = Errorf ''assign job: '' e' []) \<or>
    (\<exists>r \<in> set (providers t). tabs (db S') = with_row (scheduled_job jobID (p_id r) req) \<and>
      (queue_of (cache S') = queue_of (cache S) \<and> (\<exists>e'. e = Errorf ''assign job: '' e' []) \<or>
       queue_of (cache S') \<in> {queue_of (cache S),
         (queue_of (cache S))(p_id r := queue_of (cache S) (p_id r) @ [jobID])} \<and>
         (\<exists>e'. e = Errorf ''push job to redis: '' e' [])))"
  using assms(2)
proof (cases rule: Submit_cases)
  case (unplaced e')
  then show ?thesis using BestProvider_tabs [OF unplaced(1)] by (auto simp: t_def)
next
  case (no_row pr p e')
  then show ?thesis
    using InsertJob_Inl [OF no_row(2)] BestProvider_tabs [OF no_row(1)]
    by (auto simp: t_def with_row_def inserted_new_job)
next
  case (unassigned pr p p' e')
  from assms(1) have env: "pg_ok (pg_env (db S))" by (simp add: stores_ok_def)
  obtain r where r: "r \<in> set (providers t)" "p_id pr = p_id r"
    by (rule BestProvider_Inr [OF unassigned(1) env]) (simp add: t_def)
  note ins = InsertJob_Inr [OF unassigned(2)] BestProvider_tabs [OF unassigned(1)]
  have "tabs (db S') = with_row (pending_row jobID req) \<or>
      tabs (db S') = with_row (scheduled_job jobID (p_id r) req)"
    using AssignJob_Inl [OF unassigned(3)] ins assign_inserted [of jobID "jobs (tabs (db S))" "p_id r" req]
    by (auto simp: with_row_def r(2) inserted_new_job)
  then show ?thesis using unassigned(4,5) r(1) by auto
next
  case (assigned pr p p' u)
  from assms(1) have env: "pg_ok (pg_env (db S))" and red: "ready_redis (cache S)"
    by (simp_all add: stores_ok_def)
  obtain r where r: "r \<in> set (providers t)" "p_id pr = p_id r"
    by (rule BestProvider_Inr [OF assigned(1) env]) (simp add: t_def)
  note ins = InsertJob_Inr [OF assigned(2)] BestProvider_tabs [OF assigned(1)]
  have "tabs (db S') = with_row (scheduled_job jobID (p_id r) req)"
    using AssignJob_Inr [OF assigned(3)] ins assign_inserted [of jobID "jobs (tabs (db S))" "p_id r" req]
    by (simp add: with_row_def r(2) inserted_new_job)
  moreover obtain e' where "u = Inl e'" "e = Errorf ''push job to redis: '' e' []"
    using assigned(5) by (auto split: sum.splits)
  ultimately show ?thesis using PushJob_queue [OF red assigned(4)] r by auto
qed


section \<open>Properties\<close>

text \<open>
  C23 (deploy). A deploy that succeeds went to an online provider with the cores and memory
  asked for, of those one with the most free memory; its id was new, exactly one job row is
  added, scheduled for that provider, and its id is the last of that provider's queue.
\<close>

theorem Submit_success:
  assumes "stores_ok S" and "Submit jobID req S = (Inr res, S')"
  shows "\<exists>r \<in> set (providers (tabs (db S))). eligible (dq_CPUCores req) (dq_MemoryMB req) r \<and>
    (\<forall>r' \<in> set (providers (tabs (db S))). eligible (dq_CPUCores req) (dq_MemoryMB req) r' \<longrightarrow>
       p_mem_free_mb r' \<le> p_mem_free_mb r) \<and>
    res = \<lparr>ds_JobID = jobID, ds_ProviderID = p_id r\<rparr> \<and> jobID \<notin> j_id ` set (jobs (tabs (db S))) \<and>
    tabs (db S') = (tabs (db S))\<lparr>jobs := jobs (tabs (db S)) @ [scheduled_job jobID (p_id r) req]\<rparr> \<and>
    queue_of (cache S') = (queue_of (cache S))(p_id r := queue_of (cache S) (p_id r) @ [jobID])"
  by (rule Submit_Inr [OF assms])

definition sample_deploy :: deploy_request where
  "sample_deploy = \<lparr>dq_ImageURL = ''img'', dq_CPUCores = 2, dq_MemoryMB = 1000, dq_DiskGB = 1,
     dq_SSHPubKey = ''key'', dq_Env = None\<rparr>"

theorem Submit_success_witness:
  "\<exists>S'. Submit ''j9'' sample_deploy sample_stores = (Inr \<lparr>ds_JobID = ''j9'', ds_ProviderID = ''b''\<rparr>, S') \<and>
     queue_of (cache S') ''b'' = [''j9'']"
proof -
  let ?R = "Submit ''j9'' sample_deploy sample_stores"
  have "fst ?R = Inr \<lparr>ds_JobID = ''j9'', ds_ProviderID = ''b''\<rparr>" by code_simp
  then have run: "?R = (Inr \<lparr>ds_JobID = ''j9'', ds_ProviderID = ''b''\<rparr>, snd ?R)" by (metis prod.collapse)
  have "queue_of (cache sample_stores) = (\<lambda>p. [])"
    by (simp add: fun_eq_iff sample_stores_def sample_redis_def queue_of_def keys_of_def memory_client_def)
  with Submit_success [OF sample_stores_ok run] run show ?thesis by fastforce
qed

text \<open>
  Result (failed deploy). The error of a failed deploy tells how far it came. Before the insert
  nothing has changed. An insert reported as failed may have left a pending row, a failed
  assignment a pending or a scheduled row, a failed announcement a scheduled row, and only
  a failed announcement may have put the id on the queue: nothing is ever taken back.
\<close>

theorem Submit_failure:
  assumes "stores_ok S" and "Submit jobID req S = (Inl e, S')"
  defines "t \<equiv> tabs (db S)" and "with_row \<equiv> \<lambda>j. (tabs (db S))\<lparr>jobs := jobs (tabs (db S)) @ [j]\<rparr>"
  shows "tabs (db S') = t \<and> queue_of (cache S') = queue_of (cache S) \<and>
      (e = no_provider req \<or> (\<exists>e'. e = Errorf ''find provider: '' e' [] \<or> e = Errorf ''insert job: '' e' [])) \<or>
    tabs (db S') = with_row (pending_row jobID req) \<and> queue_of (cache S') = queue_of (cache S) \<and>
      (\<exists>e'. e = Errorf ''insert job: '' e' [] \<or> e = Errorf ''assign job: '' e' []) \<or>
    (\<exists>r \<in> set (providers t). tabs (db S') = with_row (scheduled_job jobID (p_id r) req) \<and>
      (queue_of (cache S') = queue_of (cache S) \<and> (\<exists>e'. e = Errorf ''assign job: '' e' []) \<or>
       queue_of (cache S') \<in> {queue_of (cache S),
         (queue_of (cache S))(p_id r := queue_of (cache S) (p_id r) @ [jobID])} \<and>
         (\<exists>e'. e = Errorf ''push job to redis: '' e' [])))"
  unfolding t_def with_row_def by (rule Submit_Inl [OF assms(1,2)])

text \<open>A server whose lists cannot be written, as when it is out of memory.\<close>

definition full_client :: "redis_keys redis_client" where
  "full_client = memory_client\<lparr>LPush := (\<lambda>k v ks. (Inl (Plain ''OOM''), ks))\<rparr>"

definition full_stores :: "redis_keys stores" where
  "full_stores = sample_stores\<lparr>cache := sample_redis\<lparr>client := full_client\<rparr>\<rparr>"

lemma full_stores_ok: "stores_ok full_stores"
proof -
  have "redis_ok full_client"
    by (simp add: full_client_def memory_client_def redis_ok_def lpush_ok_def incr_ok_def
        brpop_ok_def sadd_ok_def srem_ok_def sismember_ok_def effect_def)
  with sample_stores_ok show ?thesis
    by (simp add: stores_ok_def full_stores_def ready_redis_def)
qed


theorem Submit_failure_witness:
  "\<exists>S'. Submit ''j9'' sample_deploy full_stores = (Inl (Errorf ''push job to redis: '' (Plain ''OOM'') []), S') \<and>
     (\<exists>r \<in> set (providers (tabs (db full_stores))). tabs (db S') = (tabs (db full_stores))\<lparr>jobs :=
        jobs (tabs (db full_stores)) @ [scheduled_job ''j9'' (p_id r) sample_deploy]\<rparr>)"
proof -
  let ?R = "Submit ''j9'' sample_deploy full_stores"
  have "fst ?R = Inl (Errorf ''push job to redis: '' (Plain ''OOM'') [])" by code_simp
  then have run: "?R = (Inl (Errorf ''push job to redis: '' (Plain ''OOM'') []), snd ?R)"
    by (metis prod.collapse)
  from Submit_failure [OF full_stores_ok run] run show ?thesis by (auto simp: no_provider_def)
qed


subsection \<open>Polling\<close>

lemma PollForProvider_cases:
  assumes "stores_ok S" and "PollForProvider locked i w S = (r, S')"
  obtains
    (failed) e where "r = (None, Some e)" "db S' = db S"
      "queue_of (cache S') \<in> {queue_of (cache S), (queue_of (cache S))(i := tl (queue_of (cache S) i))}"
  | (idle) "r = (None, None)" "db S' = db S" "queue_of (cache S) i = [] \<or> hd (queue_of (cache S) i) = []"
      "queue_of (cache S') = (queue_of (cache S))(i := tl (queue_of (cache S) i))"
  | (woken) "queue_of (cache S) i \<noteq> []" "hd (queue_of (cache S) i) \<noteq> []"
      "queue_of (cache S') = (queue_of (cache S))(i := tl (queue_of (cache S) i))"
      "NextPendingJob locked i (db S) = (r, db S')"
proof -
  from assms(1) have ok: "ready_redis (cache S)" by (simp add: stores_ok_def)
  obtain u R where pop: "PopJob i w (cache S) = (u, R)" by fastforce
  show thesis
  proof (cases u)
    case (Inl e)
    with assms(2) pop have "r = (None, Some e)" "S' = S\<lparr>cache := R\<rparr>"
      by (simp_all add: PollForProvider_def on_redis_def)
    with provider_queue.pop_failed [OF ok, of i w e R] pop Inl show thesis
      by (intro failed) simp_all
  next
    case (Inr j)
    have q: "(case queue_of (cache S) i of [] \<Rightarrow> j = [] \<and> queue_of R = queue_of (cache S)
       | x # xs \<Rightarrow> j = x \<and> queue_of R = (queue_of (cache S))(i := xs))"
      using provider_queue.pop_answered [OF ok] pop Inr by blast
    have eq: "queue_of R = (queue_of (cache S))(i := tl (queue_of (cache S) i))"
      using q by (cases "queue_of (cache S) i") (simp_all add: fun_upd_idem)
    show thesis
    proof (cases "j = []")
      case True
      with assms(2) pop Inr have "r = (None, None)" "S' = S\<lparr>cache := R\<rparr>"
        by (simp_all add: PollForProvider_def on_redis_def)
      with q eq True show thesis by (intro idle) (auto split: list.splits)
    next
      case False
      obtain x p where "NextPendingJob locked i (db S) = (x, p)" by fastforce
      moreover from this assms(2) pop Inr False have "r = x" "S' = S\<lparr>cache := R, db := p\<rparr>"
        by (simp_all add: PollForProvider_def on_redis_def on_pg_def)
      ultimately show thesis using q eq False by (intro woken) (auto split: list.splits)
    qed
  qed
qed

text \<open>
  Result (poll). A poll that returns a job has taken the oldest announcement off the provider's
  queue and claimed a job that was scheduled for this provider, with the least
  \<open>created_at\<close>; the announcement only wakes the poll up, it need not name that job. With an
  empty queue an answered poll returns nothing and changes nothing, scheduled jobs or not.
\<close>

theorem PollForProvider_claims:
  assumes "stores_ok S" and "PollForProvider locked i w S = ((jo, None), S')"
  shows "(case jo of
      Some j \<Rightarrow> queue_of (cache S) i \<noteq> [] \<and>
        queue_of (cache S') = (queue_of (cache S))(i := tl (queue_of (cache S) i)) \<and>
        (\<exists>k \<in> set (jobs (tabs (db S))). ready locked i k \<and> j_id j = j_id k \<and>
          j_image_url j = j_image_url k \<and> j_ssh_pubkey j = j_ssh_pubkey k \<and> j_env j = j_env k \<and>
          (\<forall>k' \<in> set (jobs (tabs (db S))). ready locked i k' \<longrightarrow> j_created_at k \<le> j_created_at k') \<and>
          tabs (db S') = (tabs (db S))\<lparr>jobs := map (\<lambda>x. if x = k then k\<lparr>j_status := ''running''\<rparr> else x)
            (jobs (tabs (db S)))\<rparr>)
    | None \<Rightarrow> tabs (db S') = tabs (db S)) \<and>
    (queue_of (cache S) i = [] \<longrightarrow> jo = None \<and> db S' = db S \<and> queue_of (cache S') = queue_of (cache S))"
  using assms
proof (cases rule: PollForProvider_cases)
  case woken
  from assms(1) have wf: "wf_tables (tabs (db S))" "pg_ok (pg_env (db S))"
    by (simp_all add: stores_ok_def)
  show ?thesis
  proof (cases jo)
    case None
    with NextPendingJob_exits [OF woken(4)] woken(1) show ?thesis by auto
  next
    case (Some j)
    with woken(4) have "NextPendingJob locked i (db S) = ((Some j, None), db S')" by simp
    from NextPendingJob_Some [OF wf this] obtain k where k: "k \<in> set (jobs (tabs (db S)))"
      "ready locked i k" "j = k\<lparr>j_provider_id := [], j_status := [], j_created_at := zero_time\<rparr>"
      "\<forall>k' \<in> set (jobs (tabs (db S))). ready locked i k' \<longrightarrow> j_created_at k \<le> j_created_at k'"
      "tabs (db S') = (tabs (db S))\<lparr>jobs := map (\<lambda>x. if x = k then k\<lparr>j_status := ''running''\<rparr> else x)
            (jobs (tabs (db S)))\<rparr>" unfolding ready_def by blast
    have "j_id j = j_id k \<and> j_image_url j = j_image_url k \<and> j_ssh_pubkey j = j_ssh_pubkey k \<and> j_env j = j_env k"
      by (simp add: k(3))
    with k(1,2,4,5) woken(1,3) Some show ?thesis by (simp only: option.case) blast
  qed
qed (auto simp: fun_upd_idem)

definition announced_stores :: "redis_keys stores" where
  "announced_stores = snd (on_redis (PushJob ''b'' ''j0'') sample_stores)"

lemma announced_stores_ok: "stores_ok announced_stores"
  using sample_stores_ok by (simp add: announced_stores_def stores_ok_def)

theorem PollForProvider_claims_witness:
  "\<exists>S'. PollForProvider {} ''b'' 25 announced_stores = ((Some (sample_job ''j1'' [] []), None), S') \<and>
     queue_of (cache announced_stores) ''b'' \<noteq> []"
proof -
  let ?R = "PollForProvider {} ''b'' 25 announced_stores"
  have "fst ?R = (Some (sample_job ''j1'' [] []), None)" by code_simp
  then have run: "?R = ((Some (sample_job ''j1'' [] []), None), snd ?R)" by (metis prod.collapse)
  from PollForProvider_claims [OF announced_stores_ok run] run show ?thesis by auto
qed

text \<open>An answered \<open>NextPendingJob\<close> that returns nothing has found nothing.\<close>

lemma sql_next_job_none:
  assumes "sql_next_job l i E now t = (Inl ErrNoRows, t')" and "pg_ok E" and "k \<in> set (jobs t)"
  shows "\<not> ready l i k"
proof
  assume "ready l i k"
  then have "k \<in> set (filter (ready l i) (scan_jobs E (jobs t)))"
    using scan_sets(2) [OF assms(2)] assms(3) by simp
  then have "sort_key j_created_at (filter (ready l i) (scan_jobs E (jobs t))) \<noteq> []"
    by (metis empty_iff list.set(1) set_sort)
  moreover have "bind_error E ps \<noteq> Some ErrNoRows" for ps
    by (induction E ps rule: bind_error.induct) (auto simp: bind_error.simps split: option.splits)
  ultimately show False
    using assms(1) by (auto simp: sql_next_job_def with_params_def split: option.splits list.splits)
qed

lemma NextPendingJob_None:
  assumes "NextPendingJob l i p = ((None, None), q)" and "pg_ok (pg_env p)" and "k \<in> set (jobs (tabs p))"
  shows "\<not> ready l i k"
proof -
  obtain oc p1 where o: "next_outcome p = (oc, p1)" by fastforce
  note p1 = next_outcome_eq [OF o]
  obtain r p2 where x: "exec (sql_next_job l i) p1 = (r, p2)" by fastforce
  have "r = Inl ErrNoRows"
    using assms(1) o x
    by (auto simp: NextPendingJob_def split: outcome.splits sum.splits prod.splits if_splits)
  moreover obtain u t where s: "sql_next_job l i (pg_env p1) (clock p1) (tabs p1) = (u, t)" by fastforce
  ultimately have "u = Inl ErrNoRows"
    using x by (auto simp: exec_eq split: outcome.splits)
  with s sql_next_job_none [of l i "pg_env p1" "clock p1" "tabs p1" t] p1 assms(2,3) show ?thesis
    by simp
qed

text \<open>
  C15 (deploy and poll). If a deploy succeeds for a provider that had no job scheduled and
  nothing on its queue, then the next poll by that provider that ends without an error
  returns this job, with the image, sizes, key and environment of the request.
\<close>

theorem submitted_job_is_delivered:
  assumes "stores_ok S" and "Submit jobID req S = (Inr res, S1)" and "jobID \<noteq> []"
    and "\<And>k. k \<in> set (jobs (tabs (db S))) \<Longrightarrow> j_provider_id k = ds_ProviderID res \<Longrightarrow>
      j_status k \<noteq> ''scheduled''"
    and "queue_of (cache S) (ds_ProviderID res) = []" and "jobID \<notin> locked"
    and "PollForProvider locked (ds_ProviderID res) w S1 = ((jo, None), S2)"
  shows "jo = Some (new_job jobID [] req)"
proof -
  let ?i = "ds_ProviderID res"
  note sub = Submit_scheduled [OF assms(1,2)]
  have ok: "stores_ok S1"
    using through_ok [OF Submit_through assms(1), of jobID req] assms(2) by simp
  have queue: "queue_of (cache S1) ?i = [jobID]" using sub(2) assms(5) by simp
  have jobs: "jobs (tabs (db S1)) = jobs (tabs (db S)) @ [scheduled_job jobID ?i req]" using sub(1) by simp
  have only: "k = scheduled_job jobID ?i req" if "k \<in> set (jobs (tabs (db S1)))" "ready locked ?i k" for k
    using that assms(4) by (auto simp: jobs ready_def)
  have rdy: "ready locked ?i (scheduled_job jobID ?i req)"
    using assms(6) by (simp add: ready_def scheduled_job_def new_job_def)
  from ok have env: "wf_tables (tabs (db S1))" "pg_ok (pg_env (db S1))" by (simp_all add: stores_ok_def)
  show ?thesis
    using ok assms(7)
  proof (cases rule: PollForProvider_cases)
    case woken
    show ?thesis
    proof (cases jo)
      case None
      with NextPendingJob_None [OF _ env(2)] woken(4) rdy jobs show ?thesis by auto
    next
      case (Some j)
      with NextPendingJob_Some [OF env, of locked ?i j] woken(4) obtain k
        where "k \<in> set (jobs (tabs (db S1)))" "ready locked ?i k"
          "j = k\<lparr>j_provider_id := [], j_status := [], j_created_at := zero_time\<rparr>"
        by (auto simp: ready_def)
      with only [of k] Some show ?thesis by (simp add: scheduled_job_def new_job_def)
    qed
  qed (use queue assms(3) in simp_all)
qed

definition idle_stores :: "redis_keys stores" where
  "idle_stores = sample_stores\<lparr>db := sample_pg\<lparr>tabs := (tabs sample_pg)\<lparr>jobs := [sample_job ''j2'' ''b'' ''running'']\<rparr>\<rparr>\<rparr>"

lemma idle_stores_ok: "stores_ok idle_stores"
  using sample_stores_ok
  by (simp add: idle_stores_def stores_ok_def sample_stores_def sample_pg_def wf_tables_def sample_job_def)

theorem submitted_job_is_delivered_witness:
  "\<exists>S1 S2. Submit ''j9'' sample_deploy idle_stores = (Inr \<lparr>ds_JobID = ''j9'', ds_ProviderID = ''b''\<rparr>, S1) \<and>
     PollForProvider {} ''b'' 25 S1 = ((Some (new_job ''j9'' [] sample_deploy), None), S2)"
proof -
  let ?R = "Submit ''j9'' sample_deploy idle_stores"
  let ?P = "PollForProvider {} ''b'' 25 (snd ?R)"
  have "fst ?R = Inr \<lparr>ds_JobID = ''j9'', ds_ProviderID = ''b''\<rparr>" by code_simp
  then have run: "?R = (Inr \<lparr>ds_JobID = ''j9'', ds_ProviderID = ''b''\<rparr>, snd ?R)" by (metis prod.collapse)
  have "snd (fst ?P) = None" by code_simp
  then have poll: "PollForProvider {} (ds_ProviderID \<lparr>ds_JobID = ''j9'', ds_ProviderID = ''b''\<rparr>) 25 (snd ?R)
      = ((fst (fst ?P), None), snd ?P)" by (simp add: prod_eq_iff)
  have "queue_of (cache idle_stores) ''b'' = []"
    by (simp add: idle_stores_def sample_stores_def sample_redis_def queue_of_def keys_of_def memory_client_def)
  moreover have "j_status k \<noteq> ''scheduled''" if "k \<in> set (jobs (tabs (db idle_stores)))" for k
    using that by (simp add: idle_stores_def sample_job_def)
  ultimately have "fst (fst ?P) = Some (new_job ''j9'' [] sample_deploy)"
    using submitted_job_is_delivered [OF idle_stores_ok run _ _ _ _ poll] by simp
  with run poll show ?thesis by (metis deploy_result.select_convs(2))
qed





lemma sorted_const: "(\<And>x. x \<in> set xs \<Longrightarrow> f x = c) \<Longrightarrow> sorted (map f xs)" for c :: "'b :: linorder"
  by (induction xs) auto

lemma sorted_sort_id: "sorted (map f xs) \<Longrightarrow> sort_key f xs = xs"
  by (induction xs) (auto simp: insort_is_Cons)

text \<open>
  Result (no order of arrival). Jobs are recorded without a creation time, so among the jobs
  that are ready for a provider \<open>ORDER BY created_at\<close> prefers none: whichever of them one
  picks, a server that obeys the query may return it first, even the one submitted last.
\<close>

theorem delivery_order_is_free:
  assumes "list_all (\<lambda>j. j_created_at j = zero_time) (jobs (tabs p))" and "k \<in> set (jobs (tabs p))"
    and "ready locked i k" and "text_ok (pg_env p) i"
  shows "\<exists>scan q. pg_ok (plain_env\<lparr>scan_jobs := scan\<rparr>) \<and>
    NextPendingJob locked i (p\<lparr>outcomes := [], pg_env := (pg_env p)\<lparr>scan_jobs := scan\<rparr>\<rparr>) =
      ((Some (k\<lparr>j_provider_id := [], j_status := []\<rparr>), None), q)"
proof -
  define scan where "scan = (\<lambda>js :: job list. if k \<in> set js then k # remove1 k js else js)"
  let ?p = "p\<lparr>outcomes := [], pg_env := (pg_env p)\<lparr>scan_jobs := scan\<rparr>\<rparr>"
  have pg: "pg_ok (plain_env\<lparr>scan_jobs := scan\<rparr>)"
    by (simp add: pg_ok_def plain_env_def scan_def)
  have z: "j_created_at j = zero_time" if "j \<in> set (jobs (tabs p))" for j
    using assms(1) that by (simp add: list_all_iff)
  have "sorted (map j_created_at (filter (ready locked i) (scan (jobs (tabs p)))))"
  proof (rule sorted_const)
    show "j_created_at j = zero_time" if "j \<in> set (filter (ready locked i) (scan (jobs (tabs p))))" for j
      using that z assms(2) set_remove1_subset [of k "jobs (tabs p)"] by (auto simp: scan_def split: if_splits)
  qed
  then have "sort_key j_created_at (filter (ready locked i) (scan (jobs (tabs p)))) =
      filter (ready locked i) (scan (jobs (tabs p)))" by (rule sorted_sort_id)
  moreover have "filter (ready locked i) (scan (jobs (tabs p))) = k # filter (ready locked i) (remove1 k (jobs (tabs p)))"
    using assms(2,3) by (simp add: scan_def)
  ultimately have "\<exists>ks. sort_key j_created_at (filter (ready locked i) (scan (jobs (tabs p)))) = k # ks"
    by simp
  moreover have "bind_error ((pg_env p)\<lparr>scan_jobs := scan\<rparr>) [PText i] = None"
    using assms(4) by (simp add: bind_error_None)
  ultimately show ?thesis
    using z [OF assms(2)] pg
    by (intro exI [of _ scan]) (auto simp: NextPendingJob_def exec_served sql_next_job_def next_outcome_def
        with_params_def sql_set_running_def)
qed

theorem delivery_order_is_free_witness:
  "\<exists>scan q. pg_ok (plain_env\<lparr>scan_jobs := scan\<rparr>) \<and>
    NextPendingJob {} ''b'' ((sample_pg\<lparr>tabs := (tabs sample_pg)\<lparr>jobs :=
        [scheduled_job ''j1'' ''b'' sample_deploy, scheduled_job ''j2'' ''b'' sample_deploy]\<rparr>\<rparr>)
        \<lparr>outcomes := [], pg_env := (pg_env sample_pg)\<lparr>scan_jobs := scan\<rparr>\<rparr>) =
      ((Some (new_job ''j2'' [] sample_deploy), None), q)"
proof -
  let ?p = "sample_pg\<lparr>tabs := (tabs sample_pg)\<lparr>jobs :=
        [scheduled_job ''j1'' ''b'' sample_deploy, scheduled_job ''j2'' ''b'' sample_deploy]\<rparr>\<rparr>"
  let ?k = "scheduled_job ''j2'' ''b'' sample_deploy"
  have "list_all (\<lambda>j. j_created_at j = zero_time) (jobs (tabs ?p))" "?k \<in> set (jobs (tabs ?p))"
    "ready {} ''b'' ?k" "text_ok (pg_env ?p) ''b''"
    by (simp_all add: scheduled_job_def new_job_def ready_def sample_pg_def plain_env_def)
  from delivery_order_is_free [OF this] show ?thesis
    by (simp add: scheduled_job_def new_job_def)
qed

end
