(* ===== verification/Sha256.thy ===== *)
theory Sha256
  imports Go_Prelude "HOL-Library.Word"
begin

text \<open>
  The parts of Go's standard library that turn bytes into other bytes and that the sources
  rest on: \<open>crypto/sha256\<close>, \<open>crypto/hmac\<close>, \<open>encoding/hex\<close> and the unpadded URL alphabet of
  \<open>encoding/base64\<close> (RFC 6234, RFC 2104, RFC 4648). A byte string is a \<open>string\<close>.
\<close>

unbundle bit_operations_syntax

type_synonym word32 = "32 word"


section \<open>SHA-256\<close>

definition rotr :: "nat \<Rightarrow> word32 \<Rightarrow> word32" where
  "rotr n x = drop_bit n x OR push_bit (32 - n) x"

text \<open>The constants are the first 32 bits of the fractional parts of the cube roots of the
  first 64 primes, the initial state those of the square roots of the first 8; a root is found
  bit by bit.\<close>

fun root_bits :: "nat \<Rightarrow> nat \<Rightarrow> int \<Rightarrow> int \<Rightarrow> int" where
  "root_bits k 0 n r = r"
| "root_bits k (Suc b) n r = root_bits k b n (if (r + 2 ^ b) ^ k \<le> n then r + 2 ^ b else r)"

definition root_fraction :: "nat \<Rightarrow> int \<Rightarrow> word32" where
  "root_fraction k p = word_of_int (root_bits k 40 (p * 2 ^ (32 * k)) 0)"

definition small_primes :: "int list" where
  "small_primes = filter (\<lambda>p. \<forall>d \<in> set [2..17]. d < p \<longrightarrow> p mod d \<noteq> 0) [2..311]"

definition sha_constants :: "word32 list" where
  "sha_constants = map (root_fraction 3) small_primes"

definition word_of_bytes :: "char \<Rightarrow> char \<Rightarrow> char \<Rightarrow> char \<Rightarrow> word32" where
  "word_of_bytes a b c d = word_of_int (((of_char a * 256 + of_char b) * 256 + of_char c) * 256 + of_char d)"

definition bytes_of_word :: "word32 \<Rightarrow> string" where
  "bytes_of_word w = (let n = uint w in
     [char_of (n div 16777216), char_of (n div 65536), char_of (n div 256), char_of n])"

fun words_of_bytes :: "string \<Rightarrow> word32 list" where
  "words_of_bytes (a # b # c # d # bs) = word_of_bytes a b c d # words_of_bytes bs"
| "words_of_bytes _ = []"

text \<open>One bit, zeros up to 56 bytes modulo 64, and the length in bits as 8 bytes.\<close>

definition sha_padding :: "nat \<Rightarrow> string" where
  "sha_padding n = CHR 0x80 # replicate ((119 - n mod 64) mod 64) CHR 0x00 @
     bytes_of_word (word_of_int (8 * int n div 4294967296)) @ bytes_of_word (word_of_int (8 * int n))"

text \<open>The message schedule, kept in reverse; each round adds a word from four earlier ones.\<close>

definition next_word :: "word32 list \<Rightarrow> word32" where
  "next_word ws =
     (let x = ws ! 14; y = ws ! 1
      in ws ! 15 + (rotr 7 x XOR rotr 18 x XOR drop_bit 3 x) + ws ! 6 +
         (rotr 17 y XOR rotr 19 y XOR drop_bit 10 y))"

fun extend_schedule :: "nat \<Rightarrow> word32 list \<Rightarrow> word32 list" where
  "extend_schedule 0 ws = rev ws"
| "extend_schedule (Suc n) ws = extend_schedule n (next_word ws # ws)"

type_synonym sha_state = "word32 \<times> word32 \<times> word32 \<times> word32 \<times> word32 \<times> word32 \<times> word32 \<times> word32"

fun sha_round :: "word32 \<times> word32 \<Rightarrow> sha_state \<Rightarrow> sha_state" where
  "sha_round (k, w) (a, b, c, d, e, f, g, h) =
     (let t1 = h + (rotr 6 e XOR rotr 11 e XOR rotr 25 e) + ((e AND f) XOR (NOT e AND g)) + k + w;
          t2 = (rotr 2 a XOR rotr 13 a XOR rotr 22 a) + ((a AND b) XOR (a AND c) XOR (b AND c))
      in (t1 + t2, a, b, c, d + t1, e, f, g))"

fun add_state :: "sha_state \<Rightarrow> sha_state \<Rightarrow> sha_state" where
  "add_state (a, b, c, d, e, f, g, h) (a', b', c', d', e', f', g', h') =
     (a + a', b + b', c + c', d + d', e + e', f + f', g + g', h + h')"

definition sha_block :: "word32 list \<Rightarrow> sha_state \<Rightarrow> sha_state" where
  "sha_block ws s = add_state s (fold sha_round (zip sha_constants (extend_schedule 48 (rev ws))) s)"

function sha_blocks :: "word32 list \<Rightarrow> sha_state \<Rightarrow> sha_state" where
  "sha_blocks ws s = (if length ws < 16 then s else sha_blocks (drop 16 ws) (sha_block (take 16 ws) s))"
  by pat_completeness auto

termination by (relation "measure (\<lambda>(ws, s). length ws)") auto

declare sha_blocks.simps [simp del]

definition sha_init :: sha_state where
  "sha_init = (let h = (\<lambda>i. root_fraction 2 (small_primes ! i)) in (h 0, h 1, h 2, h 3, h 4, h 5, h 6, h 7))"

definition sha256 :: "string \<Rightarrow> string" where
  "sha256 m = (case sha_blocks (words_of_bytes (m @ sha_padding (length m))) sha_init of
     (a, b, c, d, e, f, g, h) \<Rightarrow> concat (map bytes_of_word [a, b, c, d, e, f, g, h]))"


section \<open>HMAC\<close>

definition xor_byte :: "int \<Rightarrow> char \<Rightarrow> char" where
  "xor_byte n c = char_of (n XOR of_char c)"

definition hmac_sha256 :: "string \<Rightarrow> string \<Rightarrow> string" where
  "hmac_sha256 key m =
     (let k0 = (if 64 < length key then sha256 key else key);
          k = k0 @ replicate (64 - length k0) CHR 0x00
      in sha256 (map (xor_byte 0x5c) k @ sha256 (map (xor_byte 0x36) k @ m)))"


section \<open>Hexadecimal\<close>

definition hex_digit :: "int \<Rightarrow> char" where
  "hex_digit n = (if n < 10 then char_of (48 + n) else char_of (87 + n))"

definition hex_encode :: "string \<Rightarrow> string" where
  "hex_encode s = concat (map (\<lambda>c. [hex_digit (of_char c div 16), hex_digit (of_char c mod 16)]) s)"


section \<open>Base 64\<close>

definition b64_char :: "int \<Rightarrow> char" where
  "b64_char n =
     (if n < 26 then char_of (65 + n) else if n < 52 then char_of (71 + n)
      else if n < 62 then char_of (n - 4) else if n = 62 then CHR ''-'' else CHR ''_'')"

definition b64_value :: "char \<Rightarrow> int option" where
  "b64_value c =
     (let n = of_char c in
      if 65 \<le> n \<and> n < 91 then Some (n - 65) else if 97 \<le> n \<and> n < 123 then Some (n - 71)
      else if 48 \<le> n \<and> n < 58 then Some (n + 4) else if c = CHR ''-'' then Some 62
      else if c = CHR ''_'' then Some 63 else None)"

fun b64_encode :: "string \<Rightarrow> string" where
  "b64_encode [] = []"
| "b64_encode [a] =
     (let n = of_char a * 16 in [b64_char (n div 64), b64_char (n mod 64)])"
| "b64_encode [a, b] =
     (let n = (of_char a * 256 + of_char b) * 4
      in [b64_char (n div 4096), b64_char (n div 64 mod 64), b64_char (n mod 64)])"
| "b64_encode (a # b # c # s) =
     (let n = (of_char a * 256 + of_char b) * 256 + of_char c
      in [b64_char (n div 262144), b64_char (n div 4096 mod 64), b64_char (n div 64 mod 64),
          b64_char (n mod 64)] @ b64_encode s)"

text \<open>The standard alphabet, padded to groups of four.\<close>

definition b64_std :: "string \<Rightarrow> string" where
  "b64_std s =
     map (\<lambda>c. if c = CHR ''-'' then CHR ''+'' else if c = CHR ''_'' then CHR ''/'' else c) (b64_encode s) @
     replicate ((3 - length s mod 3) mod 3) CHR ''=''"

text \<open>
  \<open>DecodeString\<close> skips line breaks; a group of one character is an error, and the bits left
  over at the end of a shorter group are dropped, whatever they are.
\<close>

fun b64_groups :: "int list \<Rightarrow> string option" where
  "b64_groups [] = Some []"
| "b64_groups [a] = None"
| "b64_groups [a, b] = Some [char_of ((a * 64 + b) div 16)]"
| "b64_groups [a, b, c] =
     (let n = (a * 64 + b) * 64 + c in Some [char_of (n div 1024), char_of (n div 4)])"
| "b64_groups (a # b # c # d # s) =
     (let n = ((a * 64 + b) * 64 + c) * 64 + d
      in map_option (\<lambda>t. [char_of (n div 65536), char_of (n div 256), char_of n] @ t) (b64_groups s))"

definition b64_decode :: "string \<Rightarrow> string option" where
  "b64_decode s =
     (let vs = map b64_value (filter (\<lambda>c. c \<noteq> CHR 0x0A \<and> c \<noteq> CHR 0x0D) s)
      in if None \<in> set vs then None else b64_groups (map the vs))"

section \<open>Facts\<close>

lemma b64_value_char [simp]: "0 \<le> n \<Longrightarrow> n < 64 \<Longrightarrow> b64_value (b64_char n) = Some n"
proof -
  assume "0 \<le> n" "n < 64"
  then have "n \<in> set [0..63]" by simp
  moreover have "list_all (\<lambda>n. b64_value (b64_char n) = Some n) [0..63]" by code_simp
  ultimately show ?thesis by (simp only: list_all_iff)
qed

lemma b64_char_safe [simp]:
  assumes "0 \<le> n" and "n < 64"
  shows "b64_char n \<notin> {CHR 0x0A, CHR 0x0D, CHR ''.''}"
proof -
  have "n \<in> set [0..63]" using assms by simp
  moreover have "list_all (\<lambda>n. b64_char n \<notin> {CHR 0x0A, CHR 0x0D, CHR ''.''}) [0..63]" by code_simp
  ultimately show ?thesis unfolding list_all_iff by blast
qed

lemma of_char_range: "0 \<le> (of_char c :: int) \<and> (of_char c :: int) < 256"
  using pos_mod_bound [of 256 "of_char c :: int"] pos_mod_sign [of 256 "of_char c :: int"]
  by (simp only: of_char_mod_256)

text \<open>The sextets of the encoder; the encoding is their letters.\<close>

fun sextets :: "string \<Rightarrow> int list" where
  "sextets [] = []"
| "sextets [a] = (let n = of_char a * 16 in [n div 64, n mod 64])"
| "sextets [a, b] = (let n = (of_char a * 256 + of_char b) * 4 in [n div 4096, n div 64 mod 64, n mod 64])"
| "sextets (a # b # c # s) =
     (let n = (of_char a * 256 + of_char b) * 256 + of_char c
      in [n div 262144, n div 4096 mod 64, n div 64 mod 64, n mod 64] @ sextets s)"

lemma b64_encode_sextets: "b64_encode s = map b64_char (sextets s)"
  by (induction s rule: sextets.induct) (simp_all add: Let_def)

lemma quotient_range:
  fixes n k m :: int
  assumes "0 \<le> n" and "n < m * k" and "0 < k"
  shows "0 \<le> n div k \<and> n div k < m"
proof -
  have "n div k * k \<le> n" using assms(3) pos_mod_sign [of k n] div_mult_mod_eq [of n k] by linarith
  then have "n div k * k < m * k" using assms(2) by linarith
  then show ?thesis using assms(1,3) by (simp add: pos_imp_zdiv_nonneg_iff)
qed

lemma top_sextet:
  fixes x y z :: int
  assumes "0 \<le> x \<and> x < 256" and "0 \<le> y \<and> y < 256" and "0 \<le> z \<and> z < 256"
  shows "0 \<le> x * 16 div 64 \<and> x * 16 div 64 < 64"
    and "0 \<le> (x * 256 + y) * 4 div 4096 \<and> (x * 256 + y) * 4 div 4096 < 64"
    and "0 \<le> ((x * 256 + y) * 256 + z) div 262144 \<and> ((x * 256 + y) * 256 + z) div 262144 < 64"
proof -
  have "0 \<le> x * 16 \<and> x * 16 < 64 * 64" using assms(1) by auto
  then show "0 \<le> x * 16 div 64 \<and> x * 16 div 64 < 64" by (intro quotient_range) simp_all
  have "0 \<le> (x * 256 + y) * 4 \<and> (x * 256 + y) * 4 < 64 * 4096" using assms(1,2) by auto
  then show "0 \<le> (x * 256 + y) * 4 div 4096 \<and> (x * 256 + y) * 4 div 4096 < 64"
    by (intro quotient_range) simp_all
  have "0 \<le> (x * 256 + y) * 256 + z \<and> (x * 256 + y) * 256 + z < 64 * 262144" using assms by auto
  then show "0 \<le> ((x * 256 + y) * 256 + z) div 262144 \<and> ((x * 256 + y) * 256 + z) div 262144 < 64"
    by (intro quotient_range) simp_all
qed

lemma octets:
  fixes x y z :: int
  assumes "0 \<le> y \<and> y < 256" and "0 \<le> z \<and> z < 256"
  shows "(x * 256 + y) * 4 div 1024 = x" and "(x * 256 + y) * 4 div 4 = y + 256 * x"
    and "((x * 256 + y) * 256 + z) div 65536 = x" and "((x * 256 + y) * 256 + z) div 256 = y + 256 * x"
proof -
  show "(x * 256 + y) * 4 div 1024 = x"
    by (rule int_div_pos_eq [where r = "4 * y"]) (use assms in presburger)+
  show "((x * 256 + y) * 256 + z) div 65536 = x"
    by (rule int_div_pos_eq [where r = "y * 256 + z"]) (use assms in presburger)+
  show "((x * 256 + y) * 256 + z) div 256 = y + 256 * x"
    by (rule int_div_pos_eq [where r = z]) (use assms in presburger)+
qed simp

lemma sextets_range: "set (sextets s) \<subseteq> {0..<64}"
proof (induction s rule: sextets.induct)
  case (2 a)
  from top_sextet(1) [OF of_char_range of_char_range of_char_range, of a] show ?case
    by (simp add: Let_def del: div_mult_mult1_if)
next
  case (3 a b)
  from top_sextet(2) [OF of_char_range of_char_range of_char_range, of a b] show ?case
    by (simp add: Let_def)
next
  case (4 a b c s)
  from top_sextet(3) [OF of_char_range of_char_range of_char_range, of a b c] 4 show ?case
    by (simp add: Let_def)
qed simp

lemma char_of_eq: "n = of_char c + 256 * k \<Longrightarrow> char_of n = c" for n :: int
proof -
  have "char_of (of_char c + 256 * k) = char_of (of_char c :: int)"
    by (simp only: char_of_quasi_inj mod_mult_self2)
  then show "n = of_char c + 256 * k \<Longrightarrow> char_of n = c" by simp
qed

lemma regroup:
  fixes n :: int
  shows "n div 4096 * 64 + n div 64 mod 64 = n div 64"
    and "n div 262144 * 64 + n div 4096 mod 64 = n div 4096"
proof -
  have "n div 4096 = n div 64 div 64" using zdiv_zmult2_eq [of 64 n 64] by simp
  then show "n div 4096 * 64 + n div 64 mod 64 = n div 64" by (simp only: div_mult_mod_eq)
  have "n div 262144 = n div 4096 div 64" using zdiv_zmult2_eq [of 64 n 4096] by simp
  then show "n div 262144 * 64 + n div 4096 mod 64 = n div 4096" by (simp only: div_mult_mod_eq)
qed

lemma b64_groups_sextets: "b64_groups (sextets s) = Some s"
proof (induction s rule: sextets.induct)
  case (2 a)
  have "(of_char a * 16 div 64 * 64 + of_char a * 16 mod 64) div 16 = (of_char a :: int)"
    by (simp only: div_mult_mod_eq)
  then show ?case by (simp add: Let_def)
next
  case (3 a b)
  let ?n = "(of_char a * 256 + of_char b) * 4 :: int"
  have "(?n div 4096 * 64 + ?n div 64 mod 64) * 64 + ?n mod 64 = ?n"
    by (simp only: regroup div_mult_mod_eq)
  moreover have "char_of (?n div 1024) = a" "char_of (?n div 4) = b"
    using octets [OF of_char_range of_char_range, where x = "of_char a"] by (simp_all only: char_of_char char_of_eq)
  ultimately show ?case by (simp add: Let_def)
next
  case (4 a b c s)
  define n :: int where "n = (of_char a * 256 + of_char b) * 256 + of_char c"
  have sx: "sextets (a # b # c # s) = [n div 262144, n div 4096 mod 64, n div 64 mod 64, n mod 64] @ sextets s"
    by (simp only: sextets.simps Let_def n_def)
  have n: "((n div 262144 * 64 + n div 4096 mod 64) * 64 + n div 64 mod 64) * 64 + n mod 64 = n"
    by (simp only: regroup div_mult_mod_eq)
  note o = octets [OF of_char_range [of b] of_char_range [of c], where x = "of_char a", folded n_def]
  have "char_of (n div 65536) = a" by (simp only: o(3) char_of_char)
  moreover have "char_of (n div 256) = b" by (simp only: o(4)) (rule char_of_eq [OF refl])
  moreover have "char_of n = c"
    unfolding n_def by (rule char_of_eq [where k = "of_char a * 256 + of_char b"]) (simp only: ac_simps)
  ultimately show ?case
    unfolding sx append.simps b64_groups.simps Let_def n by (simp add: 4)
qed simp

text \<open>Decoding inverts encoding, and no letter is a dot or a line break.\<close>

lemma b64_no_dot: "CHR ''.'' \<notin> set (b64_encode s)"
  using sextets_range [of s] b64_char_safe by (fastforce simp: b64_encode_sextets)

lemma b64_roundtrip: "b64_decode (b64_encode s) = Some s"
proof -
  have r: "0 \<le> v \<and> v < 64" if "v \<in> set (sextets s)" for v
    using sextets_range [of s] that by auto
  have "filter (\<lambda>c. c \<noteq> CHR 0x0A \<and> c \<noteq> CHR 0x0D) (b64_encode s) = b64_encode s"
    using r b64_char_safe by (fastforce simp: b64_encode_sextets intro!: filter_True)
  moreover have "map b64_value (b64_encode s) = map Some (sextets s)"
    using r by (simp add: b64_encode_sextets)
  ultimately show ?thesis
    by (simp add: b64_decode_def b64_groups_sextets image_iff)
qed

lemma length_bytes_of_word [simp]: "length (bytes_of_word w) = 4"
  by (simp add: bytes_of_word_def Let_def)

lemma length_sha256 [simp]: "length (sha256 m) = 32"
  by (simp add: sha256_def split: prod.split)

end
