(* ===== verification/Json.thy ===== *)
theory Json
  imports Go_Prelude
begin

text \<open>
  What the sources use of \<open>encoding/json\<close>: the scanner, from the bytes of a document to a
  value, with Go's treatment of escapes and of bytes that are not UTF-8, and the decoding of
  values into struct fields. Numbers keep apart whether their literal is an integer, since
  only such a literal fits an integer field.
\<close>

datatype json = JNull | JBool bool | JInt int | JFrac rat | JStr string
  | JArr "json list" | JObj "(string \<times> json) list"


section \<open>Strings\<close>

definition byte :: "char \<Rightarrow> int" where
  "byte c = of_char c"

text \<open>A code point as UTF-8, and the replacement character.\<close>

definition utf8 :: "int \<Rightarrow> string" where
  "utf8 r =
     (if r < 128 then [char_of r]
      else if r < 2048 then [char_of (192 + r div 64), char_of (128 + r mod 64)]
      else if r < 65536 then
        [char_of (224 + r div 4096), char_of (128 + r div 64 mod 64), char_of (128 + r mod 64)]
      else [char_of (240 + r div 262144), char_of (128 + r div 4096 mod 64),
        char_of (128 + r div 64 mod 64), char_of (128 + r mod 64)])"

definition bad_rune :: string where
  "bad_rune = [CHR 0xEF, CHR 0xBF, CHR 0xBD]"

definition cont :: "int \<Rightarrow> int \<Rightarrow> char \<Rightarrow> bool" where
  "cont lo hi c \<longleftrightarrow> lo \<le> byte c \<and> byte c \<le> hi"

definition utf8_pair :: "char \<Rightarrow> char \<Rightarrow> bool" where
  "utf8_pair a b \<longleftrightarrow> cont 0xC2 0xDF a \<and> cont 0x80 0xBF b"

definition utf8_triple :: "char \<Rightarrow> char \<Rightarrow> char \<Rightarrow> bool" where
  "utf8_triple a b c \<longleftrightarrow> cont 0xE0 0xEF a \<and> cont 0x80 0xBF c \<and>
     (if byte a = 0xE0 then cont 0xA0 0xBF b else if byte a = 0xED then cont 0x80 0x9F b
      else cont 0x80 0xBF b)"

definition utf8_quad :: "char \<Rightarrow> char \<Rightarrow> char \<Rightarrow> char \<Rightarrow> bool" where
  "utf8_quad a b c d \<longleftrightarrow> cont 0xF0 0xF4 a \<and> cont 0x80 0xBF c \<and> cont 0x80 0xBF d \<and>
     (if byte a = 0xF0 then cont 0x90 0xBF b else if byte a = 0xF4 then cont 0x80 0x8F b
      else cont 0x80 0xBF b)"

text \<open>A byte that starts no well-formed sequence becomes the replacement character.\<close>

fun to_utf8 :: "string \<Rightarrow> string" where
  "to_utf8 [] = []"
| "to_utf8 (a # s) =
     (if byte a < 128 then a # to_utf8 s
      else case s of
        b # c # d # s' \<Rightarrow>
          if utf8_pair a b then a # b # to_utf8 (c # d # s')
          else if utf8_triple a b c then a # b # c # to_utf8 (d # s')
          else if utf8_quad a b c d then a # b # c # d # to_utf8 s'
          else bad_rune @ to_utf8 s
      | [b, c] \<Rightarrow>
          if utf8_pair a b then a # b # to_utf8 [c]
          else if utf8_triple a b c then [a, b, c]
          else bad_rune @ to_utf8 s
      | [b] \<Rightarrow> if utf8_pair a b then [a, b] else bad_rune @ to_utf8 s
      | [] \<Rightarrow> bad_rune)"

definition hex_value :: "char \<Rightarrow> int option" where
  "hex_value c =
     (let n = byte c in
      if 48 \<le> n \<and> n < 58 then Some (n - 48) else if 97 \<le> n \<and> n < 103 then Some (n - 87)
      else if 65 \<le> n \<and> n < 71 then Some (n - 55) else None)"

fun hex4 :: "string \<Rightarrow> (int \<times> string) option" where
  "hex4 (a # b # c # d # s) =
     (case (hex_value a, hex_value b, hex_value c, hex_value d) of
        (Some w, Some x, Some y, Some z) \<Rightarrow> Some (((w * 16 + x) * 16 + y) * 16 + z, s)
      | _ \<Rightarrow> None)"
| "hex4 _ = None"

lemma hex4_length: "hex4 s = Some (n, r) \<Longrightarrow> length r < length s"
  by (cases s rule: hex4.cases) (auto split: option.splits)

text \<open>The letter after a backslash, and a surrogate pair.\<close>

definition escape :: "char \<Rightarrow> char option" where
  "escape c = map_of [(CHR 0x22, CHR 0x22), (CHR 0x5C, CHR 0x5C), (CHR ''/'', CHR ''/''),
     (CHR ''b'', CHR 0x08), (CHR ''f'', CHR 0x0C), (CHR ''n'', CHR 0x0A), (CHR ''r'', CHR 0x0D),
     (CHR ''t'', CHR 0x09)] c"

definition second_surrogate :: "string \<Rightarrow> (int \<times> string) option" where
  "second_surrogate s =
     (case s of
        x # y # r \<Rightarrow>
          if x = CHR 0x5C \<and> y = CHR ''u'' then
            (case hex4 r of
               Some (n, r') \<Rightarrow> if 0xDC00 \<le> n \<and> n < 0xE000 then Some (n, r') else None
             | None \<Rightarrow> None)
          else None
      | _ \<Rightarrow> None)"

lemma second_surrogate_length: "second_surrogate s = Some (n, r) \<Longrightarrow> length r < length s"
  by (auto simp: second_surrogate_def split: list.splits if_splits option.splits prod.splits
      dest!: hex4_length)

text \<open>What follows a backslash, as bytes. A surrogate without its partner is replaced.\<close>

definition scan_escape :: "string \<Rightarrow> (string \<times> string) option" where
  "scan_escape s =
     (case s of
        [] \<Rightarrow> None
      | e # s1 \<Rightarrow>
          if e = CHR ''u'' then
            (case hex4 s1 of
               None \<Rightarrow> None
             | Some (n, s2) \<Rightarrow>
                 if n < 0xD800 \<or> 0xE000 \<le> n then Some (utf8 n, s2)
                 else (case (if n < 0xDC00 then second_surrogate s2 else None) of
                     Some (m, s3) \<Rightarrow> Some (utf8 ((n - 0xD800) * 1024 + (m - 0xDC00) + 0x10000), s3)
                   | None \<Rightarrow> Some (bad_rune, s2)))
          else map_option (\<lambda>x. ([x], s1)) (escape e))"

lemma scan_escape_length: "scan_escape s = Some (t, r) \<Longrightarrow> length r < length s"
  by (auto simp: scan_escape_def split: list.splits if_splits option.splits
      dest!: hex4_length second_surrogate_length)

text \<open>From the character after the opening quote to the rest after the closing one.\<close>

function scan_string :: "string \<Rightarrow> (string \<times> string) option" where
  "scan_string [] = None"
| "scan_string (c # s) =
     (if c = CHR 0x22 then Some ([], s)
      else if byte c < 32 then None
      else if c \<noteq> CHR 0x5C then map_option (\<lambda>(t, r). (c # t, r)) (scan_string s)
      else case scan_escape s of
        None \<Rightarrow> None
      | Some (x, s1) \<Rightarrow> map_option (\<lambda>(t, r). (x @ t, r)) (scan_string s1))"
  by pat_completeness auto

termination
  by (relation "measure length") (auto dest!: scan_escape_length)

definition scan_text :: "string \<Rightarrow> (string \<times> string) option" where
  "scan_text s = map_option (\<lambda>(t, r). (to_utf8 t, r)) (scan_string s)"


section \<open>Numbers\<close>

definition is_digit :: "char \<Rightarrow> bool" where
  "is_digit c \<longleftrightarrow> cont 48 57 c"

definition digits_value :: "string \<Rightarrow> int" where
  "digits_value s = foldl (\<lambda>a c. 10 * a + (byte c - 48)) 0 s"

text \<open>An integer part has no superfluous zero; a fraction and an exponent have a digit.\<close>

definition scan_int_part :: "string \<Rightarrow> (int \<times> string) option" where
  "scan_int_part s =
     (case s of
        [] \<Rightarrow> None
      | c # r \<Rightarrow>
          if c = CHR ''0'' then Some (0, r)
          else if is_digit c then Some (digits_value (takeWhile is_digit s), dropWhile is_digit s)
          else None)"

definition scan_fraction :: "string \<Rightarrow> (rat option \<times> string) option" where
  "scan_fraction s =
     (case s of
        c # r \<Rightarrow>
          if c = CHR ''.'' then
            (let ds = takeWhile is_digit r in
             if ds = [] then None
             else Some (Some (of_int (digits_value ds) / 10 ^ length ds), dropWhile is_digit r))
          else Some (None, s)
      | [] \<Rightarrow> Some (None, s))"

definition scan_exponent :: "string \<Rightarrow> (int option \<times> string) option" where
  "scan_exponent s =
     (case s of
        c # r \<Rightarrow>
          if c = CHR ''e'' \<or> c = CHR ''E'' then
            (let (sg, ds) = (case r of
                 x # r' \<Rightarrow> if x = CHR ''-'' then (- 1, r') else if x = CHR ''+'' then (1, r') else (1, r)
               | [] \<Rightarrow> (1, r))
             in if takeWhile is_digit ds = [] then None
                else Some (Some (sg * digits_value (takeWhile is_digit ds)), dropWhile is_digit ds))
          else Some (None, s)
      | [] \<Rightarrow> Some (None, s))"

definition power10 :: "int \<Rightarrow> rat" where
  "power10 e = (if 0 \<le> e then 10 ^ nat e else 1 / 10 ^ nat (- e))"

definition scan_number :: "string \<Rightarrow> (json \<times> string) option" where
  "scan_number s0 =
     (let neg = (case s0 of c # _ \<Rightarrow> c = CHR ''-'' | [] \<Rightarrow> False); s = (if neg then tl s0 else s0); sg = (if neg then - 1 else 1)
      in case scan_int_part s of
           None \<Rightarrow> None
         | Some (n, s1) \<Rightarrow>
             (case scan_fraction s1 of
                None \<Rightarrow> None
              | Some (f, s2) \<Rightarrow>
                  (case scan_exponent s2 of
                     None \<Rightarrow> None
                   | Some (e, s3) \<Rightarrow>
                       Some (case (f, e) of
                           (None, None) \<Rightarrow> JInt (sg * n)
                         | _ \<Rightarrow> JFrac (of_int sg * (of_int n + (case f of Some x \<Rightarrow> x | None \<Rightarrow> 0)) *
                             power10 (case e of Some x \<Rightarrow> x | None \<Rightarrow> 0)), s3))))"

section \<open>Values\<close>

definition skip :: "string \<Rightarrow> string" where
  "skip s = dropWhile (\<lambda>c. c = CHR '' '' \<or> c = CHR 0x09 \<or> c = CHR 0x0A \<or> c = CHR 0x0D) s"

definition scan_word :: "string \<Rightarrow> json \<Rightarrow> string \<Rightarrow> (json \<times> string) option" where
  "scan_word w j s = (if has_prefix s w then Some (j, drop (length w) s) else None)"

text \<open>
  The first argument is fuel; every call consumes a character, so more fuel than characters
  is never missed (\<open>scan_value_enough\<close>). The second counts the open brackets, of which Go
  allows 10000.
\<close>

fun scan_value :: "nat \<Rightarrow> int \<Rightarrow> string \<Rightarrow> (json \<times> string) option"
  and scan_members :: "nat \<Rightarrow> int \<Rightarrow> string \<Rightarrow> ((string \<times> json) list \<times> string) option"
  and scan_elements :: "nat \<Rightarrow> int \<Rightarrow> string \<Rightarrow> (json list \<times> string) option" where
  "scan_value 0 k s = None"
| "scan_value (Suc n) k s =
     (case skip s of
        [] \<Rightarrow> None
      | c # r \<Rightarrow>
          if c = CHR 0x22 then map_option (\<lambda>(t, r'). (JStr t, r')) (scan_text r)
          else if c = CHR ''{'' then
            (if k \<ge> 10000 then None else
             case skip r of
               [] \<Rightarrow> None
             | d # r' \<Rightarrow>
                 if d = CHR ''}'' then Some (JObj [], r')
                 else map_option (\<lambda>(ms, r'). (JObj ms, r')) (scan_members n (k + 1) (d # r')))
          else if c = CHR ''['' then
            (if k \<ge> 10000 then None else
             case skip r of
               [] \<Rightarrow> None
             | d # r' \<Rightarrow>
                 if d = CHR '']'' then Some (JArr [], r')
                 else map_option (\<lambda>(vs, r'). (JArr vs, r')) (scan_elements n (k + 1) (d # r')))
          else if c = CHR ''n'' then scan_word ''null'' JNull (c # r)
          else if c = CHR ''t'' then scan_word ''true'' (JBool True) (c # r)
          else if c = CHR ''f'' then scan_word ''false'' (JBool False) (c # r)
          else scan_number (c # r))"
| "scan_members 0 k s = None"
| "scan_members (Suc n) k s =
     (case skip s of
        [] \<Rightarrow> None
      | c # r \<Rightarrow>
          if c \<noteq> CHR 0x22 then None
          else (case scan_text r of
              None \<Rightarrow> None
            | Some (key, r1) \<Rightarrow>
                (case skip r1 of
                   [] \<Rightarrow> None
                 | d # r2 \<Rightarrow>
                     if d \<noteq> CHR '':'' then None
                     else (case scan_value n k r2 of
                         None \<Rightarrow> None
                       | Some (v, r3) \<Rightarrow>
                           (case skip r3 of
                              [] \<Rightarrow> None
                            | x # r4 \<Rightarrow>
                                if x = CHR ''}'' then Some ([(key, v)], r4)
                                else if x = CHR '','' then
                                  map_option (\<lambda>(ms, r'). ((key, v) # ms, r')) (scan_members n k r4)
                                else None)))))"
| "scan_elements 0 k s = None"
| "scan_elements (Suc n) k s =
     (case scan_value n k s of
        None \<Rightarrow> None
      | Some (v, r3) \<Rightarrow>
          (case skip r3 of
             [] \<Rightarrow> None
           | x # r4 \<Rightarrow>
               if x = CHR '']'' then Some ([v], r4)
               else if x = CHR '','' then
                 map_option (\<lambda>(vs, r'). (v # vs, r')) (scan_elements n k r4)
               else None))"

text \<open>
  \<open>Decoder.Decode\<close> takes the first value of its input and leaves the rest;
  \<open>Unmarshal\<close> allows only white space after the value.
\<close>

definition first_value :: "string \<Rightarrow> json option" where
  "first_value s = map_option fst (scan_value (2 * length s + 2) 0 s)"

definition whole_value :: "string \<Rightarrow> json option" where
  "whole_value s =
     (case scan_value (2 * length s + 2) 0 s of
        Some (j, r) \<Rightarrow> if skip r = [] then Some j else None
      | None \<Rightarrow> None)"

section \<open>Fuel\<close>

lemma skip_length: "length (skip s) \<le> length s"
  by (simp add: skip_def length_dropWhile_le)

lemma skip_Cons: "skip s = c # r \<Longrightarrow> length r < length s"
  using skip_length [of s] by simp

lemma scan_string_length: "scan_string s = Some (t, r) \<Longrightarrow> length r < length s"
  by (induction s arbitrary: t r rule: scan_string.induct)
    (fastforce split: if_splits option.splits dest!: scan_escape_length)+
lemma scan_text_length: "scan_text s = Some (t, r) \<Longrightarrow> length r < length s"
  by (auto simp: scan_text_def dest: scan_string_length)

lemma drop_digits: "length (dropWhile is_digit s) \<le> length s"
  by (rule length_dropWhile_le)

lemma scan_int_part_length: "scan_int_part s = Some (n, r) \<Longrightarrow> length r < length s"
  using drop_digits [of "tl s"]
  by (auto simp: scan_int_part_def split: list.splits if_splits)

lemma scan_fraction_length: "scan_fraction s = Some (f, r) \<Longrightarrow> length r \<le> length s"
  using drop_digits [of "tl s"]
  by (auto simp: scan_fraction_def Let_def split: list.splits if_splits)

lemma scan_exponent_length: "scan_exponent s = Some (e, r) \<Longrightarrow> length r \<le> length s"
  using drop_digits [of "tl s"] drop_digits [of "tl (tl s)"]
  by (auto simp: scan_exponent_def Let_def split: list.splits if_splits)

lemma scan_number_length: "scan_number s = Some (j, r) \<Longrightarrow> length r < length s"
  by (auto simp: scan_number_def Let_def split: option.splits if_splits list.splits
      dest!: scan_int_part_length scan_fraction_length scan_exponent_length)

lemma scan_word_length: "scan_word w j s = Some (i, r) \<Longrightarrow> w \<noteq> [] \<Longrightarrow> length r < length s"
  by (auto simp: scan_word_def has_prefix_def split: if_splits) (metis length_greater_0_conv take_eq_Nil2 diff_less)

lemma scan_length:
  "scan_value n k s = Some (j, r) \<Longrightarrow> length r < length s"
  "scan_members n k s = Some (ms, r) \<Longrightarrow> length r < length s"
  "scan_elements n k s = Some (vs, r) \<Longrightarrow> length r < length s"
proof (induction n arbitrary: k s j ms vs r)
  case (Suc n)
  note IH = Suc.IH
  {
    case 1
    then show ?case
      using IH(2,3) by (auto split: list.splits if_splits dest!: skip_Cons scan_text_length
          scan_word_length scan_number_length; fastforce)
  next
    case 2
    then show ?case
      using IH(1,2) by (auto split: list.splits if_splits option.splits dest!: skip_Cons scan_text_length; fastforce)
  next
    case 3
    then show ?case
      using IH(1,3) by (auto split: list.splits if_splits option.splits dest!: skip_Cons; fastforce)
  }
qed simp_all

lemma members_step:
  assumes v: "\<And>r. length r < length s \<Longrightarrow> scan_value (Suc n) k r = scan_value n k r"
    and m: "\<And>r. length r < length s \<Longrightarrow> scan_members (Suc n) k r = scan_members n k r"
  shows "scan_members (Suc (Suc n)) k s = scan_members (Suc n) k s"
proof -
  note eqs = scan_members.simps(2) [of "Suc n" k s] scan_members.simps(2) [of n k s]
  show ?thesis
  proof (cases "skip s")
    case s: (Cons c r)
    show ?thesis
    proof (cases "scan_text r")
      case t: (Some p)
      obtain key r1 where p: "p = (key, r1)" by (cases p)
      show ?thesis
      proof (cases "skip r1")
        case d: (Cons d r2)
        have len: "length r2 < length s"
          using skip_Cons [OF s] skip_Cons [OF d] scan_text_length [OF t [unfolded p]] by simp
        show ?thesis
        proof (cases "scan_value n k r2")
          case w: (Some q)
          obtain x r3 where q: "q = (x, r3)" by (cases q)
          show ?thesis
          proof (cases "skip r3")
            case (Cons y r4)
            have "length r4 < length s"
              using skip_Cons [OF Cons] scan_length(1) [OF w [unfolded q]] len by simp
            then show ?thesis unfolding eqs by (simp only: s t p d v [OF len] w q Cons m list.case option.case prod.case)
          qed (simp only: eqs s t p d v [OF len] w q list.case option.case prod.case)
        qed (simp only: eqs s t p d v [OF len] list.case option.case prod.case)
      qed (simp only: eqs s t p list.case option.case prod.case)
    qed (simp only: eqs s list.case option.case)
  qed (simp only: eqs list.case)
qed

lemma elements_step:
  assumes v: "scan_value (Suc n) k s = scan_value n k s"
    and m: "\<And>r. length r < length s \<Longrightarrow> scan_elements (Suc n) k r = scan_elements n k r"
  shows "scan_elements (Suc (Suc n)) k s = scan_elements (Suc n) k s"
proof -
  note eqs = scan_elements.simps(2) [of "Suc n" k s] scan_elements.simps(2) [of n k s]
  show ?thesis
  proof (cases "scan_value n k s")
    case w: (Some q)
    obtain x r3 where q: "q = (x, r3)" by (cases q)
    show ?thesis
    proof (cases "skip r3")
      case (Cons y r4)
      have "length r4 < length s"
        using skip_Cons [OF Cons] scan_length(1) [OF w [unfolded q]] by simp
      then show ?thesis unfolding eqs by (simp only: v w q Cons m list.case option.case prod.case)
    qed (simp only: eqs v w q list.case option.case prod.case)
  qed (simp only: eqs v option.case)
qed

lemma scan_more_fuel:
  "2 * length s < n \<Longrightarrow> scan_value (Suc n) k s = scan_value n k s"
  "2 * length s < n \<Longrightarrow> scan_members (Suc n) k s = scan_members n k s"
  "2 * length s + 1 < n \<Longrightarrow> scan_elements (Suc n) k s = scan_elements n k s"
proof (induction n arbitrary: k s)
  case (Suc n)
  note IH = Suc.IH
  {
    case 1
    have "scan_members (Suc n) (k + 1) (skip r) = scan_members n (k + 1) (skip r)"
         "scan_elements (Suc n) (k + 1) (skip r) = scan_elements n (k + 1) (skip r)"
      if "skip s = c # r" for c r
      using IH(2,3) [of "skip r"] 1 skip_Cons [OF that] skip_length [of r] by simp_all
    then show ?case
      by (auto simp: scan_value.simps(2) [of "Suc n"] scan_value.simps(2) [of n] simp del: scan_value.simps
        scan_members.simps scan_elements.simps split: list.split)
  next
    case 2
    show ?case by (rule members_step) (use IH(1,2) 2 in simp_all)
  next
    case 3
    show ?case by (rule elements_step) (use IH(1,3) 3 in simp_all)
  }
qed simp_all

lemma scan_value_enough:
  assumes "2 * length s < n"
  shows "scan_value n k s = scan_value (2 * length s + 2) k s"
proof -
  have "scan_value (2 * length s + 1 + d) k s = scan_value (2 * length s + 1) k s" for d
    by (induction d) (simp_all add: scan_more_fuel(1) del: scan_value.simps)
  from this [of "n - (2 * length s + 1)"] this [of 1] assms show ?thesis
    by (simp del: scan_value.simps)
qed

section \<open>Decoding into struct fields\<close>

text \<open>
  A member goes to the field whose name it equals up to case (two letters beyond ASCII fold
  to \<open>k\<close> and \<open>s\<close>), members that match no field are passed over, of several members for one
  field the last counts, and \<open>null\<close> leaves a field as it is. A value of another type than
  its field makes the whole decoding fail.
\<close>

fun fold_name :: "string \<Rightarrow> string" where
  "fold_name [] = []"
| "fold_name (c # s) =
     (if c = CHR 0xE2 \<and> has_prefix s [CHR 0x84, CHR 0xAA] then CHR ''k'' # fold_name (drop 2 s)
      else if c = CHR 0xC5 \<and> has_prefix s [CHR 0xBF] then CHR ''s'' # fold_name (drop 1 s)
      else (if 65 \<le> byte c \<and> byte c < 91 then char_of (byte c + 32) else c) # fold_name s)"

type_synonym 'a setter = "json \<Rightarrow> 'a \<Rightarrow> 'a option"

fun put_members :: "(string \<times> 'a setter) list \<Rightarrow> (string \<times> json) list \<Rightarrow> 'a \<Rightarrow> 'a option" where
  "put_members fields [] a = Some a"
| "put_members fields ((k, v) # ms) a =
     (case List.find (\<lambda>(n, f). fold_name n = fold_name k) fields of
        None \<Rightarrow> put_members fields ms a
      | Some (n, f) \<Rightarrow> (case f v a of None \<Rightarrow> None | Some a' \<Rightarrow> put_members fields ms a'))"

definition into_struct :: "(string \<times> 'a setter) list \<Rightarrow> 'a setter" where
  "into_struct fields j a =
     (case j of JNull \<Rightarrow> Some a | JObj ms \<Rightarrow> put_members fields ms a | _ \<Rightarrow> None)"

definition str_field :: "((string \<Rightarrow> string) \<Rightarrow> 'a \<Rightarrow> 'a) \<Rightarrow> 'a setter" where
  "str_field upd j a = (case j of JNull \<Rightarrow> Some a | JStr s \<Rightarrow> Some (upd (\<lambda>_. s) a) | _ \<Rightarrow> None)"

definition int_field :: "((int \<Rightarrow> int) \<Rightarrow> 'a \<Rightarrow> 'a) \<Rightarrow> 'a setter" where
  "int_field upd j a =
     (case j of JNull \<Rightarrow> Some a
      | JInt n \<Rightarrow> if - (2 ^ 63) \<le> n \<and> n < 2 ^ 63 then Some (upd (\<lambda>_. n) a) else None
      | _ \<Rightarrow> None)"

text \<open>\<open>map[string]string\<close>: an object adds its members to the map, \<open>null\<close> sets it to \<open>nil\<close>.\<close>

fun put_entries :: "(string \<times> json) list \<Rightarrow> (string \<times> string) list \<Rightarrow> (string \<times> string) list option" where
  "put_entries [] es = Some es"
| "put_entries ((k, v) # ms) es =
     (case v of
        JStr s \<Rightarrow> put_entries ms (filter (\<lambda>e. fst e \<noteq> k) es @ [(k, s)])
      | JNull \<Rightarrow> put_entries ms (filter (\<lambda>e. fst e \<noteq> k) es @ [(k, [])])
      | _ \<Rightarrow> None)"

definition map_field ::
  "(((string \<times> string) list option \<Rightarrow> (string \<times> string) list option) \<Rightarrow> 'a \<Rightarrow> 'a) \<Rightarrow>
   ('a \<Rightarrow> (string \<times> string) list option) \<Rightarrow> 'a setter" where
  "map_field upd sel j a =
     (case j of
        JNull \<Rightarrow> Some (upd (\<lambda>_. None) a)
      | JObj ms \<Rightarrow> map_option (\<lambda>es. upd (\<lambda>_. Some es) a)
          (put_entries ms (case sel a of None \<Rightarrow> [] | Some es \<Rightarrow> es))
      | _ \<Rightarrow> None)"

text \<open>
  The one thing left open of numbers: which \<open>float64\<close> a literal is rounded to, if it is in
  range, and what the conversion of a \<open>float64\<close> beyond \<open>int64\<close> gives, which Go leaves to
  the machine; and the wording of a decoder's error. Integers up to 53 bits are exact.
\<close>

record go_runtime =
  float64 :: "rat \<Rightarrow> rat option"
  overflow_int :: "rat \<Rightarrow> int"
  decode_msg :: "string \<Rightarrow> string"

definition runtime_ok :: "go_runtime \<Rightarrow> bool" where
  "runtime_ok rt \<longleftrightarrow> (\<forall>n. \<bar>n\<bar> \<le> 2 ^ 53 \<longrightarrow> float64 rt (of_int n) = Some (of_int n))"

definition float_field :: "go_runtime \<Rightarrow> ((rat \<Rightarrow> rat) \<Rightarrow> 'a \<Rightarrow> 'a) \<Rightarrow> 'a setter" where
  "float_field rt upd j a =
     (case j of JNull \<Rightarrow> Some a
      | JInt n \<Rightarrow> map_option (\<lambda>x. upd (\<lambda>_. x) a) (float64 rt (of_int n))
      | JFrac x \<Rightarrow> map_option (\<lambda>x. upd (\<lambda>_. x) a) (float64 rt x)
      | _ \<Rightarrow> None)"

text \<open>\<open>int64(x)\<close> truncates towards zero.\<close>

definition int64_of :: "go_runtime \<Rightarrow> rat \<Rightarrow> int" where
  "int64_of rt x =
     (let n = (if x < 0 then - \<lfloor>- x\<rfloor> else \<lfloor>x\<rfloor>)
      in if - (2 ^ 63) \<le> n \<and> n < 2 ^ 63 then n else overflow_int rt x)"

definition exact_runtime :: go_runtime where
  "exact_runtime = \<lparr>float64 = Some, overflow_int = (\<lambda>x. - (2 ^ 63)), decode_msg = (\<lambda>s. ''EOF'')\<rparr>"

lemma exact_runtime_ok: "runtime_ok exact_runtime"
  by (simp add: runtime_ok_def exact_runtime_def)

text \<open>Decoding into \<open>any\<close> needs every number of the document in the range of \<open>float64\<close>.\<close>

fun floats_ok :: "go_runtime \<Rightarrow> json \<Rightarrow> bool" where
  "floats_ok rt (JInt n) = (float64 rt (of_int n) \<noteq> None)"
| "floats_ok rt (JFrac x) = (float64 rt x \<noteq> None)"
| "floats_ok rt (JArr vs) = list_all (floats_ok rt) vs"
| "floats_ok rt (JObj ms) = list_all (\<lambda>m. floats_ok rt (snd m)) ms"
| "floats_ok rt j = True"

text \<open>A field that is a struct itself.\<close>

definition struct_field :: "(('b \<Rightarrow> 'b) \<Rightarrow> 'a \<Rightarrow> 'a) \<Rightarrow> ('a \<Rightarrow> 'b) \<Rightarrow> (string \<times> 'b setter) list \<Rightarrow> 'a setter"
where
  "struct_field upd sel specs j a = map_option (\<lambda>b. upd (\<lambda>_. b) a) (into_struct specs j (sel a))"

text \<open>A string as it is encoded: what is not UTF-8 is replaced.\<close>

definition jstr :: "string \<Rightarrow> json" where
  "jstr s = JStr (to_utf8 s)"

text \<open>The value a member has in an object, for statements on what was sent.\<close>

definition member :: "json \<Rightarrow> string \<Rightarrow> json option" where
  "member j k = (case j of JObj ms \<Rightarrow> map_of ms k | _ \<Rightarrow> None)"

end
