(* ===== verification/Jwt.thy ===== *)
theory Jwt
  imports Sha256 Json
begin

text \<open>
  The token check of the buyer-facing routes (\<open>internal/api/jwt.go\<close>), over the concrete
  HMAC-SHA256, base 64 and JSON of the library theories. The clock is read once for each of
  the two claims.
\<close>

text \<open>\<open>claims[name].(float64)\<close>, then \<open>int64\<close>; a claim of another type counts as absent.\<close>

definition claim_time :: "go_runtime \<Rightarrow> (string \<times> json) list \<Rightarrow> string \<Rightarrow> int option" where
  "claim_time rt claims name =
     (case map_of (rev claims) name of
        Some (JInt n) \<Rightarrow> map_option (int64_of rt) (float64 rt (of_int n))
      | Some (JFrac x) \<Rightarrow> map_option (int64_of rt) (float64 rt x)
      | _ \<Rightarrow> None)"

text \<open>\<open>json.Unmarshal\<close> into \<open>map[string]any\<close>; \<open>null\<close> gives the \<open>nil\<close> map.\<close>

definition read_claims :: "go_runtime \<Rightarrow> string \<Rightarrow> (string \<times> json) list option" where
  "read_claims rt payload =
     (case whole_value payload of
        Some (JObj ms) \<Rightarrow> if floats_ok rt (JObj ms) then Some ms else None
      | Some JNull \<Rightarrow> Some []
      | _ \<Rightarrow> None)"

definition validateJWT :: "go_runtime \<Rightarrow> int \<Rightarrow> int \<Rightarrow> string \<Rightarrow> string \<Rightarrow> bool" where
  "validateJWT rt now1 now2 token secret =
     (case split_on (CHR ''.'') token of
        [p0, p1, p2] \<Rightarrow>
          if b64_encode (hmac_sha256 secret (p0 @ ''.'' @ p1)) \<noteq> p2 then False
          else (case b64_decode p1 of
              None \<Rightarrow> False
            | Some payload \<Rightarrow>
                (case read_claims rt payload of
                   None \<Rightarrow> False
                 | Some claims \<Rightarrow>
                     if (case claim_time rt claims ''exp'' of Some e \<Rightarrow> now1 \<ge> e | None \<Rightarrow> False) then False
                     else if (case claim_time rt claims ''nbf'' of Some n \<Rightarrow> now2 < n | None \<Rightarrow> False) then False
                     else True))
      | _ \<Rightarrow> False)"


section \<open>A reference issuer\<close>

text \<open>How a token is issued by whoever holds the secret: RFC 7515, compact serialization.\<close>

definition sign_jwt :: "string \<Rightarrow> string \<Rightarrow> string \<Rightarrow> string" where
  "sign_jwt secret header payload =
     (let m = b64_encode header @ ''.'' @ b64_encode payload
      in m @ ''.'' @ b64_encode (hmac_sha256 secret m))"

text \<open>The window in which a token is good.\<close>

definition in_window :: "go_runtime \<Rightarrow> int \<Rightarrow> int \<Rightarrow> (string \<times> json) list \<Rightarrow> bool" where
  "in_window rt now1 now2 claims \<longleftrightarrow>
     (\<forall>e. claim_time rt claims ''exp'' = Some e \<longrightarrow> now1 < e) \<and>
     (\<forall>n. claim_time rt claims ''nbf'' = Some n \<longrightarrow> n \<le> now2)"

lemma split_three:
  assumes "CHR ''.'' \<notin> set a" and "CHR ''.'' \<notin> set b" and "CHR ''.'' \<notin> set c"
  shows "split_on (CHR ''.'') (a @ ''.'' @ b @ ''.'' @ c) = [a, b, c]"
  using assms by (simp add: split_on_append split_on_free)

lemma split_three_only:
  assumes "split_on (CHR ''.'') s = [a, b, c]"
  shows "s = a @ ''.'' @ b @ ''.'' @ c \<and> CHR ''.'' \<notin> set a \<and> CHR ''.'' \<notin> set b"
  using join_split_on [of "CHR ''.''" s] split_parts_free [of a "CHR ''.''" s]
    split_parts_free [of b "CHR ''.''" s] assms by simp

lemma append_dot: "''.'' @ s = CHR ''.'' # s"
  by simp

lemma validateJWT_parts:
  assumes "CHR ''.'' \<notin> set a" and "CHR ''.'' \<notin> set b"
  shows "validateJWT rt t1 t2 (a @ ''.'' @ b @ ''.'' @ c) secret \<longleftrightarrow>
    c = b64_encode (hmac_sha256 secret (a @ ''.'' @ b)) \<and>
    (\<exists>payload claims. b64_decode b = Some payload \<and> read_claims rt payload = Some claims \<and>
      in_window rt t1 t2 claims)"
proof (cases "c = b64_encode (hmac_sha256 secret (a @ ''.'' @ b))")
  case True
  then have c: "CHR ''.'' \<notin> set c" by (simp add: b64_no_dot)
  show ?thesis
    using True unfolding validateJWT_def split_three [OF assms c]
    by (auto simp: in_window_def split: option.splits)
next
  case False
  have "\<not> validateJWT rt t1 t2 (a @ ''.'' @ b @ ''.'' @ c) secret"
  proof (cases "CHR ''.'' \<in> set c")
    case True
    then obtain x y zs where "split_on (CHR ''.'') c = x # y # zs" using split_on_many by blast
    moreover have "split_on (CHR ''.'') (a @ ''.'' @ b @ ''.'' @ c) = a # b # split_on (CHR ''.'') c"
      using assms by (simp add: split_on_append)
    ultimately show ?thesis unfolding validateJWT_def by simp
  next
    case nodot: False
    with False show ?thesis unfolding validateJWT_def split_three [OF assms nodot] by simp
  qed
  with False show ?thesis by simp
qed


text \<open>A token issued under the secret is as good as its claims.\<close>

lemma validateJWT_signed:
  "validateJWT rt now1 now2 (sign_jwt secret header payload) secret \<longleftrightarrow>
     (\<exists>claims. read_claims rt payload = Some claims \<and> in_window rt now1 now2 claims)"
  using validateJWT_parts [OF b64_no_dot b64_no_dot, of rt now1 now2 header payload _ secret]
  by (simp add: sign_jwt_def Let_def b64_roundtrip)


section \<open>Properties\<close>

text \<open>
  C10 (accepted tokens). A token is accepted exactly if it consists of two parts without a
  dot and the unpadded base 64 of their HMAC-SHA256 under the secret, its second part
  decodes to a JSON object or \<open>null\<close>, and the numeric claims \<open>exp\<close> and \<open>nbf\<close>, if there are
  any, put the clock into their window. What the first part says is never read.
\<close>

theorem jwt_accepted_iff:
  "validateJWT rt now1 now2 token secret \<longleftrightarrow>
     (\<exists>p0 p1 payload claims. CHR ''.'' \<notin> set p0 \<and> CHR ''.'' \<notin> set p1 \<and>
        token = p0 @ ''.'' @ p1 @ ''.'' @ b64_encode (hmac_sha256 secret (p0 @ ''.'' @ p1)) \<and>
        b64_decode p1 = Some payload \<and> read_claims rt payload = Some claims \<and>
        in_window rt now1 now2 claims)"
proof
  assume v: "validateJWT rt now1 now2 token secret"
  then obtain a b c where s: "split_on (CHR ''.'') token = [a, b, c]"
    by (auto simp: validateJWT_def split: list.splits)
  from split_three_only [OF s] v validateJWT_parts [of a b rt now1 now2 c secret]
  show "\<exists>p0 p1 payload claims. CHR ''.'' \<notin> set p0 \<and> CHR ''.'' \<notin> set p1 \<and>
        token = p0 @ ''.'' @ p1 @ ''.'' @ b64_encode (hmac_sha256 secret (p0 @ ''.'' @ p1)) \<and>
        b64_decode p1 = Some payload \<and> read_claims rt payload = Some claims \<and>
        in_window rt now1 now2 claims" by blast
qed (use validateJWT_parts in blast)

text \<open>
  Result (issue and check). A token issued under the secret for any header and payload is
  accepted exactly if the payload is a JSON object or \<open>null\<close> with the clock in its window.
\<close>

theorem jwt_issued_accepted:
  "validateJWT rt now1 now2 (sign_jwt secret header payload) secret \<longleftrightarrow>
     (\<exists>claims. read_claims rt payload = Some claims \<and> in_window rt now1 now2 claims)"
  by (rule validateJWT_signed)

text \<open>
  C40 (a claim of the wrong type). A token whose \<open>exp\<close> is present but not a number, a string
  for instance, and that has no numeric \<open>nbf\<close>, never expires.
\<close>

theorem jwt_text_exp_never_expires:
  assumes "read_claims rt payload = Some claims"
    and "map_of (rev claims) ''exp'' = Some (JStr e)" and "map_of (rev claims) ''nbf'' = None"
  shows "validateJWT rt now1 now2 (sign_jwt secret header payload) secret"
proof -
  have "in_window rt now1 now2 claims" using assms(2,3) by (simp add: in_window_def claim_time_def)
  with assms(1) show ?thesis by (simp add: validateJWT_signed)
qed

definition quoted :: "string \<Rightarrow> string" where
  "quoted s = [CHR 0x22] @ s @ [CHR 0x22]"

theorem jwt_text_exp_never_expires_witness:
  "validateJWT exact_runtime 4102444800 4102444800
     (sign_jwt ''k'' ''{}'' (''{'' @ quoted ''exp'' @ '':'' @ quoted ''0'' @ ''}'')) ''k''"
proof -
  let ?p = "''{'' @ quoted ''exp'' @ '':'' @ quoted ''0'' @ ''}''"
  have c: "read_claims exact_runtime ?p = Some [(''exp'', JStr ''0'')]" by code_simp
  show ?thesis by (rule jwt_text_exp_never_expires [OF c]) simp_all
qed

end
