(* ===== verification/Sshca.thy ===== *)
theory Sshca
  imports Go_Prelude
begin

text \<open>
  The SSH certificate authority (\<open>internal/sshca/sshca.go\<close>). The package
  \<open>golang.org/x/crypto/ssh\<close> is not part of the repository: its keys, signers and signed
  certificates are types of their own, and its functions are the record \<open>ssh_lib\<close>. The three
  readings of the clock are arguments, in nanoseconds since 1970.
\<close>

record 'k certificate =
  c_Key :: 'k
  c_CertType :: int
  c_KeyId :: string
  c_ValidPrincipals :: "string list"
  c_ValidAfter :: int
  c_ValidBefore :: int
  c_Extensions :: "(string \<times> string) list"

record ('k, 's, 'c) ssh_lib =
  ParsePrivateKey :: "string \<Rightarrow> 's result"
  ParseAuthorizedKey :: "string \<Rightarrow> 'k result"
  SignerPublicKey :: "'s \<Rightarrow> 'k"
  SignCert :: "'s \<Rightarrow> 'k certificate \<Rightarrow> 'c result"
  MarshalKey :: "'k \<Rightarrow> string"
  MarshalCert :: "'c \<Rightarrow> string"

text \<open>\<open>ssh.UserCert\<close>\<close>

definition UserCert :: int where
  "UserCert = 1"

record 's ca =
  signer :: 's

text \<open>\<open>contents\<close> is what \<open>os.ReadFile\<close> returns.\<close>

definition Load :: "('k, 's, 'c) ssh_lib \<Rightarrow> string result \<Rightarrow> 's ca result" where
  "Load L contents =
     (case contents of
        Inl e \<Rightarrow> Inl (Errorf ''read ssh ca key: '' e [])
      | Inr b \<Rightarrow>
          (case ParsePrivateKey L b of
             Inl e \<Rightarrow> Inl (Errorf ''parse ssh ca key: '' e [])
           | Inr s \<Rightarrow> Inr \<lparr>signer = s\<rparr>))"

record sign_request =
  sg_UserPubKey :: string
  sg_Principal :: string
  sg_VMID :: string
  sg_TTL :: int

text \<open>\<open>t.Add(d).Unix()\<close> on an instant in nanoseconds; the sum does not wrap in \<open>time.Time\<close>.\<close>

definition unix_of :: "int \<Rightarrow> int" where
  "unix_of t = t div 1000000000"

definition new_certificate :: "int \<Rightarrow> int \<Rightarrow> int \<Rightarrow> 'k \<Rightarrow> sign_request \<Rightarrow> 'k certificate" where
  "new_certificate t1 t2 t3 pubKey req =
     (let ttl = (if sg_TTL req = 0 then 8 * 3600000000000 else sg_TTL req)
      in \<lparr>c_Key = pubKey, c_CertType = UserCert,
          c_KeyId = ''dcp-'' @ sg_VMID req @ ''-'' @ show_int (unix_of t1),
          c_ValidPrincipals = [sg_Principal req],
          c_ValidAfter = uint64 (unix_of (t2 + (- 30 * 1000000000))),
          c_ValidBefore = uint64 (unix_of (t3 + ttl)),
          c_Extensions = [(''permit-pty'', []), (''permit-user-rc'', []), (''permit-port-forwarding'', [])]\<rparr>)"

definition IssueCert :: "('k, 's, 'c) ssh_lib \<Rightarrow> 's ca \<Rightarrow> int \<Rightarrow> int \<Rightarrow> int \<Rightarrow> sign_request \<Rightarrow> string result"
where
  "IssueCert L ca t1 t2 t3 req =
     (case ParseAuthorizedKey L (sg_UserPubKey req) of
        Inl e \<Rightarrow> Inl (Errorf ''parse user pubkey: '' e [])
      | Inr pubKey \<Rightarrow>
          (case SignCert L (signer ca) (new_certificate t1 t2 t3 pubKey req) of
             Inl e \<Rightarrow> Inl (Errorf ''sign cert: '' e [])
           | Inr c \<Rightarrow> Inr (MarshalCert L c)))"

definition PublicKey :: "('k, 's, 'c) ssh_lib \<Rightarrow> 's ca \<Rightarrow> string" where
  "PublicKey L ca = MarshalKey L (SignerPublicKey L (signer ca))"

text \<open>
  When a server accepts a certificate (OpenSSH's \<open>PROTOCOL.certkeys\<close>): the time in seconds
  lies in the half-open window of two unsigned 64-bit bounds, which are compared as such.
\<close>

definition accepted_at :: "'k certificate \<Rightarrow> int \<Rightarrow> bool" where
  "accepted_at c t \<longleftrightarrow> c_ValidAfter c \<le> t \<and> t < c_ValidBefore c"

text \<open>How the API turns hours into a duration: a multiplication of 64-bit integers.\<close>

definition ttl_of_hours :: "int \<Rightarrow> int" where
  "ttl_of_hours h = wrap64 (h * 3600000000000)"

text \<open>A library over plain strings for closed examples.\<close>

definition plain_ssh :: "(string, string, string certificate) ssh_lib" where
  "plain_ssh = \<lparr>ParsePrivateKey = Inr, ParseAuthorizedKey = Inr, SignerPublicKey = (\<lambda>s. s),
     SignCert = (\<lambda>s c. Inr c), MarshalKey = (\<lambda>k. k), MarshalCert = (\<lambda>c. ''cert'')\<rparr>"


section \<open>Facts\<close>

lemma uint64_neg: "- (2 ^ 64) \<le> n \<Longrightarrow> n < 0 \<Longrightarrow> uint64 n = n + 2 ^ 64"
  unfolding uint64_def by (rule int_mod_pos_eq [where q = "-1"]) simp_all

lemma unix_of_add: "unix_of (t + d * 1000000000) = unix_of t + d"
  by (simp add: unix_of_def)

lemma unix_of_mono: "s \<le> t \<Longrightarrow> unix_of s \<le> unix_of t"
  by (simp add: unix_of_def zdiv_mono1)

lemma wrap64_hours:
  assumes "\<bar>h\<bar> \<le> 2562047"
  shows "ttl_of_hours h = h * 3600 * 1000000000"
  using assms by (simp add: ttl_of_hours_def)

lemma wrap64_hours_over: "ttl_of_hours 2562048 = - 9223371273709551616"
  by (simp add: ttl_of_hours_def wrap64_def)


section \<open>Properties\<close>

text \<open>
  C11 (certificates). The certificate that is signed for a request of 0 to 2562047 hours
  names the parsed key, the one principal asked for and the VM, and is accepted from 30
  seconds before it was issued until the hours (8 if none are asked for) have passed, and at
  no other time.
\<close>

theorem IssueCert_window:
  assumes "IssueCert L ca t t t req = Inr line" and "sg_TTL req = ttl_of_hours h"
    and "0 \<le> h \<and> h \<le> 2562047" and "30 * 1000000000 \<le> t \<and> t < 2 ^ 63"
  shows "\<exists>pubKey c signed. ParseAuthorizedKey L (sg_UserPubKey req) = Inr pubKey \<and>
    SignCert L (signer ca) c = Inr signed \<and> line = MarshalCert L signed \<and> c_Key c = pubKey \<and>
    c_ValidPrincipals c = [sg_Principal req] \<and> c_CertType c = UserCert \<and>
    c_KeyId c = ''dcp-'' @ sg_VMID req @ ''-'' @ show_int (unix_of t) \<and>
    (\<forall>s. accepted_at c s \<longleftrightarrow> unix_of t - 30 \<le> s \<and> s < unix_of t + (if h = 0 then 8 else h) * 3600)"
proof -
  obtain pubKey signed where k: "ParseAuthorizedKey L (sg_UserPubKey req) = Inr pubKey"
    "SignCert L (signer ca) (new_certificate t t t pubKey req) = Inr signed" "line = MarshalCert L signed"
    using assms(1) by (auto simp: IssueCert_def split: sum.splits)
  let ?hours = "if h = 0 then 8 else h"
  have ttl: "(if sg_TTL req = 0 then 8 * 3600000000000 else sg_TTL req) = (?hours * 3600) * 1000000000"
    using assms(2,3) wrap64_hours [of h] by auto
  have u: "30 \<le> unix_of t" "unix_of t < 2 ^ 34"
    using unix_of_mono [of "30 * 1000000000" t] unix_of_mono [of t "2 ^ 63"] assms(4)
    by (simp_all add: unix_of_def)
  have "c_ValidAfter (new_certificate t t t pubKey req) = uint64 (unix_of t + - 30)"
    unfolding new_certificate_def Let_def by (simp only: certificate.simps unix_of_add)
  moreover have "c_ValidBefore (new_certificate t t t pubKey req) = uint64 (unix_of t + ?hours * 3600)"
    unfolding new_certificate_def Let_def by (simp only: certificate.simps ttl unix_of_add)
  ultimately have "accepted_at (new_certificate t t t pubKey req) s \<longleftrightarrow>
      unix_of t - 30 \<le> s \<and> s < unix_of t + ?hours * 3600" for s
    using u assms(3) by (simp add: accepted_at_def)
  then show ?thesis
    using k by (intro exI [of _ pubKey] exI [of _ "new_certificate t t t pubKey req"] exI [of _ signed])
      (simp add: new_certificate_def Let_def)
qed

definition sample_sign :: "int \<Rightarrow> sign_request" where
  "sample_sign h = \<lparr>sg_UserPubKey = ''ssh-ed25519 AAAA'', sg_Principal = ''root'', sg_VMID = ''vm1'',
     sg_TTL = ttl_of_hours h\<rparr>"

definition noon :: int where
  "noon = 1763467200 * 1000000000"

theorem IssueCert_window_witness:
  "IssueCert plain_ssh \<lparr>signer = ''ca''\<rparr> noon noon noon (sample_sign 1) = Inr ''cert'' \<and>
   (\<exists>c. c_Key c = ''ssh-ed25519 AAAA'' \<and> accepted_at c 1763470799 \<and> \<not> accepted_at c 1763470800)"
proof -
  have i: "IssueCert plain_ssh \<lparr>signer = ''ca''\<rparr> noon noon noon (sample_sign 1) = Inr ''cert''"
    by (simp add: IssueCert_def plain_ssh_def)
  have "sg_TTL (sample_sign 1) = ttl_of_hours 1" by (simp add: sample_sign_def)
  from IssueCert_window [OF i this] obtain c where
    "c_Key c = ''ssh-ed25519 AAAA''" "\<forall>s. accepted_at c s \<longleftrightarrow> unix_of noon - 30 \<le> s \<and> s < unix_of noon + 3600"
    by (auto simp: noon_def plain_ssh_def sample_sign_def)
  then have "c_Key c = ''ssh-ed25519 AAAA'' \<and> accepted_at c 1763470799 \<and> \<not> accepted_at c 1763470800"
    by (simp add: unix_of_def noon_def)
  with i show ?thesis by blast
qed

text \<open>
  C39 (a certificate without end). A request for 2562048 hours wraps to a negative duration,
  and the end of the window, a negative time taken as unsigned, lies beyond every date: at
  any time before the year 2262 such a certificate is accepted for as long as there are
  signed 64-bit seconds. Likewise any request for a negative number of hours that reaches
  back before 1970.
\<close>

theorem IssueCert_without_end:
  assumes "IssueCert L ca t t t req = Inr line" and "sg_TTL req = ttl_of_hours h"
    and "h = 2562048 \<or> - 2562047 \<le> h \<and> h < 0 \<and> unix_of t + h * 3600 < 0"
    and "30 * 1000000000 \<le> t \<and> t < 9223371273709551616"
  shows "\<exists>c signed. SignCert L (signer ca) c = Inr signed \<and> line = MarshalCert L signed \<and>
    (\<forall>s. unix_of t - 30 \<le> s \<longrightarrow> s < 2 ^ 63 \<longrightarrow> accepted_at c s)"
proof -
  obtain pubKey signed where k: "ParseAuthorizedKey L (sg_UserPubKey req) = Inr pubKey"
    "SignCert L (signer ca) (new_certificate t t t pubKey req) = Inr signed" "line = MarshalCert L signed"
    using assms(1) by (auto simp: IssueCert_def split: sum.splits)
  have u: "30 \<le> unix_of t" "unix_of t < 2 ^ 34"
    using unix_of_mono [of "30 * 1000000000" t] unix_of_mono [of t "2 ^ 63"] assms(4)
    by (simp_all add: unix_of_def)
  have ttl: "sg_TTL req \<noteq> 0" "unix_of (t + sg_TTL req) < 0" "- (2 ^ 63) \<le> unix_of (t + sg_TTL req)"
  proof -
    have "sg_TTL req \<noteq> 0 \<and> unix_of (t + sg_TTL req) < 0 \<and> - (2 ^ 63) \<le> unix_of (t + sg_TTL req)"
    proof (cases "h = 2562048")
      case True
      with assms(2) have w: "sg_TTL req = - 9223371273709551616" by (simp add: wrap64_hours_over)
      with assms(4) have "t + sg_TTL req < 0" "- 9223371273709551616 \<le> t + sg_TTL req" by auto
      then have "unix_of (t + sg_TTL req) < 0" "unix_of (- 9223371273709551616) \<le> unix_of (t + sg_TTL req)"
        by (simp_all only: unix_of_mono) (simp add: unix_of_def pos_imp_zdiv_neg_iff)
      with w show ?thesis by (simp add: unix_of_def)
    next
      case False
      with assms(3) have h: "- 2562047 \<le> h" "h < 0" "unix_of t + h * 3600 < 0" by auto
      then have w: "sg_TTL req = (h * 3600) * 1000000000" using assms(2) wrap64_hours [of h] by simp
      then have "sg_TTL req \<noteq> 0" using h(2) by simp
      moreover have "unix_of (t + sg_TTL req) = unix_of t + h * 3600" unfolding w by (rule unix_of_add)
      ultimately show ?thesis using h u by simp
    qed
    then show "sg_TTL req \<noteq> 0" "unix_of (t + sg_TTL req) < 0" "- (2 ^ 63) \<le> unix_of (t + sg_TTL req)"
      by simp_all
  qed
  have "c_ValidAfter (new_certificate t t t pubKey req) = uint64 (unix_of t + - 30)"
    unfolding new_certificate_def Let_def by (simp only: certificate.simps unix_of_add)
  moreover have "c_ValidBefore (new_certificate t t t pubKey req) = unix_of (t + sg_TTL req) + 2 ^ 64"
    using ttl uint64_neg [of "unix_of (t + sg_TTL req)"] by (simp add: new_certificate_def Let_def)
  ultimately have "accepted_at (new_certificate t t t pubKey req) s"
    if "unix_of t - 30 \<le> s" "s < 2 ^ 63" for s
    using u ttl(3) that by (simp add: accepted_at_def)
  with k show ?thesis by blast
qed

theorem IssueCert_without_end_witness:
  "IssueCert plain_ssh \<lparr>signer = ''ca''\<rparr> noon noon noon (sample_sign 2562048) = Inr ''cert'' \<and>
   (\<exists>c :: string certificate. accepted_at c 9223372036854775807)"
proof -
  have i: "IssueCert plain_ssh \<lparr>signer = ''ca''\<rparr> noon noon noon (sample_sign 2562048) = Inr ''cert''"
    by (simp add: IssueCert_def plain_ssh_def)
  have "sg_TTL (sample_sign 2562048) = ttl_of_hours 2562048" by (simp add: sample_sign_def)
  from IssueCert_without_end [OF i this] obtain c :: "string certificate"
    where "\<forall>s. unix_of noon - 30 \<le> s \<longrightarrow> s < 2 ^ 63 \<longrightarrow> accepted_at c s"
    by (auto simp: noon_def)
  then have "accepted_at c 9223372036854775807" by (simp add: noon_def unix_of_def)
  with i show ?thesis by blast
qed

end
