(* ===== verification/Host.thy ===== *)
theory Host
  imports Go_Prelude
begin

text \<open>
  The machine a command runs on, as \<open>os\<close> and \<open>os/exec\<close> show it: files with their
  permission bits, programs, environment. What a program prints, whether it fails and what
  it does to files is not the repository's code and is a parameter (\<open>machine\<close>), as are the
  errors of the file system; every program that is run is recorded in order. A write that
  fails is taken to fail before it opens the file, and directories are not part of the state.
\<close>

record file_entry =
  contents :: string
  mode :: int

type_synonym file_system = "string \<Rightarrow> file_entry option"

text \<open>A program answers to the programs run before, its arguments and its standard input.\<close>

record machine =
  answer :: "string list list \<Rightarrow> string list \<Rightarrow> string \<Rightarrow> string \<times> go_error option"
  program_files :: "string list \<Rightarrow> file_system \<Rightarrow> file_system"
  read_error :: "string \<Rightarrow> go_error option"
  write_error :: "string \<Rightarrow> go_error option"
  mkdir_error :: "string \<Rightarrow> go_error option"
  getenv :: "string \<Rightarrow> string"

record host =
  machine :: machine
  files :: file_system
  ran :: "string list list"

definition Exec :: "string list \<Rightarrow> string \<Rightarrow> host \<Rightarrow> (string \<times> go_error option) \<times> host" where
  "Exec argv stdin H =
     (answer (machine H) (ran H) argv stdin,
      H\<lparr>files := program_files (machine H) argv (files H), ran := ran H @ [argv]\<rparr>)"

text \<open>A program whose output is not asked for, and \<open>err == nil\<close> of it.\<close>

definition Run :: "string list \<Rightarrow> host \<Rightarrow> go_error option \<times> host" where
  "Run argv H = (let ((out, err), H') = Exec argv [] H in (err, H'))"

definition no_such_file :: "string \<Rightarrow> go_error" where
  "no_such_file p = Plain (''open '' @ p @ '': no such file or directory'')"

definition ReadFile :: "string \<Rightarrow> host \<Rightarrow> string result" where
  "ReadFile p H =
     (case read_error (machine H) p of
        Some e \<Rightarrow> Inl e
      | None \<Rightarrow> (case files H p of None \<Rightarrow> Inl (no_such_file p) | Some f \<Rightarrow> Inr (contents f)))"

definition exists_file :: "string \<Rightarrow> host \<Rightarrow> bool" where
  "exists_file p H \<longleftrightarrow> files H p \<noteq> None"

text \<open>The permission bits count only when the file is created.\<close>

definition WriteFile :: "string \<Rightarrow> string \<Rightarrow> int \<Rightarrow> host \<Rightarrow> go_error option \<times> host" where
  "WriteFile p c m H =
     (case write_error (machine H) p of
        Some e \<Rightarrow> (Some e, H)
      | None \<Rightarrow> (None, H\<lparr>files := (files H)(p \<mapsto>
          \<lparr>contents = c, mode = (case files H p of Some f \<Rightarrow> mode f | None \<Rightarrow> m)\<rparr>)\<rparr>))"

definition AppendFile :: "string \<Rightarrow> string \<Rightarrow> int \<Rightarrow> host \<Rightarrow> go_error option \<times> host" where
  "AppendFile p c m H =
     (case write_error (machine H) p of
        Some e \<Rightarrow> (Some e, H)
      | None \<Rightarrow> (None, H\<lparr>files := (files H)(p \<mapsto>
          (case files H p of
             Some f \<Rightarrow> f\<lparr>contents := contents f @ c\<rparr>
           | None \<Rightarrow> \<lparr>contents = c, mode = m\<rparr>))\<rparr>))"

definition MkdirAll :: "string \<Rightarrow> host \<Rightarrow> go_error option" where
  "MkdirAll p H = mkdir_error (machine H) p"

text \<open>\<open>filepath.Join\<close> below a rooted directory, with the cleaning it does.\<close>

fun clean_path :: "string list \<Rightarrow> string list \<Rightarrow> string list" where
  "clean_path acc [] = rev acc"
| "clean_path acc (w # ws) =
     (if w = [] \<or> w = ''.'' then clean_path acc ws
      else if w = ''..'' then clean_path (tl acc) ws
      else clean_path (w # acc) ws)"

definition join_path :: "string list \<Rightarrow> string" where
  "join_path parts = CHR ''/'' # join_with (CHR ''/'') (clean_path [] (concat (map (split_on (CHR ''/'')) parts)))"

text \<open>\<open>if err := step; err != nil { return err }\<close>, and the same with a wrapped error.\<close>

fun then_do :: "go_error option \<times> 's \<Rightarrow> ('s \<Rightarrow> go_error option \<times> 's) \<Rightarrow> go_error option \<times> 's" where
  "then_do (Some e, s) k = (Some e, s)"
| "then_do (None, s) k = k s"

fun wrap_err :: "string \<Rightarrow> go_error option \<times> 's \<Rightarrow> go_error option \<times> 's" where
  "wrap_err pre (Some e, s) = (Some (Errorf pre e []), s)"
| "wrap_err pre (None, s) = (None, s)"

text \<open>\<open>out, err := ..Output()\<close>, where the output counts only if there is no error. What a program
  answers is what its caller captures, standard output or both streams.\<close>

definition Output :: "string list \<Rightarrow> string \<Rightarrow> host \<Rightarrow> string result \<times> host" where
  "Output argv stdin H =
     (case Exec argv stdin H of ((out, Some e), H') \<Rightarrow> (Inl e, H') | ((out, None), H') \<Rightarrow> (Inr out, H'))"

text \<open>\<open>out, err := ..CombinedOutput(); if err != nil { return fmt.Errorf("pre: %w: %s", err, out) }\<close>\<close>

definition exec_combined :: "string \<Rightarrow> string list \<Rightarrow> host \<Rightarrow> go_error option \<times> host" where
  "exec_combined pre argv H =
     (case Exec argv [] H of
        ((out, Some e), H') \<Rightarrow> (Some (Errorf pre e ('': '' @ out)), H')
      | ((out, None), H') \<Rightarrow> (None, H'))"

lemma then_do_None: "then_do m k = (None, s') \<longleftrightarrow> (\<exists>s. m = (None, s) \<and> k s = (None, s'))"
  by (cases "(m, k)" rule: then_do.cases) auto

lemma then_do_cases:
  assumes "then_do m k = (r, s')"
  obtains (stopped) e where "m = (Some e, s')" "r = Some e" | (went_on) s where "m = (None, s)" "k s = (r, s')"
  using assms by (cases "(m, k)" rule: then_do.cases) auto

lemma wrap_err_None [simp]: "wrap_err pre m = (None, s) \<longleftrightarrow> m = (None, s)"
  by (cases "(pre, m)" rule: wrap_err.cases) auto

lemma Exec_sel [simp]:
  "ran (snd (Exec argv i H)) = ran H @ [argv]" "machine (snd (Exec argv i H)) = machine H"
  "files (snd (Exec argv i H)) = program_files (machine H) argv (files H)"
  by (simp_all add: Exec_def)

lemma Run_sel [simp]:
  "ran (snd (Run argv H)) = ran H @ [argv]" "machine (snd (Run argv H)) = machine H"
  "files (snd (Run argv H)) = program_files (machine H) argv (files H)"
  by (simp_all add: Run_def split_def Let_def)

lemma exec_combined_sel [simp]:
  "ran (snd (exec_combined pre argv H)) = ran H @ [argv]"
  "machine (snd (exec_combined pre argv H)) = machine H"
  "files (snd (exec_combined pre argv H)) = program_files (machine H) argv (files H)"
  by (auto simp: exec_combined_def Exec_def split: option.splits prod.splits)

lemma Output_sel [simp]:
  "ran (snd (Output argv i H)) = ran H @ [argv]" "machine (snd (Output argv i H)) = machine H"
  "files (snd (Output argv i H)) = program_files (machine H) argv (files H)"
  by (auto simp: Output_def Exec_def split: option.splits prod.splits)

lemma WriteFile_sel [simp]:
  "ran (snd (WriteFile p c m H)) = ran H" "machine (snd (WriteFile p c m H)) = machine H"
  "q \<noteq> p \<Longrightarrow> files (snd (WriteFile p c m H)) q = files H q"
  by (auto simp: WriteFile_def split: option.splits)

lemma WriteFile_None:
  "WriteFile p c m H = (None, H') \<Longrightarrow> \<exists>f. files H' p = Some f \<and> contents f = c \<and>
     (files H p = None \<longrightarrow> mode f = m)"
  by (auto simp: WriteFile_def split: option.splits)

text \<open>A machine on which everything works and programs touch no files.\<close>

definition plain_machine :: machine where
  "plain_machine = \<lparr>answer = (\<lambda>h a i. ([], None)), program_files = (\<lambda>a f. f),
     read_error = (\<lambda>p. None), write_error = (\<lambda>p. None), mkdir_error = (\<lambda>p. None),
     getenv = (\<lambda>v. [])\<rparr>"

definition plain_host :: host where
  "plain_host = \<lparr>machine = plain_machine, files = (\<lambda>p. None), ran = []\<rparr>"

end
