(* ===== verification/Wgrelay.thy ===== *)
theory Wgrelay
  imports Host
begin

text \<open>
  The WireGuard interface of the control plane (\<open>internal/wgrelay/relay.go\<close>): its
  configuration file and the \<open>wg\<close> and \<open>wg-quick\<close> programs it drives.
\<close>

definition configPath :: string where
  "configPath = ''/etc/wireguard/wg0.conf''"

record relay_config =
  PrivKeyPath :: string
  PubKeyPath :: string
  ListenPort :: int
  Address :: string

definition isUp :: "host \<Rightarrow> bool \<times> host" where
  "isUp H = (let (err, H') = Run [''ip'', ''link'', ''show'', ''wg0''] H in (err = None, H'))"

definition syncUp :: "host \<Rightarrow> go_error option \<times> host" where
  "syncUp H = exec_combined ''wg syncconf: '' [''wg'', ''syncconf'', ''wg0'', configPath] H"

definition bringUp :: "host \<Rightarrow> go_error option \<times> host" where
  "bringUp H =
     (let (up, H1) = isUp H
      in if up then syncUp H1
         else exec_combined ''wg-quick up: '' [''wg-quick'', ''up'', ''wg0''] H1)"

definition relay_conf :: "relay_config \<Rightarrow> string \<Rightarrow> string" where
  "relay_conf cfg privKey =
     ''[Interface]'' @ [CHR 0x0A] @ ''Address = '' @ Address cfg @ [CHR 0x0A] @
     ''ListenPort = '' @ show_int (ListenPort cfg) @ [CHR 0x0A] @
     ''PrivateKey = '' @ trim_space privKey @ [CHR 0x0A]"

definition Init :: "relay_config \<Rightarrow> host \<Rightarrow> go_error option \<times> host" where
  "Init cfg H =
     (case ReadFile (PrivKeyPath cfg) H of
        Inl e \<Rightarrow> (Some (Errorf ''read wg privkey: '' e []), H)
      | Inr privKey \<Rightarrow>
          if exists_file configPath H then syncUp H
          else then_do (wrap_err ''write wg0.conf: '' (WriteFile configPath (relay_conf cfg privKey) 0x180 H))
            bringUp)"

definition AddPeer :: "string \<Rightarrow> string \<Rightarrow> host \<Rightarrow> go_error option \<times> host" where
  "AddPeer pubKey allowedIP H =
     then_do (exec_combined ''wg set peer: ''
        [''wg'', ''set'', ''wg0'', ''peer'', pubKey, ''allowed-ips'', allowedIP @ ''/32''] H)
       (Run [''wg-quick'', ''save'', ''wg0''])"

definition PubKey :: "string \<Rightarrow> host \<Rightarrow> string result" where
  "PubKey p H = (case ReadFile p H of Inl e \<Rightarrow> Inl e | Inr b \<Rightarrow> Inr (trim_space b))"


section \<open>Facts\<close>

text \<open>The file is ours alone: \<open>wg syncconf\<close>, \<open>wg-quick up\<close> and \<open>ip link\<close> only read it.\<close>

definition config_safe :: "host \<Rightarrow> bool" where
  "config_safe H \<longleftrightarrow> (\<forall>argv fs. argv \<noteq> [''wg-quick'', ''save'', ''wg0''] \<longrightarrow>
     program_files (machine H) argv fs configPath = fs configPath)"

lemma bringUp_keeps: "config_safe H \<Longrightarrow> files (snd (bringUp H)) configPath = files H configPath"
  by (simp add: bringUp_def isUp_def syncUp_def config_safe_def Let_def split_def)

lemma syncUp_keeps: "config_safe H \<Longrightarrow> files (snd (syncUp H)) configPath = files H configPath"
  by (simp add: syncUp_def config_safe_def)

lemma Init_old_config: "config_safe H \<Longrightarrow> files H configPath = Some f \<Longrightarrow> files (snd (Init cfg H)) configPath = Some f"
  using syncUp_keeps by (simp add: Init_def exists_file_def split: sum.splits)

lemma Init_new_config:
  assumes "config_safe H" and "files H configPath = None" and "write_error (machine H) configPath = None"
    and "ReadFile (PrivKeyPath cfg) H = Inr key"
  shows "files (snd (Init cfg H)) configPath = Some \<lparr>contents = relay_conf cfg key, mode = 0x180\<rparr>"
proof -
  let ?w = "WriteFile configPath (relay_conf cfg key) 0x180 H"
  have w: "?w = (None, snd ?w)" using assms(3) by (simp add: WriteFile_def)
  have "Init cfg H = then_do (wrap_err ''write wg0.conf: '' ?w) bringUp"
    using assms(2,4) by (simp add: Init_def exists_file_def)
  also have "\<dots> = bringUp (snd ?w)" by (subst w) simp
  finally have "Init cfg H = bringUp (snd ?w)" .
  moreover have "config_safe (snd ?w)" using assms(1) by (simp add: config_safe_def)
  ultimately show ?thesis using bringUp_keeps assms(2,3) by (simp add: WriteFile_def)
qed


section \<open>Properties\<close>

text \<open>
  Result (start of the relay). Starting the relay never changes a configuration that is already
  there, so peers that were saved survive a restart; where there is none and the key can be
  read, it is written from the key and the settings, readable by its owner only. Without the
  key nothing is run and nothing is written.
\<close>

theorem Init_keeps_config:
  assumes "config_safe H" and "Init cfg H = (r, H')"
  shows "(files H configPath \<noteq> None \<longrightarrow> files H' configPath = files H configPath) \<and>
    (files H configPath = None \<longrightarrow> files H' configPath \<noteq> None \<longrightarrow>
       (\<exists>key. ReadFile (PrivKeyPath cfg) H = Inr key \<and>
          files H' configPath = Some \<lparr>contents = relay_conf cfg key, mode = 0x180\<rparr>)) \<and>
    (\<forall>e. ReadFile (PrivKeyPath cfg) H = Inl e \<longrightarrow> r = Some (Errorf ''read wg privkey: '' e []) \<and> H' = H)"
proof (cases "ReadFile (PrivKeyPath cfg) H")
  case (Inl e)
  with assms(2) show ?thesis by (auto simp: Init_def)
next
  case key: (Inr key)
  show ?thesis
  proof (cases "exists_file configPath H")
    case True
    with assms key syncUp_keeps [OF assms(1)] show ?thesis
      by (auto simp: Init_def exists_file_def)
  next
    case False
    let ?w = "WriteFile configPath (relay_conf cfg key) 0x180 H"
    show ?thesis
    proof (cases "write_error (machine H) configPath")
      case None
      then have w: "?w = (None, H\<lparr>files := (files H)(configPath \<mapsto>
          \<lparr>contents = relay_conf cfg key, mode = 0x180\<rparr>)\<rparr>)"
        using False by (simp add: WriteFile_def exists_file_def)
      then have "config_safe (snd ?w)" using assms(1) by (simp add: config_safe_def)
      from bringUp_keeps [OF this] assms(2) key False w show ?thesis
        by (auto simp: Init_def exists_file_def)
    next
      case (Some e)
      with assms(2) key False show ?thesis by (auto simp: Init_def WriteFile_def exists_file_def)
    qed
  qed
qed

definition sample_relay :: relay_config where
  "sample_relay = \<lparr>PrivKeyPath = ''/k'', PubKeyPath = ''/p'', ListenPort = 51820, Address = ''10.99.0.1/24''\<rparr>"

definition relay_host :: host where
  "relay_host = plain_host\<lparr>files := (files plain_host)(''/k'' \<mapsto> \<lparr>contents = '' key '', mode = 0x180\<rparr>)\<rparr>"

theorem Init_keeps_config_witness:
  "files (snd (Init sample_relay relay_host)) configPath =
     Some \<lparr>contents = relay_conf sample_relay '' key '', mode = 0x180\<rparr>"
proof -
  have s: "config_safe relay_host"
    by (simp add: config_safe_def relay_host_def plain_host_def plain_machine_def)
  have "files relay_host configPath = None" "files (snd (Init sample_relay relay_host)) configPath \<noteq> None"
    "ReadFile (PrivKeyPath sample_relay) relay_host = Inr '' key ''"
    by (simp_all add: Init_def ReadFile_def WriteFile_def exists_file_def relay_host_def sample_relay_def
        plain_host_def plain_machine_def configPath_def bringUp_def isUp_def syncUp_def Let_def split_def)
  with Init_keeps_config [OF s prod.collapse [symmetric], of sample_relay] show ?thesis by simp
qed

end
