(* ===== verification/Api.thy ===== *)
theory Api
  imports Scheduler Jwt Sshca Wgrelay "HOL-Library.Char_ord" "HOL-Library.List_Lexorder"
begin

text \<open>
  The HTTP interface (\<open>internal/api/server.go\<close>): the routes, the handlers with the decoding
  of their requests and the encoding of their answers, and the token check in front of the
  buyers' routes. A body is text; an answer is a status and a JSON value. Each handler is one
  function from the state of the control plane to its answer and the new state.
\<close>


section \<open>Requests, answers, state\<close>

text \<open>The path is given by its segments, decoded and without empty ones (the multiplexer
  redirects a path that is not clean); \<open>rq_auth\<close> is empty if there is no such header.\<close>

record http_request =
  rq_method :: string
  rq_path :: "string list"
  rq_auth :: string
  rq_body :: string

datatype payload = No_Body | Json json | Text string

record response =
  status :: int
  payload :: payload

record ('k, 's, 'c) api =
  reg :: registry
  ssh :: "('k, 's, 'c) ssh_lib"
  ca :: "'s ca"
  JWTSecret :: string
  runtime :: go_runtime
  time_text :: "int \<Rightarrow> string"

text \<open>What one request takes from outside: a fresh uuid, the readings of the clock in
  nanoseconds in the order they are taken, and the rows locked by others at that moment.\<close>

record inputs =
  new_uuid :: string
  reading :: "nat \<Rightarrow> int"
  locked_jobs :: "string set"

record 'r control =
  core :: "'r stores"
  box :: host

definition micros :: "int \<Rightarrow> int" where
  "micros ns = (ns + 500) div 1000"

definition respond :: "json \<Rightarrow> response" where
  "respond v = \<lparr>status = 200, payload = Json v\<rparr>"

definition httpErr :: "string \<Rightarrow> int \<Rightarrow> response" where
  "httpErr msg code = \<lparr>status = code, payload = Json (JObj [(''error'', jstr msg)])\<rparr>"

definition no_content :: response where
  "no_content = \<lparr>status = 204, payload = No_Body\<rparr>"

definition decode :: "go_runtime \<Rightarrow> (string \<times> 'a setter) list \<Rightarrow> 'a \<Rightarrow> string \<Rightarrow> response + 'a" where
  "decode rt specs zero body =
     (case (case first_value body of None \<Rightarrow> None | Some j \<Rightarrow> into_struct specs j zero) of
        None \<Rightarrow> Inl (httpErr (''invalid JSON: '' @ decode_msg rt body) 400)
      | Some a \<Rightarrow> Inr a)"

definition on_core :: "('r stores \<Rightarrow> 'a \<times> 'r stores) \<Rightarrow> 'r control \<Rightarrow> 'a \<times> 'r control" where
  "on_core f C = (let (r, S) = f (core C) in (r, C\<lparr>core := S\<rparr>))"


section \<open>Provider routes\<close>

record resources_body =
  rb_cpu_cores :: int
  rb_memory_mb :: int
  rb_disk_gb :: int

record register_body =
  rb_token :: string
  rb_wg_pubkey :: string
  rb_location :: string
  rb_mode :: string
  rb_resources :: resources_body
  rb_meta :: env_map

definition register_fields :: "(string \<times> register_body setter) list" where
  "register_fields = [(''token'', str_field rb_token_update), (''wg_pubkey'', str_field rb_wg_pubkey_update),
     (''location'', str_field rb_location_update), (''mode'', str_field rb_mode_update),
     (''resources'', struct_field rb_resources_update rb_resources
       [(''cpu_cores'', int_field rb_cpu_cores_update), (''memory_mb'', int_field rb_memory_mb_update),
        (''disk_gb'', int_field rb_disk_gb_update)]),
     (''meta'', map_field rb_meta_update rb_meta)]"

definition empty_register :: register_body where
  "empty_register = \<lparr>rb_token = [], rb_wg_pubkey = [], rb_location = [], rb_mode = [],
     rb_resources = \<lparr>rb_cpu_cores = 0, rb_memory_mb = 0, rb_disk_gb = 0\<rparr>, rb_meta = None\<rparr>"

text \<open>\<open>req.Meta[k]\<close> is empty for a missing key and for a \<open>nil\<close> map.\<close>

definition meta_at :: "env_map \<Rightarrow> string \<Rightarrow> string" where
  "meta_at m k = (case m of None \<Rightarrow> [] | Some es \<Rightarrow> (case map_of es k of None \<Rightarrow> [] | Some v \<Rightarrow> v))"

definition to_register_request :: "register_body \<Rightarrow> register_request" where
  "to_register_request b =
     \<lparr>rq_Token = rb_token b, rq_WGPubKey = rb_wg_pubkey b, rq_Location = rb_location b,
      rq_Mode = rb_mode b, rq_CPUCores = rb_cpu_cores (rb_resources b),
      rq_MemoryMB = rb_memory_mb (rb_resources b), rq_DiskGB = rb_disk_gb (rb_resources b),
      rq_MachineID = meta_at (rb_meta b) ''machine_id'', rq_BinaryHash = meta_at (rb_meta b) ''binary_hash''\<rparr>"

definition register_json :: "register_result \<Rightarrow> json" where
  "register_json r = JObj [(''provider_id'', jstr (rs_ProviderID r)), (''tunnel_port'', JInt (rs_TunnelPort r)),
     (''wg_config'', jstr (rs_WGConfig r)), (''wg_ip'', jstr (rs_WGIP r))]"

definition handle_register :: "('k, 's, 'c) api \<Rightarrow> inputs \<Rightarrow> string \<Rightarrow> 'r control \<Rightarrow> response \<times> 'r control" where
  "handle_register A i body C =
     (case decode (runtime A) register_fields empty_register body of
        Inl resp \<Rightarrow> (resp, C)
      | Inr b \<Rightarrow>
          (case on_core (Register (reg A) (new_uuid i) (micros (reading i 0)) (to_register_request b)) C of
             (Inl err, C1) \<Rightarrow>
               if errors_Is err ErrInvalidToken then (httpErr ''invalid registration token'' 401, C1)
               else (httpErr (Error err) 400, C1)
           | (Inr result, C1) \<Rightarrow>
               (let (err, H) = AddPeer (rb_wg_pubkey b) (rs_WGIP result) (box C1)
                in (respond (register_json result), C1\<lparr>box := H\<rparr>))))"

record heartbeat_body =
  hb_provider_id :: string
  hb_active_vms :: int
  hb_cpu_load :: rat
  hb_mem_free_mb :: int

definition heartbeat_fields :: "go_runtime \<Rightarrow> (string \<times> heartbeat_body setter) list" where
  "heartbeat_fields rt = [(''provider_id'', str_field hb_provider_id_update),
     (''active_vms'', int_field hb_active_vms_update), (''cpu_load'', float_field rt hb_cpu_load_update),
     (''mem_free_mb'', int_field hb_mem_free_mb_update)]"

definition empty_heartbeat :: heartbeat_body where
  "empty_heartbeat = \<lparr>hb_provider_id = [], hb_active_vms = 0, hb_cpu_load = 0, hb_mem_free_mb = 0\<rparr>"

definition handle_heartbeat :: "('k, 's, 'c) api \<Rightarrow> string \<Rightarrow> 'r control \<Rightarrow> response \<times> 'r control" where
  "handle_heartbeat A body C =
     (case decode (runtime A) (heartbeat_fields (runtime A)) empty_heartbeat body of
        Inl resp \<Rightarrow> (resp, C)
      | Inr b \<Rightarrow>
          (case on_core (Heartbeat (hb_provider_id b) (hb_active_vms b) (hb_cpu_load b) (hb_mem_free_mb b)) C of
             (Inl err, C1) \<Rightarrow> (httpErr (Error err) 500, C1)
           | (Inr _, C1) \<Rightarrow> (no_content, C1)))"

text \<open>Go encodes a map with its keys in order.\<close>

definition env_json :: "env_map \<Rightarrow> json" where
  "env_json m = (case m of None \<Rightarrow> JNull
     | Some es \<Rightarrow> JObj (map (\<lambda>(k, v). (to_utf8 k, jstr v)) (sort_key fst es)))"

definition job_json :: "job \<Rightarrow> json" where
  "job_json j = JObj [(''cpu_cores'', JInt (j_cpu_cores j)), (''disk_gb'', JInt (j_disk_gb j)),
     (''env'', env_json (j_env j)), (''image_url'', jstr (j_image_url j)), (''job_id'', jstr (j_id j)),
     (''memory_mb'', JInt (j_memory_mb j)), (''ssh_pubkey'', jstr (j_ssh_pubkey j))]"

definition handle_poll :: "inputs \<Rightarrow> string \<Rightarrow> 'r control \<Rightarrow> response \<times> 'r control" where
  "handle_poll i providerID C =
     (case on_core (PollForProvider (locked_jobs i) providerID 25) C of
        ((job, Some err), C1) \<Rightarrow> (httpErr (Error err) 500, C1)
      | ((None, None), C1) \<Rightarrow> (no_content, C1)
      | ((Some j, None), C1) \<Rightarrow> (respond (job_json j), C1))"

record report_body =
  vb_job_id :: string
  vb_provider_id :: string
  vb_vm_ip :: string
  vb_port :: int
  vb_status :: string
  vb_error :: string

definition report_fields :: "(string \<times> report_body setter) list" where
  "report_fields = [(''job_id'', str_field vb_job_id_update), (''provider_id'', str_field vb_provider_id_update),
     (''vm_ip'', str_field vb_vm_ip_update), (''port'', int_field vb_port_update),
     (''status'', str_field vb_status_update), (''error'', str_field vb_error_update)]"

definition empty_report :: report_body where
  "empty_report = \<lparr>vb_job_id = [], vb_provider_id = [], vb_vm_ip = [], vb_port = 0, vb_status = [], vb_error = []\<rparr>"

definition to_vm :: "report_body \<Rightarrow> int \<Rightarrow> vm" where
  "to_vm b now = \<lparr>v_id = vb_job_id b, v_job_id = vb_job_id b, v_provider_id = vb_provider_id b,
     v_vm_ip = vb_vm_ip b, v_port = vb_port b, v_status = vb_status b, v_error = vb_error b,
     v_created_at = now\<rparr>"

definition handle_report :: "('k, 's, 'c) api \<Rightarrow> inputs \<Rightarrow> string \<Rightarrow> 'r control \<Rightarrow> response \<times> 'r control" where
  "handle_report A i body C =
     (case decode (runtime A) report_fields empty_report body of
        Inl resp \<Rightarrow> (resp, C)
      | Inr b \<Rightarrow>
          (case on_core (on_pg (UpsertVM (to_vm b (micros (reading i 0))))) C of
             (Inl err, C1) \<Rightarrow> (httpErr (Error err) 500, C1)
           | (Inr _, C1) \<Rightarrow> (no_content, C1)))"


section \<open>Buyer routes\<close>

record deploy_body =
  db_image_url :: string
  db_cpu_cores :: int
  db_memory_mb :: int
  db_disk_gb :: int
  db_ssh_pubkey :: string
  db_env :: env_map

definition deploy_fields :: "(string \<times> deploy_body setter) list" where
  "deploy_fields = [(''image_url'', str_field db_image_url_update), (''cpu_cores'', int_field db_cpu_cores_update),
     (''memory_mb'', int_field db_memory_mb_update), (''disk_gb'', int_field db_disk_gb_update),
     (''ssh_pubkey'', str_field db_ssh_pubkey_update), (''env'', map_field db_env_update db_env)]"

definition empty_deploy :: deploy_body where
  "empty_deploy = \<lparr>db_image_url = [], db_cpu_cores = 0, db_memory_mb = 0, db_disk_gb = 0,
     db_ssh_pubkey = [], db_env = None\<rparr>"

definition to_deploy_request :: "deploy_body \<Rightarrow> deploy_request" where
  "to_deploy_request b = \<lparr>dq_ImageURL = db_image_url b, dq_CPUCores = db_cpu_cores b,
     dq_MemoryMB = db_memory_mb b, dq_DiskGB = db_disk_gb b, dq_SSHPubKey = db_ssh_pubkey b,
     dq_Env = db_env b\<rparr>"

definition deploy_json :: "deploy_result \<Rightarrow> json" where
  "deploy_json r = JObj [(''JobID'', jstr (ds_JobID r)), (''ProviderID'', jstr (ds_ProviderID r))]"

definition handle_deploy :: "('k, 's, 'c) api \<Rightarrow> inputs \<Rightarrow> string \<Rightarrow> 'r control \<Rightarrow> response \<times> 'r control" where
  "handle_deploy A i body C =
     (case decode (runtime A) deploy_fields empty_deploy body of
        Inl resp \<Rightarrow> (resp, C)
      | Inr b \<Rightarrow>
          (case on_core (Submit (new_uuid i) (to_deploy_request b)) C of
             (Inl err, C1) \<Rightarrow> (httpErr (Error err) 503, C1)
           | (Inr result, C1) \<Rightarrow> (respond (deploy_json result), C1)))"

record cert_body =
  cb_user_pubkey :: string
  cb_principal :: string
  cb_vm_id :: string
  cb_ttl_hours :: int

definition cert_fields :: "(string \<times> cert_body setter) list" where
  "cert_fields = [(''user_pubkey'', str_field cb_user_pubkey_update), (''principal'', str_field cb_principal_update),
     (''vm_id'', str_field cb_vm_id_update), (''ttl_hours'', int_field cb_ttl_hours_update)]"

definition empty_cert :: cert_body where
  "empty_cert = \<lparr>cb_user_pubkey = [], cb_principal = [], cb_vm_id = [], cb_ttl_hours = 0\<rparr>"

definition to_sign_request :: "cert_body \<Rightarrow> sign_request" where
  "to_sign_request b = \<lparr>sg_UserPubKey = cb_user_pubkey b,
     sg_Principal = (if cb_principal b = [] then ''root'' else cb_principal b),
     sg_VMID = cb_vm_id b, sg_TTL = ttl_of_hours (cb_ttl_hours b)\<rparr>"

text \<open>The clock was read twice by the token check before.\<close>

definition handle_cert :: "('k, 's, 'c) api \<Rightarrow> inputs \<Rightarrow> string \<Rightarrow> 'r control \<Rightarrow> response \<times> 'r control" where
  "handle_cert A i body C =
     (case decode (runtime A) cert_fields empty_cert body of
        Inl resp \<Rightarrow> (resp, C)
      | Inr b \<Rightarrow>
          (case IssueCert (ssh A) (ca A) (reading i 2) (reading i 3) (reading i 4) (to_sign_request b) of
             Inl err \<Rightarrow> (httpErr (Error err) 400, C)
           | Inr cert \<Rightarrow> (respond (JObj [(''certificate'', jstr cert)]), C)))"

definition provider_json :: "('k, 's, 'c) api \<Rightarrow> provider \<Rightarrow> json" where
  "provider_json A p = JObj [(''ID'', jstr (p_id p)), (''Token'', jstr (p_token p)),
     (''WGPubKey'', jstr (p_wg_pubkey p)), (''WGIP'', jstr (p_wg_ip p)), (''TunnelPort'', JInt (p_tunnel_port p)),
     (''Location'', jstr (p_location p)), (''Mode'', jstr (p_mode p)), (''CPUCores'', JInt (p_cpu_cores p)),
     (''MemoryMB'', JInt (p_memory_mb p)), (''DiskGB'', JInt (p_disk_gb p)), (''MachineID'', jstr (p_machine_id p)),
     (''BinaryHash'', jstr (p_binary_hash p)), (''Status'', jstr (p_status p)),
     (''ActiveVMs'', JInt (p_active_vms p)), (''CPULoad'', JFrac (p_cpu_load p)),
     (''MemFreeMB'', JInt (p_mem_free_mb p)), (''LastSeen'', jstr (time_text A (p_last_seen p))),
     (''RegisteredAt'', jstr (time_text A (p_registered_at p)))]"

text \<open>A slice that was never appended to is \<open>nil\<close>.\<close>

definition handle_list :: "('k, 's, 'c) api \<Rightarrow> 'r control \<Rightarrow> response \<times> 'r control" where
  "handle_list A C =
     (case on_core (on_pg ListProviders) C of
        (Inl err, C1) \<Rightarrow> (httpErr (Error err) 500, C1)
      | (Inr ps, C1) \<Rightarrow>
          (respond (if ps = [] then JNull else JArr (map (provider_json A) ps)), C1))"


section \<open>Routing\<close>

text \<open>The bearer token, if the request is authorized.\<close>

definition authorized :: "('k, 's, 'c) api \<Rightarrow> inputs \<Rightarrow> http_request \<Rightarrow> bool" where
  "authorized A i rq \<longleftrightarrow> has_prefix (rq_auth rq) ''Bearer '' \<and>
     validateJWT (runtime A) (unix_of (reading i 0)) (unix_of (reading i 1))
       (trim_prefix (rq_auth rq) ''Bearer '') (JWTSecret A)"

definition withJWT :: "('k, 's, 'c) api \<Rightarrow> inputs \<Rightarrow> http_request \<Rightarrow>
    ('r control \<Rightarrow> response \<times> 'r control) \<Rightarrow> 'r control \<Rightarrow> response \<times> 'r control" where
  "withJWT A i rq next_handler C =
     (if \<not> has_prefix (rq_auth rq) ''Bearer '' then (httpErr ''missing bearer token'' 401, C)
      else if \<not> validateJWT (runtime A) (unix_of (reading i 0)) (unix_of (reading i 1))
         (trim_prefix (rq_auth rq) ''Bearer '') (JWTSecret A)
      then (httpErr ''invalid token'' 401, C)
      else next_handler C)"

text \<open>A \<open>GET\<close> pattern also matches \<open>HEAD\<close>; a path that is known under other methods only is
  answered with 405.\<close>

definition only :: "string list \<Rightarrow> http_request \<Rightarrow> (response \<times> 'r control) \<Rightarrow> 'r control \<Rightarrow>
    response \<times> 'r control" where
  "only methods rq resp C =
     (if rq_method rq \<in> set methods then resp
      else (\<lparr>status = 405, payload = Text (line ''Method Not Allowed'')\<rparr>, C))"

definition GET :: "string list" where "GET = [''GET'', ''HEAD'']"
definition POST :: "string list" where "POST = [''POST'']"

definition v1 :: "string list \<Rightarrow> string list" where
  "v1 rest = [''api'', ''v1''] @ rest"

definition Serve :: "('k, 's, 'c) api \<Rightarrow> inputs \<Rightarrow> http_request \<Rightarrow> 'r control \<Rightarrow> response \<times> 'r control" where
  "Serve A i rq C =
     (let p = rq_path rq in
      if p = v1 [''providers'', ''register''] then only POST rq (handle_register A i (rq_body rq) C) C
      else if p = v1 [''providers'', ''heartbeat''] then only POST rq (handle_heartbeat A (rq_body rq) C) C
      else if length p = 5 \<and> p = v1 [''providers'', p ! 3, ''jobs''] then only GET rq (handle_poll i (p ! 3) C) C
      else if p = v1 [''vms'', ''report''] then only POST rq (handle_report A i (rq_body rq) C) C
      else if p = v1 [''deploy''] then only POST rq (withJWT A i rq (handle_deploy A i (rq_body rq)) C) C
      else if p = v1 [''ssh-cert''] then only POST rq (withJWT A i rq (handle_cert A i (rq_body rq)) C) C
      else if p = v1 [''providers''] then only GET rq (withJWT A i rq (handle_list A) C) C
      else if p = [''healthz''] then only GET rq (\<lparr>status = 200, payload = Text ''ok''\<rparr>, C) C
      else (\<lparr>status = 404, payload = Text (line ''404 page not found'')\<rparr>, C))"

section \<open>The handlers as clients of the stores\<close>

lemma on_core_eq: "on_core f C = (fst (f (core C)), C\<lparr>core := snd (f (core C))\<rparr>)"
  by (simp add: on_core_def split_def Let_def)

lemma on_core_sel [simp]:
  "fst (on_core f C) = fst (f (core C))" "core (snd (on_core f C)) = snd (f (core C))"
  "box (snd (on_core f C)) = box C"
  by (simp_all add: on_core_eq)

text \<open>The calls of the store a request can make, by its path.\<close>

definition calls_of :: "string list \<Rightarrow> pg_call set" where
  "calls_of p =
     (if p = v1 [''providers'', ''register''] then range CallUpsertProvider
      else if p = v1 [''providers'', ''heartbeat''] then {c. \<exists>i a l m. c = CallHeartbeat i a l m}
      else if length p = 5 \<and> p = v1 [''providers'', p ! 3, ''jobs''] then {c. \<exists>L. c = CallNextPendingJob L (p ! 3)}
      else if p = v1 [''vms'', ''report''] then range CallUpsertVM
      else if p = v1 [''deploy''] then submit_calls
      else if p = v1 [''providers''] then {CallListProviders} else {})"

lemma register_through: "through (range CallUpsertProvider) (core C) (core (snd (handle_register A i body C)))"
  using registering.op_through [where S = "core C"]
  by (auto simp: handle_register_def on_core_eq split_def Let_def split: sum.splits)

lemma heartbeat_through:
  "through {c. \<exists>i a l m. c = CallHeartbeat i a l m} (core C) (core (snd (handle_heartbeat A body C)))"
  using heartbeats.op_through [where S = "core C"]
  by (auto simp: handle_heartbeat_def on_core_eq split: sum.splits)

lemma poll_through:
  "through {c. \<exists>L. c = CallNextPendingJob L pid} (core C) (core (snd (handle_poll i pid C)))"
proof -
  have "core (snd (handle_poll i pid C)) = snd (PollForProvider (locked_jobs i) pid 25 (core C))"
    by (auto simp: handle_poll_def on_core_eq split: prod.splits option.splits)
  with polling.op_through [of pid "core C" "(locked_jobs i, 25)"] show ?thesis by simp
qed

lemma report_through: "through (range CallUpsertVM) (core C) (core (snd (handle_report A i body C)))"
proof -
  have "through (range CallUpsertVM) (core C) (snd (on_pg (UpsertVM v) (core C)))" for v
    by (rule through_calls) simp
  then show ?thesis
    by (auto simp: handle_report_def on_core_eq split: sum.splits)
qed

lemma deploy_through: "through submit_calls (core C) (core (snd (handle_deploy A i body C)))"
  using Submit_through [where S = "core C"]
  by (auto simp: handle_deploy_def on_core_eq split: sum.splits)

lemma cert_core: "snd (handle_cert A i body C) = C"
  by (auto simp: handle_cert_def split: sum.splits)

lemma list_through: "through {CallListProviders} (core C) (core (snd (handle_list A C)))"
proof -
  have "through {CallListProviders} (core C) (snd (on_pg ListProviders (core C)))"
    by (rule through_calls) simp
  then show ?thesis by (auto simp: handle_list_def on_core_eq split: sum.splits)
qed

lemma only_through:
  "through X (core C) (core (snd resp)) \<Longrightarrow> through X (core C) (core (snd (only ms rq resp C)))"
  by (simp add: only_def)

lemma withJWT_through:
  "(through X (core C) (core (snd (k C)))) \<Longrightarrow> through X (core C) (core (snd (withJWT A i rq k C)))"
  by (simp add: withJWT_def)

lemma Serve_through: "through (calls_of (rq_path rq)) (core C) (core (snd (Serve A i rq C)))"
  unfolding Serve_def calls_of_def Let_def
  by (auto intro!: only_through withJWT_through register_through heartbeat_through poll_through
      report_through deploy_through list_through simp: cert_core v1_def only_def withJWT_def)

interpretation http: store_client
  "\<lambda>(A, i, rq, H) S. let (resp, C) = Serve A i rq \<lparr>core = S, box = H\<rparr> in (resp, core C)" UNIV
proof (unfold_locales, clarify)
  fix S :: "'r stores" and A :: "('k, 's, 'c) api" and i rq H
  show "through UNIV S (snd (let (resp, C) = Serve A i rq \<lparr>core = S, box = H\<rparr> in (resp, core C)))"
    using through_mono [OF Serve_through [of rq "\<lparr>core = S, box = H\<rparr>" A i]] by (simp add: split_def Let_def)
qed

lemma Serve_ok: "stores_ok (core C) \<Longrightarrow> stores_ok (core (snd (Serve A i rq C)))"
  by (rule through_ok [OF Serve_through])


section \<open>Properties\<close>

definition buyer_route :: "string list \<Rightarrow> bool" where
  "buyer_route p \<longleftrightarrow> p \<in> {v1 [''deploy''], v1 [''ssh-cert''], v1 [''providers'']}"

definition provider_route :: "string list \<Rightarrow> bool" where
  "provider_route p \<longleftrightarrow> p \<in> {v1 [''providers'', ''register''], v1 [''providers'', ''heartbeat''], v1 [''vms'', ''report'']} \<or>
     (\<exists>pid. p = v1 [''providers'', pid, ''jobs''])"

text \<open>
  C3 (buyer routes). A deploy, a certificate or the list of providers is refused with 401
  (405 under a wrong method), without any effect, to whoever does not present a bearer token
  that is signed under the secret and inside its window.
\<close>

theorem buyer_routes_need_token:
  assumes "buyer_route (rq_path rq)" and "\<not> authorized A i rq"
  shows "snd (Serve A i rq C) = C \<and> status (fst (Serve A i rq C)) \<in> {401, 405}"
proof -
  have w: "snd (withJWT A i rq k C) = C \<and> status (fst (withJWT A i rq k C)) = 401" for k :: "'d control \<Rightarrow> _"
    using assms(2) by (auto simp: withJWT_def authorized_def httpErr_def)
  then have o: "snd (only ms rq (withJWT A i rq k C) C) = C \<and>
      status (fst (only ms rq (withJWT A i rq k C) C)) \<in> {401, 405}" for k :: "'d control \<Rightarrow> _" and ms
    by (simp add: only_def)
  from assms(1) consider "rq_path rq = v1 [''deploy'']" | "rq_path rq = v1 [''ssh-cert'']" | "rq_path rq = v1 [''providers'']"
    by (auto simp: buyer_route_def)
  then show ?thesis
    by cases (use o in \<open>simp_all add: Serve_def v1_def\<close>)
qed

text \<open>
  C37 (provider routes). Registration, heartbeats, polls and reports answer and act in the
  same way whatever the request carries as authorization; only registration looks at a
  token, the one in its body. Whoever knows the id of a provider can report it alive, take
  its jobs with their keys and environment, and report on its machines.
\<close>

theorem provider_routes_ignore_authorization:
  assumes "provider_route (rq_path rq)"
  shows "Serve A i (rq\<lparr>rq_auth := auth\<rparr>) C = Serve A i rq C"
proof -
  from assms consider "rq_path rq = v1 [''providers'', ''register'']" | "rq_path rq = v1 [''providers'', ''heartbeat'']"
    | "rq_path rq = v1 [''vms'', ''report'']" | pid where "rq_path rq = v1 [''providers'', pid, ''jobs'']"
    by (auto simp: provider_route_def)
  then show ?thesis
    by cases (simp_all add: Serve_def v1_def only_def)
qed

definition sample_api :: "(string, string, string certificate) api" where
  "sample_api = \<lparr>reg = sample_registry, ssh = plain_ssh, ca = \<lparr>signer = ''ca''\<rparr>, JWTSecret = ''k'',
     runtime = exact_runtime, time_text = (\<lambda>t. [])\<rparr>"

definition sample_control :: "redis_keys control" where
  "sample_control = \<lparr>core = snd (on_redis (AddToken ''t'') sample_stores), box = plain_host\<rparr>"

definition sample_inputs :: inputs where
  "sample_inputs = \<lparr>new_uuid = ''n'', reading = (\<lambda>k. noon), locked_jobs = {}\<rparr>"

lemma sample_control_ok: "stores_ok (core sample_control)"
  using sample_stores_ok by (simp add: sample_control_def stores_ok_def)

definition sample_deploy_request :: http_request where
  "sample_deploy_request = \<lparr>rq_method = ''POST'', rq_path = v1 [''deploy''], rq_auth = ''Basic x'', rq_body = ''{}''\<rparr>"

theorem buyer_routes_need_token_witness:
  "snd (Serve sample_api sample_inputs sample_deploy_request sample_control) = sample_control"
proof -
  have "buyer_route (rq_path sample_deploy_request)"
    by (simp add: buyer_route_def sample_deploy_request_def)
  moreover have "\<not> authorized sample_api sample_inputs sample_deploy_request"
    by (simp add: authorized_def sample_deploy_request_def has_prefix_def)
  ultimately show ?thesis using buyer_routes_need_token by blast
qed

text \<open>A heartbeat for provider \<open>a\<close> from nowhere.\<close>

definition sample_heartbeat :: http_request where
  "sample_heartbeat = \<lparr>rq_method = ''POST'', rq_path = v1 [''providers'', ''heartbeat''], rq_auth = [],
     rq_body = ''{'' @ quoted ''provider_id'' @ '': '' @ quoted ''a'' @ '', '' @ quoted ''mem_free_mb'' @ '': 64}''\<rparr>"

theorem provider_routes_ignore_authorization_witness:
  "Serve sample_api sample_inputs (sample_heartbeat\<lparr>rq_auth := ''Bearer forged''\<rparr>) sample_control =
     Serve sample_api sample_inputs sample_heartbeat sample_control \<and>
   status (fst (Serve sample_api sample_inputs sample_heartbeat sample_control)) = 204 \<and>
   map p_mem_free_mb (providers (tabs (db (core (snd (Serve sample_api sample_inputs sample_heartbeat
     sample_control)))))) = [64, 4096]"
proof -
  have "provider_route (rq_path sample_heartbeat)"
    by (simp add: provider_route_def sample_heartbeat_def)
  moreover have "status (fst (Serve sample_api sample_inputs sample_heartbeat sample_control)) = 204"
    by code_simp
  moreover have "map p_mem_free_mb (providers (tabs (db (core (snd (Serve sample_api sample_inputs sample_heartbeat
     sample_control)))))) = [64, 4096]" by code_simp
  ultimately show ?thesis using provider_routes_ignore_authorization by blast
qed

lemma AddPeer_ran:
  "ran (snd (AddPeer k ip H)) \<in> {ran H @ [[''wg'', ''set'', ''wg0'', ''peer'', k, ''allowed-ips'', ip @ ''/32'']],
     ran H @ [[''wg'', ''set'', ''wg0'', ''peer'', k, ''allowed-ips'', ip @ ''/32''], [''wg-quick'', ''save'', ''wg0'']]}"
proof -
  obtain r H1 where e: "exec_combined ''wg set peer: ''
      [''wg'', ''set'', ''wg0'', ''peer'', k, ''allowed-ips'', ip @ ''/32''] H = (r, H1)" by fastforce
  have "ran H1 = ran H @ [[''wg'', ''set'', ''wg0'', ''peer'', k, ''allowed-ips'', ip @ ''/32'']]"
    using exec_combined_sel(1) [of "''wg set peer: ''" "[''wg'', ''set'', ''wg0'', ''peer'', k, ''allowed-ips'', ip @ ''/32'']" H] e
    by simp
  then show ?thesis by (cases r) (simp_all add: AddPeer_def e)
qed

text \<open>
  C6 (registration route). A registration whose token is not valid is answered with 400 or
  401 and leaves everything as it was. One that is answered with 200 had a valid token, and
  the answer, the new row of the database and the WireGuard peer that was set up carry the
  same address and key.
\<close>

theorem register_route:
  assumes "stores_ok (core C)" and "rq_path rq = v1 [''providers'', ''register'']" and "rq_method rq = ''POST''"
    and "new_uuid i \<notin> p_id ` set (providers (tabs (db (core C))))"
    and "decode (runtime A) register_fields empty_register (rq_body rq) = Inr b"
    and "Serve A i rq C = (resp, C')"
  shows "(\<not> valid_token (rb_token b) (cache (core C)) \<longrightarrow> status resp \<in> {400, 401} \<and> db (core C') = db (core C) \<and>
      keys_of (cache (core C')) = keys_of (cache (core C)) \<and> box C' = box C) \<and>
    (status resp = 200 \<longrightarrow> valid_token (rb_token b) (cache (core C)) \<and>
      (\<exists>ip row j. payload resp = Json j \<and> member j ''wg_ip'' = Some (jstr ip) \<and>
        member j ''provider_id'' = Some (jstr (new_uuid i)) \<and>
        providers (tabs (db (core C'))) = providers (tabs (db (core C))) @ [row] \<and>
        p_id row = new_uuid i \<and> p_wg_ip row = ip \<and> p_wg_pubkey row = rb_wg_pubkey b \<and>
        [''wg'', ''set'', ''wg0'', ''peer'', rb_wg_pubkey b, ''allowed-ips'', ip @ ''/32''] \<in> set (ran (box C'))))"
proof -
  let ?req = "to_register_request b"
  obtain r S' where reg: "Register (reg A) (new_uuid i) (micros (reading i 0)) ?req (core C) = (r, S')" by fastforce
  have tok: "rq_Token ?req = rb_token b" "rq_WGPubKey ?req = rb_wg_pubkey b" by (simp_all add: to_register_request_def)
  have run: "handle_register A i (rq_body rq) C = (resp, C')"
    using assms(2,3,6) by (simp add: Serve_def only_def POST_def)
  from assms(1) have ready: "ready_redis (cache (core C))" by (simp add: stores_ok_def)
  show ?thesis
  proof (cases r)
    case (Inl err)
    then have c: "core C' = S'" "box C' = box C" "status resp \<in> {400, 401}"
      using run reg assms(5) by (auto simp: handle_register_def on_core_eq httpErr_def split: if_splits)
    have "\<not> valid_token (rb_token b) (cache (core C)) \<longrightarrow> db S' = db (core C) \<and>
        keys_of (cache S') = keys_of (cache (core C))"
      using ready reg by (cases rule: Register_cases) (auto simp: tok)
    with c show ?thesis by auto
  next
    case (Inr res)
    have v: "valid_token (rb_token b) (cache (core C))"
      using ready reg by (cases rule: Register_cases) (auto simp: tok Inr)
    have c: "core C' = S'" "resp = respond (register_json res)"
      "box C' = snd (AddPeer (rb_wg_pubkey b) (rs_WGIP res) (box C))"
      using run reg assms(5) Inr by (auto simp: handle_register_def on_core_eq Let_def split_def)
    from Register_Inr [OF ready assms(4) reg [unfolded Inr]] obtain row where
      row: "providers (tabs (db S')) = providers (tabs (db (core C))) @ [row]" "p_id row = new_uuid i"
        "p_wg_ip row = rs_WGIP res" "p_wg_pubkey row = rb_wg_pubkey b" "rs_ProviderID res = new_uuid i"
      by (auto simp: tok new_provider_def inserted_provider_def)
    have "[''wg'', ''set'', ''wg0'', ''peer'', rb_wg_pubkey b, ''allowed-ips'', rs_WGIP res @ ''/32''] \<in> set (ran (box C'))"
      using AddPeer_ran [of "rb_wg_pubkey b" "rs_WGIP res" "box C"] c(3) by auto
    with v row c show ?thesis
      by (auto simp: respond_def register_json_def member_def)
  qed
qed

definition sample_register :: http_request where
  "sample_register = \<lparr>rq_method = ''POST'', rq_path = v1 [''providers'', ''register''], rq_auth = [],
     rq_body = ''{'' @ quoted ''token'' @ '':'' @ quoted ''t'' @ '','' @ quoted ''wg_pubkey'' @ '':'' @ quoted ''pk'' @ ''}''\<rparr>"

theorem register_route_witness:
  "status (fst (Serve sample_api sample_inputs sample_register sample_control)) = 200 \<and>
   (\<exists>ip row. providers (tabs (db (core (snd (Serve sample_api sample_inputs sample_register sample_control))))) =
      providers (tabs (db (core sample_control))) @ [row] \<and> p_wg_ip row = ip \<and>
      [''wg'', ''set'', ''wg0'', ''peer'', ''pk'', ''allowed-ips'', ip @ ''/32''] \<in>
        set (ran (box (snd (Serve sample_api sample_inputs sample_register sample_control)))))"
proof -
  let ?S = "Serve sample_api sample_inputs sample_register sample_control"
  have p: "rq_path sample_register = v1 [''providers'', ''register'']" "rq_method sample_register = ''POST''"
    by (simp_all add: sample_register_def)
  have n: "new_uuid sample_inputs \<notin> p_id ` set (providers (tabs (db (core sample_control))))" by code_simp
  have d: "decode (runtime sample_api) register_fields empty_register (rq_body sample_register) =
      Inr (empty_register\<lparr>rb_token := ''t'', rb_wg_pubkey := ''pk''\<rparr>)" by code_simp
  have s: "status (fst ?S) = 200" by code_simp
  from register_route [OF sample_control_ok p n d prod.collapse [symmetric]] s show ?thesis
    by (auto simp: empty_register_def)
qed

lemma listed_hidden:
  "member (provider_json A (listed r)) ''Token'' = Some (JStr [])"
  "member (provider_json A (listed r)) ''WGPubKey'' = Some (JStr [])"
  "member (provider_json A (listed r)) ''MachineID'' = Some (JStr [])"
  "member (provider_json A (listed r)) ''BinaryHash'' = Some (JStr [])"
  by (simp_all add: provider_json_def member_def listed_def zero_provider_def jstr_def)

text \<open>
  C30 (list of providers). The list, which only a valid token gets, has one entry per
  provider, shows neither registration token nor key nor machine of any, and is JSON
  \<open>null\<close> rather than an empty array when there is no provider; no table changes.
\<close>

theorem list_route_hides_secrets:
  assumes "stores_ok (core C)" and "rq_path rq = v1 [''providers'']"
    and "Serve A i rq C = (resp, C')" and "status resp = 200"
  shows "authorized A i rq \<and> tabs (db (core C')) = tabs (db (core C)) \<and>
    (providers (tabs (db (core C))) = [] \<longrightarrow> payload resp = Json JNull) \<and>
    (providers (tabs (db (core C))) \<noteq> [] \<longrightarrow>
      (\<exists>vs. payload resp = Json (JArr vs) \<and> length vs = length (providers (tabs (db (core C)))) \<and>
        (\<forall>v \<in> set vs. \<forall>k \<in> {''Token'', ''WGPubKey'', ''MachineID'', ''BinaryHash''}. member v k = Some (JStr []))))"
proof -
  have m: "rq_method rq \<in> set GET"
  proof (rule ccontr)
    assume "rq_method rq \<notin> set GET"
    with assms(2-4) show False by (auto simp: Serve_def v1_def only_def)
  qed
  then have run: "withJWT A i rq (handle_list A) C = (resp, C')"
    using assms(2,3) by (simp add: Serve_def v1_def only_def)
  with assms(4) have auth: "authorized A i rq" and run: "handle_list A C = (resp, C')"
    by (auto simp: withJWT_def authorized_def httpErr_def split: if_splits)
  obtain r p where l: "ListProviders (db (core C)) = (r, p)" by fastforce
  show ?thesis
  proof (cases r)
    case (Inl e)
    with run l assms(4) show ?thesis
      by (auto simp: handle_list_def on_core_eq on_pg_def httpErr_def)
  next
    case (Inr ps)
    with l have q: "sql_list_providers (pg_env (db (core C))) (clock (db (core C))) (tabs (db (core C))) = (Inr ps, tabs p)"
      by (simp add: ListProviders_def exec_Inr)
    then have ps: "ps = map listed (sort_key (\<lambda>r. - p_last_seen r)
        (scan_providers (pg_env (db (core C))) (providers (tabs (db (core C))))))" "tabs p = tabs (db (core C))"
      by (auto simp: sql_list_providers_def)
    have "length ps = length (providers (tabs (db (core C))))"
      using assms(1) mset_eq_length [of "scan_providers (pg_env (db (core C))) (providers (tabs (db (core C))))"]
      by (simp add: ps stores_ok_def pg_ok_def)
    moreover have "member (provider_json A v) k = Some (JStr [])"
      if "v \<in> set ps" "k \<in> {''Token'', ''WGPubKey'', ''MachineID'', ''BinaryHash''}" for v k
    proof -
      from that(1) obtain r where "v = listed r" by (auto simp: ps)
      with that(2) show ?thesis by (elim insertE emptyE) (simp_all add: listed_hidden)
    qed
    moreover have "resp = respond (if ps = [] then JNull else JArr (map (provider_json A) ps))"
      "tabs (db (core C')) = tabs (db (core C))"
      using run l Inr ps(2) by (auto simp: handle_list_def on_core_eq on_pg_def)
    ultimately show ?thesis using auth by (auto simp: respond_def)
  qed
qed

definition sample_list :: http_request where
  "sample_list = \<lparr>rq_method = ''GET'', rq_path = v1 [''providers''],
     rq_auth = ''Bearer '' @ sign_jwt ''k'' ''{}'' ''{}'', rq_body = []\<rparr>"

theorem list_route_hides_secrets_witness:
  "status (fst (Serve sample_api sample_inputs sample_list sample_control)) = 200 \<and>
   (\<exists>vs. payload (fst (Serve sample_api sample_inputs sample_list sample_control)) = Json (JArr vs) \<and> length vs = 2)"
proof -
  let ?S = "Serve sample_api sample_inputs sample_list sample_control"
  have "read_claims exact_runtime ''{}'' = Some []" by code_simp
  moreover have "in_window exact_runtime t1 t2 []" for t1 t2 by (simp add: in_window_def claim_time_def)
  ultimately have j: "validateJWT exact_runtime t1 t2 (sign_jwt ''k'' ''{}'' ''{}'') ''k''" for t1 t2
    using validateJWT_signed by blast
  have "trim_prefix (rq_auth sample_list) ''Bearer '' = sign_jwt ''k'' ''{}'' ''{}''" "has_prefix (rq_auth sample_list) ''Bearer ''"
    by (simp_all add: sample_list_def trim_prefix_def has_prefix_def)
  moreover have "runtime sample_api = exact_runtime" "JWTSecret sample_api = ''k''"
    by (simp_all add: sample_api_def)
  moreover have "rq_path sample_list = v1 [''providers'']" "rq_method sample_list = ''GET''"
    by (simp_all add: sample_list_def)
  ultimately have "?S = handle_list sample_api sample_control"
    using j unfolding Serve_def withJWT_def Let_def only_def GET_def v1_def by simp
  moreover have "status (fst (handle_list sample_api sample_control)) = 200" by code_simp
  ultimately have s: "status (fst ?S) = 200" by simp
  have "length (providers (tabs (db (core sample_control)))) = 2" by code_simp
  with list_route_hides_secrets [OF sample_control_ok _ prod.collapse [symmetric] s] s show ?thesis
    by (auto simp: sample_list_def)
qed

end
