(* ===== verification/System.thy ===== *)
theory System
  imports Api
begin

text \<open>
  The running control plane: requests served one after the other, ticks of the sweeper,
  tokens issued and revoked by the operator, and time passing, in any order. The relation
  \<open>reaches\<close> records the events and the jobs that were handed out; what holds in every
  reachable state is proved by induction over it from the contracts of the components.
\<close>

datatype event = Request inputs http_request | Sweep | Issue_Token string | Revoke_Token string
  | Elapse nat

fun after :: "('k, 's, 'c) api \<Rightarrow> event \<Rightarrow> 'r control \<Rightarrow> 'r control" where
  "after A (Request i rq) C = snd (Serve A i rq C)"
| "after A Sweep C = C\<lparr>core := (core C)\<lparr>db := snd (SweepOffline [0] (db (core C)))\<rparr>\<rparr>"
| "after A (Issue_Token t) C = snd (on_core (on_redis (AddToken t)) C)"
| "after A (Revoke_Token t) C = snd (on_core (on_redis (RevokeToken t)) C)"
| "after A (Elapse d) C = C\<lparr>core := (core C)\<lparr>db := (db (core C))\<lparr>clock := clock (db (core C)) + int d\<rparr>\<rparr>\<rparr>"

text \<open>The job a request is answered with.\<close>

definition handed_out :: "event \<Rightarrow> 'r control \<Rightarrow> string list" where
  "handed_out e C =
     (case e of
        Request i rq \<Rightarrow>
          if length (rq_path rq) = 5 \<and> rq_path rq = v1 [''providers'', rq_path rq ! 3, ''jobs''] \<and>
            rq_method rq \<in> set GET
          then (case fst (PollForProvider (locked_jobs i) (rq_path rq ! 3) 25 (core C)) of
              (Some j, None) \<Rightarrow> [j_id j] | _ \<Rightarrow> [])
          else []
      | _ \<Rightarrow> [])"

inductive reaches :: "('k, 's, 'c) api \<Rightarrow> 'r control \<Rightarrow> event list \<Rightarrow> string list \<Rightarrow> 'r control \<Rightarrow> bool"
  for A :: "('k, 's, 'c) api" and C0 :: "'r control" where
  start: "reaches A C0 [] [] C0"
| step: "reaches A C0 es ids C \<Longrightarrow> reaches A C0 (es @ [e]) (ids @ handed_out e C) (after A e C)"

inductive_cases reaches_NilE: "reaches A C0 [] ids C"

lemma Serve_poll:
  assumes "rq_path rq = v1 [''providers'', pid, ''jobs'']" and "rq_method rq \<in> set GET"
  shows "Serve A i rq C = handle_poll i pid C"
  using assms by (simp add: Serve_def v1_def only_def)

text \<open>The answer to a poll is the job that is handed out.\<close>

lemma handed_out_answer:
  assumes "handed_out (Request i rq) C = [x]"
  shows "\<exists>j. j_id j = x \<and> fst (Serve A i rq C) = respond (job_json j)"
proof -
  from assms obtain j where p: "rq_path rq = v1 [''providers'', rq_path rq ! 3, ''jobs'']" "rq_method rq \<in> set GET"
    and j: "fst (PollForProvider (locked_jobs i) (rq_path rq ! 3) 25 (core C)) = (Some j, None)" "j_id j = x"
    by (auto simp: handed_out_def split: if_splits prod.splits option.splits)
  then show ?thesis
    unfolding Serve_poll [OF p] by (auto simp: handle_poll_def on_core_eq)
qed


section \<open>Events as calls of the stores\<close>

lemma sweep_through: "through {CallMarkOffline (90 * 1000000000)} S (S\<lparr>db := snd (SweepOffline [0] (db S))\<rparr>)"
proof (rule through_call)
  have "snd (SweepOffline [0] (db S)) = snd (MarkOffline (90 * 1000000000) (db S))"
    by (simp add: SweepOffline_Cons)
  then show "run_call (CallMarkOffline (90 * 1000000000)) (db S) = db (S\<lparr>db := snd (SweepOffline [0] (db S))\<rparr>)"
    by simp
qed simp_all

text \<open>The calls an event can make; \<open>AssignJob\<close> is left to the next lemma.\<close>

fun event_calls :: "event \<Rightarrow> pg_call set" where
  "event_calls (Request i rq) = calls_of (rq_path rq)"
| "event_calls Sweep = {CallMarkOffline (90 * 1000000000)}"
| "event_calls (Elapse d) = {Pass_Time d}"
| "event_calls e = {}"

lemma after_through: "through (event_calls e) (core C) (core (after A e C))"
proof (cases e)
  case (Request i rq)
  then show ?thesis by (simp add: Serve_through)
next
  case Sweep
  then show ?thesis using sweep_through [of "core C"] by simp
next
  case (Elapse d)
  have "through {Pass_Time d} (core C) ((core C)\<lparr>db := (db (core C))\<lparr>clock := clock (db (core C)) + int d\<rparr>\<rparr>)"
    by (rule through_call) simp_all
  with Elapse show ?thesis by simp
qed (auto simp: on_core_eq intro: through_on_redis)

lemma after_ok: "stores_ok (core C) \<Longrightarrow> stores_ok (core (after A e C))"
  by (rule through_ok [OF after_through])

lemma reaches_ok: "reaches A C0 es ids C \<Longrightarrow> stores_ok (core C0) \<Longrightarrow> stores_ok (core C)"
  by (induction rule: reaches.induct) (simp_all add: after_ok)


section \<open>Jobs\<close>

text \<open>A deploy assigns only the job it has just inserted, so never one that is known.\<close>

lemma BestProvider_run: "BestProvider c m p = (r, q) \<Longrightarrow> q = run_calls [CallBestProvider c m] p"
  and InsertJob_run: "InsertJob j p = (u, q) \<Longrightarrow> q = run_calls [CallInsertJob j] p"
  and AssignJob_run: "AssignJob k i p = (u, q) \<Longrightarrow> q = run_calls [CallAssignJob k i] p"
  by (simp_all add: run_calls_def)

lemma Submit_calls:
  assumes "Submit jobID req S = (r, S')" and "i \<in> j_id ` set (jobs (tabs (db S)))"
  shows "\<exists>cs. db S' = run_calls cs (db S) \<and> (\<forall>pid. CallAssignJob i pid \<notin> set cs)"
  using assms(1)
proof (cases rule: Submit_cases)
  case (unplaced e)
  then show ?thesis
    using BestProvider_run [OF unplaced(1)] by (intro exI [of _ "[CallBestProvider _ _]"]) auto
next
  case (no_row pr p e)
  have "db S' = run_calls ([CallBestProvider (dq_CPUCores req) (dq_MemoryMB req)] @
      [CallInsertJob (new_job jobID (p_id pr) req)]) (db S)"
    using BestProvider_run [OF no_row(1)] InsertJob_run [OF no_row(2)] by (simp only: run_calls_append)
  then show ?thesis by (intro exI conjI) auto
next
  case (unassigned pr p p' e)
  have "jobID \<noteq> i"
    using InsertJob_Inr(1) [OF unassigned(2)] BestProvider_tabs [OF unassigned(1)] assms(2) by auto
  moreover have "db S' = run_calls ([CallBestProvider (dq_CPUCores req) (dq_MemoryMB req)] @
      [CallInsertJob (new_job jobID (p_id pr) req)] @ [CallAssignJob jobID (p_id pr)]) (db S)"
    using BestProvider_run [OF unassigned(1)] InsertJob_run [OF unassigned(2)] AssignJob_run [OF unassigned(3)]
    by (simp only: run_calls_append)
  ultimately show ?thesis by (intro exI conjI) auto
next
  case (assigned pr p p' u)
  have "jobID \<noteq> i"
    using InsertJob_Inr(1) [OF assigned(2)] BestProvider_tabs [OF assigned(1)] assms(2) by auto
  moreover have "db S' = run_calls ([CallBestProvider (dq_CPUCores req) (dq_MemoryMB req)] @
      [CallInsertJob (new_job jobID (p_id pr) req)] @ [CallAssignJob jobID (p_id pr)]) (db S)"
    using BestProvider_run [OF assigned(1)] InsertJob_run [OF assigned(2)] AssignJob_run [OF assigned(3)]
    by (simp only: run_calls_append)
  ultimately show ?thesis by (intro exI conjI) auto
qed

lemma submit_calls_no_assign: "CallAssignJob i pid \<notin> calls_of p" if "p \<noteq> v1 [''deploy'']"
  using that by (auto simp: calls_of_def v1_def)

text \<open>Hence no event assigns a job that is there already.\<close>

lemma after_calls:
  assumes "i \<in> j_id ` set (jobs (tabs (db (core C))))"
  shows "\<exists>cs. db (core (after A e C)) = run_calls cs (db (core C)) \<and> (\<forall>pid. CallAssignJob i pid \<notin> set cs)"
proof (cases "\<exists>inp rq. e = Request inp rq \<and> rq_path rq = v1 [''deploy'']")
  case False
  then have "CallAssignJob i pid \<notin> event_calls e" for pid
    by (cases e) (use submit_calls_no_assign in auto)
  with after_through [of e C A] show ?thesis by (force simp: through_def)
next
  case True
  then obtain inp rq where e: "e = Request inp rq" "rq_path rq = v1 [''deploy'']" by blast
  then have "after A e C = C \<or> core (after A e C) = core (snd (handle_deploy A inp (rq_body rq) C))"
    by (simp add: Serve_def v1_def only_def withJWT_def)
  moreover have "core (snd (handle_deploy A inp (rq_body rq) C)) = core C \<or>
      (\<exists>req. core (snd (handle_deploy A inp (rq_body rq) C)) = snd (Submit (new_uuid inp) req (core C)))"
    by (auto simp: handle_deploy_def on_core_eq split: sum.splits)
  moreover have "\<exists>cs. db (snd (Submit (new_uuid inp) req (core C))) = run_calls cs (db (core C)) \<and>
      (\<forall>pid. CallAssignJob i pid \<notin> set cs)" for req
    by (rule Submit_calls [OF prod.collapse [symmetric] assms])
  moreover have "\<exists>cs. db (core C) = run_calls cs (db (core C)) \<and> (\<forall>pid. CallAssignJob i pid \<notin> set cs)"
    by (rule exI [of _ "[]"]) (simp add: run_calls_def)
  ultimately show ?thesis by metis
qed

lemma abs_jobs_known: "abs_jobs t i = Some x \<Longrightarrow> i \<in> j_id ` set (jobs t)"
  by (auto simp: abs_jobs_def dest: job_at_mem)

lemma after_running:
  assumes "stores_ok (core C)" and "abs_jobs (tabs (db (core C))) i = Some (Running, pid)"
  shows "abs_jobs (tabs (db (core (after A e C)))) i = Some (Running, pid)"
proof -
  obtain cs where cs: "db (core (after A e C)) = run_calls cs (db (core C))" "\<forall>pid. CallAssignJob i pid \<notin> set cs"
    using after_calls [OF abs_jobs_known [OF assms(2)]] by blast
  with run_calls_phase [OF _ _ assms(2), of cs] assms(1) show ?thesis
    by (auto simp: stores_ok_def Running_only)
qed

lemma handed_out_claims:
  assumes "stores_ok (core C)" and "i \<in> set (handed_out e C)"
  shows "\<exists>pid. abs_jobs (tabs (db (core C))) i = Some (Scheduled, pid) \<and>
    abs_jobs (tabs (db (core (after A e C)))) i = Some (Running, pid) \<and> handed_out e C = [i]"
proof -
  have "\<exists>inp rq. e = Request inp rq"
  proof (rule ccontr)
    assume "\<nexists>inp rq. e = Request inp rq"
    then have "handed_out e C = []" by (cases e) (simp_all add: handed_out_def)
    with assms(2) show False by simp
  qed
  then obtain inp rq where e: "e = Request inp rq" by blast
  let ?P = "PollForProvider (locked_jobs inp) (rq_path rq ! 3) 25 (core C)"
  let ?ok = "length (rq_path rq) = 5 \<and> rq_path rq = v1 [''providers'', rq_path rq ! 3, ''jobs''] \<and>
    rq_method rq \<in> set GET"
  have h: "handed_out e C = (if ?ok then (case fst ?P of (Some j, None) \<Rightarrow> [j_id j] | _ \<Rightarrow> []) else [])"
    unfolding e handed_out_def by simp
  have ok: ?ok
  proof (rule ccontr)
    assume "\<not> ?ok"
    then have "handed_out e C = []" unfolding h by (rule if_not_P)
    with assms(2) show False by simp
  qed
  obtain j where j: "fst ?P = (Some j, None)" "j_id j = i" "handed_out e C = [i]"
  proof -
    obtain jo eo where P: "fst ?P = (jo, eo)" by fastforce
    have "handed_out e C = (case fst ?P of (Some j, None) \<Rightarrow> [j_id j] | _ \<Rightarrow> [])"
      unfolding h by (rule if_P [OF ok])
    with assms(2) P that show thesis by (cases jo; cases eo) auto
  qed
  have run: "?P = ((Some j, None), snd ?P)" using j(1) by (metis prod.collapse)
  have a: "core (after A e C) = snd ?P"
    unfolding e after.simps Serve_poll [OF ok [THEN conjunct2, THEN conjunct1] ok [THEN conjunct2, THEN conjunct2]]
    by (auto simp: handle_poll_def on_core_eq split: prod.splits option.splits)
  from assms(1) run show ?thesis
  proof (cases rule: PollForProvider_cases)
    case woken
    from assms(1) have env: "wf_tables (tabs (db (core C)))" "pg_ok (pg_env (db (core C)))"
      by (simp_all add: stores_ok_def)
    have "fst (NextPendingJob (locked_jobs inp) (rq_path rq ! 3) (db (core C))) = (Some j, None)"
      using woken(4) by simp
    from delivery_claims [OF env this] show ?thesis
      using woken(4) j a by (intro exI [of _ "rq_path rq ! 3"]) simp
  qed simp_all
qed

section \<open>Addresses and tokens\<close>

text \<open>What a row was registered with: nothing but an insertion touches it.\<close>

definition creds :: "provider \<Rightarrow> string \<times> string" where
  "creds r = (p_wg_ip r, p_token r)"

abbreviation all_creds :: "'r stores \<Rightarrow> (string \<times> string) list" where
  "all_creds S \<equiv> map creds (providers (tabs (db S)))"

lemma exec_creds:
  assumes "map creds (providers (snd (st (pg_env p) (clock p) (tabs p)))) = map creds (providers (tabs p))"
  shows "map creds (providers (tabs (snd (exec st p)))) = map creds (providers (tabs p))"
  by (rule exec_rule [where P = "\<lambda>t. map creds (providers t) = map creds (providers (tabs p))"])
    (simp_all add: assms)

lemma run_call_creds:
  assumes "\<And>pr. c \<noteq> CallUpsertProvider pr"
  shows "map creds (providers (tabs (run_call c p))) = map creds (providers (tabs p))"
proof (cases c)
  case (CallHeartbeat i a l m)
  then show ?thesis
    by (auto simp: op_defs sql_update_heartbeat_def with_params_def map_update_where creds_def
        intro!: exec_creds split: option.splits)
next
  case (CallMarkOffline d)
  then show ?thesis
    by (auto simp: op_defs sql_mark_offline_def map_update_where creds_def intro!: exec_creds)
qed (use assms calls_part NextPendingJob_part in \<open>simp_all add: op_defs\<close>)

lemma through_creds:
  assumes "through X S S'" and "\<And>pr. CallUpsertProvider pr \<notin> X"
  shows "all_creds S' = all_creds S"
proof -
  obtain cs where cs: "set cs \<subseteq> X" "db S' = run_calls cs (db S)" using assms(1) by (auto simp: through_def)
  have "map creds (providers (tabs (run_calls cs p))) = map creds (providers (tabs p))" for p
    using cs(1)
  proof (induction cs arbitrary: p)
    case (Cons c cs)
    then have "\<And>pr. c \<noteq> CallUpsertProvider pr" using assms(2) by auto
    from Cons.IH [of "run_call c p"] Cons.prems run_call_creds [OF this, of p] show ?case
      by (simp add: run_calls_def)
  qed (simp add: run_calls_def)
  with cs(2) show ?thesis by simp
qed

lemma UpsertProvider_creds:
  "map creds (providers (tabs (snd (UpsertProvider pr p)))) \<in>
     {map creds (providers (tabs p)), map creds (providers (tabs p)) @ [creds pr]}"
  unfolding UpsertProvider_def
proof (rule exec_rule [where P = "\<lambda>t. map creds (providers t) \<in>
    {map creds (providers (tabs p)), map creds (providers (tabs p)) @ [creds pr]}"])
  show "map creds (providers (snd (sql_upsert_provider pr (pg_env p) (clock p) (tabs p)))) \<in>
      {map creds (providers (tabs p)), map creds (providers (tabs p)) @ [creds pr]}"
    by (auto simp: sql_upsert_provider_def with_params_def map_update_where creds_def inserted_provider_def
        split: option.splits)
qed simp

text \<open>A registration, and every other event, on rows, counter and tokens.\<close>

lemma Register_creds:
  assumes "stores_ok S" and "Register g i now req S = (r, S')"
  shows "tokens_of (cache S') = tokens_of (cache S) \<and>
    (all_creds S' = all_creds S \<and> ips_used (cache S') \<in> {ips_used (cache S), ips_used (cache S) + 1} \<or>
     all_creds S' \<in> {all_creds S, all_creds S @ [(wg_ip_of (ips_used (cache S) + 1), rq_Token req)]} \<and>
       ips_used (cache S') = ips_used (cache S) + 1 \<and> ips_used (cache S) + 1 < 2 ^ 63 \<and>
       rq_Token req \<in> tokens_of (cache S))"
proof -
  from assms(1) have ready: "ready_redis (cache S)" by (simp add: stores_ok_def)
  have c: "creds (next_provider i now req (cache S)) = (wg_ip_of (ips_used (cache S) + 1), rq_Token req)"
    by (simp add: creds_def)
  note up = UpsertProvider_creds [of "next_provider i now req (cache S)" "db S", unfolded c]
  from ready assms(2) show ?thesis
  proof (cases rule: Register_cases)
    case (no_row e)
    with up show ?thesis by (simp add: ips_used_def tokens_of_def valid_token_def)
  next
    case registered
    with up show ?thesis by (simp add: ips_used_def tokens_of_def valid_token_def)
  qed (auto simp: ips_used_def tokens_of_def)
qed

lemma Submit_cache:
  assumes "stores_ok S" and "Submit jobID req S = (r, S')"
  shows "ips_used (cache S') = ips_used (cache S) \<and> tokens_of (cache S') = tokens_of (cache S)"
  using assms(2)
proof (cases rule: Submit_cases)
  case (assigned pr p p' u)
  from assms(1) have "ready_redis (cache S)" by (simp add: stores_ok_def)
  from PushJob_effect [OF this assigned(4)] show ?thesis
    by (cases u) (auto simp: ips_used_def tokens_of_def)
qed simp_all

lemma PollForProvider_cache:
  assumes "stores_ok S"
  shows "ips_used (cache (snd (PollForProvider l i w S))) = ips_used (cache S) \<and>
    tokens_of (cache (snd (PollForProvider l i w S))) = tokens_of (cache S)"
proof -
  obtain u R where pop: "PopJob i w (cache S) = (u, R)" by fastforce
  from assms have "ready_redis (cache S)" by (simp add: stores_ok_def)
  from PopJob_effect [OF this pop] have "ips_used R = ips_used (cache S) \<and> tokens_of R = tokens_of (cache S)"
    by (auto simp: ips_used_def tokens_of_def split: sum.splits if_splits)
  moreover have "cache (snd (PollForProvider l i w S)) = R"
    by (simp add: PollForProvider_def on_redis_def pop split: sum.splits)
  ultimately show ?thesis by simp
qed

lemma Serve_cache:
  assumes "stores_ok (core C)" and "rq_path rq \<noteq> v1 [''providers'', ''register'']"
  shows "ips_used (cache (core (snd (Serve A i rq C)))) = ips_used (cache (core C)) \<and>
    tokens_of (cache (core (snd (Serve A i rq C)))) = tokens_of (cache (core C))"
proof -
  let ?same = "\<lambda>C'. ips_used (cache (core C')) = ips_used (cache (core C)) \<and>
    tokens_of (cache (core C')) = tokens_of (cache (core C))"
  have "?same (snd (handle_heartbeat A b C))" for b
    by (auto simp: handle_heartbeat_def on_core_eq Heartbeat_def split: sum.splits)
  moreover have "?same (snd (handle_report A i b C))" for b
    by (auto simp: handle_report_def on_core_eq split: sum.splits)
  moreover have "?same (snd (handle_list A C))"
    by (auto simp: handle_list_def on_core_eq split: sum.splits)
  moreover have "?same (snd (handle_deploy A i b C))" for b
    using Submit_cache [OF assms(1) prod.collapse [symmetric]]
    by (auto simp: handle_deploy_def on_core_eq split: sum.splits)
  moreover have "?same (snd (handle_poll i pid C))" for pid
    using PollForProvider_cache [OF assms(1)]
    by (auto simp: handle_poll_def on_core_eq split: prod.splits option.splits)
  ultimately show ?thesis
    using assms(2) by (simp add: Serve_def Let_def only_def withJWT_def cert_core)
qed

lemma register_core:
  "core (snd (handle_register A i body C)) = core C \<or>
   (\<exists>req. core (snd (handle_register A i body C)) =
      snd (Register (reg A) (new_uuid i) (micros (reading i 0)) req (core C)))"
proof (cases "decode (runtime A) register_fields empty_register body")
  case (Inr b)
  let ?R = "Register (reg A) (new_uuid i) (micros (reading i 0)) (to_register_request b) (core C)"
  obtain r S' where R: "?R = (r, S')" by fastforce
  have "core (snd (handle_register A i body C)) = snd ?R"
    by (cases r) (simp_all add: handle_register_def Inr on_core_eq R split_def Let_def)
  then show ?thesis by blast
qed (simp add: handle_register_def)

text \<open>One event, on rows, counter and tokens.\<close>

lemma Request_core:
  "core (after A (Request i rq) C) = core C \<or>
   (\<exists>req. core (after A (Request i rq) C) = snd (Register (reg A) (new_uuid i) (micros (reading i 0)) req (core C)))"
  if "rq_path rq = v1 [''providers'', ''register'']"
  using that register_core [of A i "rq_body rq" C] by (simp add: Serve_def only_def)

lemma after_creds:
  assumes "stores_ok (core C)"
  shows "tokens_of (cache (core (after A e C))) \<subseteq> tokens_of (cache (core C)) \<union> {t. e = Issue_Token t} \<and>
    (all_creds (core (after A e C)) = all_creds (core C) \<and>
       ips_used (cache (core (after A e C))) \<in> {ips_used (cache (core C)), ips_used (cache (core C)) + 1} \<or>
     (\<exists>t \<in> tokens_of (cache (core C)).
       all_creds (core (after A e C)) = all_creds (core C) @ [(wg_ip_of (ips_used (cache (core C)) + 1), t)] \<and>
       ips_used (cache (core (after A e C))) = ips_used (cache (core C)) + 1 \<and>
       ips_used (cache (core C)) + 1 < 2 ^ 63))"
proof (cases "\<exists>i rq. e = Request i rq \<and> rq_path rq = v1 [''providers'', ''register'']")
  case True
  then obtain i rq where e: "e = Request i rq" "rq_path rq = v1 [''providers'', ''register'']" by blast
  obtain S' where S': "core (after A e C) = S'" by blast
  from Request_core [OF e(2), of A i C] consider "S' = core C"
    | req where "S' = snd (Register (reg A) (new_uuid i) (micros (reading i 0)) req (core C))"
    unfolding S' [unfolded e(1)] by blast
  then show ?thesis unfolding S'
  proof cases
    case 2
    then obtain r where "Register (reg A) (new_uuid i) (micros (reading i 0)) req (core C) = (r, S')"
      by (metis prod.collapse)
    from Register_creds [OF assms this] show "tokens_of (cache S') \<subseteq> tokens_of (cache (core C)) \<union> {t. e = Issue_Token t} \<and>
      (all_creds S' = all_creds (core C) \<and> ips_used (cache S') \<in> {ips_used (cache (core C)), ips_used (cache (core C)) + 1} \<or>
       (\<exists>t \<in> tokens_of (cache (core C)). all_creds S' = all_creds (core C) @ [(wg_ip_of (ips_used (cache (core C)) + 1), t)] \<and>
         ips_used (cache S') = ips_used (cache (core C)) + 1 \<and> ips_used (cache (core C)) + 1 < 2 ^ 63))"
      by (elim conjE disjE insertE; blast)
  qed simp
next
  case False
  then have "CallUpsertProvider pr \<notin> event_calls e" for pr
    by (cases e) (auto simp: calls_of_def v1_def submit_calls_def)
  from through_creds [OF after_through this] have creds: "all_creds (core (after A e C)) = all_creds (core C)" .
  have ready: "ready_redis (cache (core C))" using assms by (simp add: stores_ok_def)
  have "tokens_of (cache (core (after A e C))) \<subseteq> tokens_of (cache (core C)) \<union> {t. e = Issue_Token t} \<and>
      ips_used (cache (core (after A e C))) = ips_used (cache (core C))"
  proof (cases e)
    case (Request i rq)
    with Serve_cache [OF assms, of rq A i] False show ?thesis by simp
  next
    case (Issue_Token t)
    from AddToken_effect [OF ready prod.collapse [symmetric], of t]
    show ?thesis by (auto simp: Issue_Token on_core_eq on_redis_def split_def Let_def effect_def tokens_of_def ips_used_def split: if_splits)
  next
    case (Revoke_Token t)
    from RevokeToken_effect [OF ready prod.collapse [symmetric], of t]
    show ?thesis by (auto simp: Revoke_Token on_core_eq on_redis_def split_def Let_def effect_def tokens_of_def ips_used_def split: if_splits)
  qed simp_all
  with creds show ?thesis by simp
qed


section \<open>Invariants of the running system\<close>

text \<open>Jobs handed out are running, and no job is handed out twice.\<close>

lemma reaches_claims:
  assumes "reaches A C0 es ids C" and "stores_ok (core C0)"
  shows "distinct ids \<and> (\<forall>i \<in> set ids. \<exists>pid. abs_jobs (tabs (db (core C))) i = Some (Running, pid))"
  using assms
proof (induction rule: reaches.induct)
  case (step es ids C e)
  then have ok: "stores_ok (core C)" by (simp add: reaches_ok)
  have new: "\<exists>pid. abs_jobs (tabs (db (core C))) i = Some (Scheduled, pid) \<and>
      abs_jobs (tabs (db (core (after A e C)))) i = Some (Running, pid) \<and> handed_out e C = [i]"
    if "i \<in> set (handed_out e C)" for i
    using handed_out_claims [OF ok that] .
  have "\<exists>pid. abs_jobs (tabs (db (core (after A e C)))) i = Some (Running, pid)"
    if "i \<in> set ids" for i
    using that step after_running [OF ok] by blast
  moreover have "distinct (handed_out e C)"
    using new by (cases "handed_out e C") (simp, force)
  moreover have "set ids \<inter> set (handed_out e C) = {}"
    using step new by fastforce
  moreover have "\<exists>pid. abs_jobs (tabs (db (core (after A e C)))) i = Some (Running, pid)"
    if "i \<in> set (handed_out e C)" for i
    using new [OF that] by blast
  ultimately show ?case using step by auto
qed simp

definition addressed :: "'r stores \<Rightarrow> bool" where
  "addressed S \<longleftrightarrow> 0 \<le> ips_used (cache S) \<and>
     (\<exists>ns. map p_wg_ip (providers (tabs (db S))) = map wg_ip_of ns \<and> distinct ns \<and>
       set ns \<subseteq> {0<..ips_used (cache S)} \<inter> {..<2 ^ 63})"

lemma addressed_distinct: "addressed S \<Longrightarrow> distinct (map p_wg_ip (providers (tabs (db S))))"
proof -
  assume "addressed S"
  then obtain ns where ns: "map p_wg_ip (providers (tabs (db S))) = map wg_ip_of ns" "distinct ns"
    "set ns \<subseteq> {0<..ips_used (cache S)} \<inter> {..<2 ^ 63}" by (auto simp: addressed_def)
  then have "inj_on wg_ip_of (set ns)" by (intro inj_on_subset [OF wg_ip_inj]) force
  with ns(1,2) show ?thesis by (simp only: distinct_map simp_thms)
qed

lemma map_wg_ip: "map p_wg_ip (providers (tabs (db S))) = map fst (all_creds S)"
  by (simp add: creds_def comp_def)

lemma after_addressed:
  assumes "stores_ok (core C)" and "addressed (core C)"
  shows "addressed (core (after A e C))"
proof -
  let ?n = "ips_used (cache (core C))"
  obtain ns where ns: "map fst (all_creds (core C)) = map wg_ip_of ns" "distinct ns"
    "set ns \<subseteq> {0<..?n} \<inter> {..<2 ^ 63}" "0 \<le> ?n" using assms(2) by (auto simp: addressed_def map_wg_ip)
  from after_creds [OF assms(1), of A e] consider
      "all_creds (core (after A e C)) = all_creds (core C)" "ips_used (cache (core (after A e C))) \<in> {?n, ?n + 1}"
    | t where "all_creds (core (after A e C)) = all_creds (core C) @ [(wg_ip_of (?n + 1), t)]"
      "ips_used (cache (core (after A e C))) = ?n + 1" "?n + 1 < 2 ^ 63" by blast
  then show ?thesis
  proof cases
    case 1
    with ns show ?thesis unfolding addressed_def map_wg_ip by (intro conjI exI [of _ ns]) auto
  next
    case 2
    with ns show ?thesis unfolding addressed_def map_wg_ip
      by (intro conjI exI [of _ "ns @ [?n + 1]"]) auto
  qed
qed

lemma reaches_addressed:
  "reaches A C0 es ids C \<Longrightarrow> stores_ok (core C0) \<Longrightarrow> addressed (core C0) \<Longrightarrow> addressed (core C)"
  by (induction rule: reaches.induct) (simp_all add: after_addressed reaches_ok)

lemma map_token: "set (map p_token (providers (tabs (db S)))) = set (map snd (all_creds S))"
  by (simp add: creds_def comp_def)

lemma sources_grow:
  assumes "X' \<subseteq> X \<union> T" and "J = I \<union> E" and "T' \<subseteq> T \<union> E" and "T \<subseteq> T0 \<union> I \<and> X \<subseteq> X0 \<union> T0 \<union> I"
  shows "T' \<subseteq> T0 \<union> J \<and> X' \<subseteq> X0 \<union> T0 \<union> J"
  using assms by blast

lemma reaches_tokens:
  assumes "reaches A C0 es ids C" and "stores_ok (core C0)"
  shows "tokens_of (cache (core C)) \<subseteq> tokens_of (cache (core C0)) \<union> {t. Issue_Token t \<in> set es} \<and>
    set (map p_token (providers (tabs (db (core C))))) \<subseteq>
      set (map p_token (providers (tabs (db (core C0))))) \<union> tokens_of (cache (core C0)) \<union> {t. Issue_Token t \<in> set es}"
  using assms
proof (induction rule: reaches.induct)
  case (step es ids C e)
  then have ok: "stores_ok (core C)" by (simp add: reaches_ok)
  have "set (map snd (all_creds (core (after A e C)))) \<subseteq> set (map snd (all_creds (core C))) \<union> tokens_of (cache (core C))"
    using after_creds [OF ok, of A e] by (elim disjE conjE bexE) simp_all
  moreover have "{t. Issue_Token t \<in> set (es @ [e])} = {t. Issue_Token t \<in> set es} \<union> {t. e = Issue_Token t}" by auto
  moreover have "tokens_of (cache (core (after A e C))) \<subseteq> tokens_of (cache (core C)) \<union> {t. e = Issue_Token t}"
    using after_creds [OF ok, of A e] by (rule conjunct1)
  moreover note step(2) [OF step(3), unfolded map_token]
  ultimately show ?case unfolding map_token by (rule sources_grow)
qed auto



section \<open>Properties\<close>

text \<open>
  Result (jobs are delivered once). Whatever requests arrive, in whatever order, with ticks of
  the sweeper, tokens issued and revoked and failing stores in between: no job is answered to
  two polls, and a job that was answered is running for the provider that polled.
\<close>

theorem system_delivers_once:
  assumes "stores_ok (core C0)" and "reaches A C0 es ids C"
  shows "distinct ids \<and> (\<forall>i \<in> set ids. \<exists>pid. abs_jobs (tabs (db (core C))) i = Some (Running, pid))"
  by (rule reaches_claims [OF assms(2,1)])

text \<open>
  Result (addresses of providers). A control plane that starts without providers never has two
  of them with the same WireGuard address, whichever registrations fail half way.
\<close>

theorem system_addresses_distinct:
  assumes "stores_ok (core C0)" and "providers (tabs (db (core C0))) = []" and "0 \<le> ips_used (cache (core C0))"
    and "reaches A C0 es ids C"
  shows "distinct (map p_wg_ip (providers (tabs (db (core C)))))"
  using reaches_addressed [OF assms(4,1)] assms(2,3) by (intro addressed_distinct) (simp add: addressed_def)

text \<open>
  Result (providers were invited). Every provider in the table was registered with a token that
  the operator had issued, or that was there at the start.
\<close>

theorem system_tokens_were_issued:
  assumes "stores_ok (core C0)" and "reaches A C0 es ids C" and "r \<in> set (providers (tabs (db (core C))))"
  shows "p_token r \<in> p_token ` set (providers (tabs (db (core C0)))) \<union> tokens_of (cache (core C0)) \<union>
    {t. Issue_Token t \<in> set es}"
  using reaches_tokens [OF assms(2,1)] assms(3) by auto

text \<open>Job \<open>j1\<close> is announced to provider \<open>b\<close>, which polls twice.\<close>

definition sample_poll :: http_request where
  "sample_poll = \<lparr>rq_method = ''GET'', rq_path = v1 [''providers'', ''b'', ''jobs''], rq_auth = [], rq_body = []\<rparr>"

definition announced_control :: "redis_keys control" where
  "announced_control = \<lparr>core = snd (on_redis (PushJob ''b'' ''j1'') sample_stores), box = plain_host\<rparr>"

lemma announced_control_ok: "stores_ok (core announced_control)"
  using sample_stores_ok by (simp add: announced_control_def stores_ok_def)

theorem system_delivers_once_witness:
  "\<exists>C. reaches sample_api announced_control
      [Request sample_inputs sample_poll, Request sample_inputs sample_poll] [''j1''] C \<and>
    (\<exists>pid. abs_jobs (tabs (db (core C))) ''j1'' = Some (Running, pid))"
proof -
  let ?e = "Request sample_inputs sample_poll"
  have r: "reaches sample_api announced_control ([] @ [?e]) ([] @ handed_out ?e announced_control)
      (after sample_api ?e announced_control)"
    by (intro reaches.intros)
  have "reaches sample_api announced_control (([] @ [?e]) @ [?e])
      (([] @ handed_out ?e announced_control) @ handed_out ?e (after sample_api ?e announced_control))
      (after sample_api ?e (after sample_api ?e announced_control))"
    by (rule reaches.step [OF r])
  moreover have "handed_out ?e announced_control = [''j1'']" by code_simp
  moreover have "handed_out ?e (after sample_api ?e announced_control) = []" by code_simp
  ultimately have "reaches sample_api announced_control [?e, ?e] [''j1'']
      (after sample_api ?e (after sample_api ?e announced_control))" by simp
  with system_delivers_once [OF announced_control_ok this] show ?thesis by auto
qed

text \<open>The operator issues a token, and a provider registers with it.\<close>

definition new_control :: "redis_keys control" where
  "new_control = \<lparr>core = sample_stores\<lparr>db := sample_pg\<lparr>tabs := \<lparr>providers = [], vms = [], jobs = []\<rparr>\<rparr>\<rparr>,
     box = plain_host\<rparr>"

abbreviation first_registration :: "event list" where
  "first_registration \<equiv> [Issue_Token ''t'', Request sample_inputs sample_register]"

lemma new_control_ok: "stores_ok (core new_control)"
  using sample_stores_ok
  by (simp add: stores_ok_def new_control_def sample_stores_def wf_tables_def sample_pg_def)

lemma first_registration_reaches:
  "\<exists>C. reaches sample_api new_control first_registration [] C \<and>
     map p_wg_ip (providers (tabs (db (core C)))) = [''10.99.1.1'']"
proof -
  let ?i = "Issue_Token ''t''" and ?e = "Request sample_inputs sample_register"
  let ?C1 = "after sample_api ?i new_control"
  have r: "reaches sample_api new_control ([] @ [?i]) ([] @ handed_out ?i new_control) ?C1"
    by (intro reaches.intros)
  have "reaches sample_api new_control (([] @ [?i]) @ [?e])
      (([] @ handed_out ?i new_control) @ handed_out ?e ?C1) (after sample_api ?e ?C1)"
    by (rule reaches.step [OF r])
  moreover have "handed_out ?i new_control = []" "handed_out ?e ?C1 = []"
    by (simp_all add: handed_out_def sample_register_def v1_def)
  moreover have "map p_wg_ip (providers (tabs (db (core (after sample_api ?e ?C1))))) = [''10.99.1.1'']"
    by code_simp
  ultimately show ?thesis by auto
qed

theorem system_addresses_distinct_witness:
  "\<exists>C. reaches sample_api new_control first_registration [] C \<and>
     map p_wg_ip (providers (tabs (db (core C)))) = [''10.99.1.1''] \<and>
     distinct (map p_wg_ip (providers (tabs (db (core C)))))"
proof -
  obtain C where C: "reaches sample_api new_control first_registration [] C"
    "map p_wg_ip (providers (tabs (db (core C)))) = [''10.99.1.1'']" using first_registration_reaches by (elim exE conjE)
  have "providers (tabs (db (core new_control))) = []" "0 \<le> ips_used (cache (core new_control))" by code_simp+
  from system_addresses_distinct [OF new_control_ok this C(1)] C show ?thesis by (intro exI conjI)
qed

theorem system_tokens_were_issued_witness:
  "\<exists>C r. reaches sample_api new_control first_registration [] C \<and> r \<in> set (providers (tabs (db (core C)))) \<and>
     p_token r = ''t''"
proof -
  obtain C where C: "reaches sample_api new_control first_registration [] C"
    "map p_wg_ip (providers (tabs (db (core C)))) = [''10.99.1.1'']" using first_registration_reaches by (elim exE conjE)
  have "providers (tabs (db (core C))) \<noteq> []" using C(2) by (rule contrapos_pn) simp
  then have r: "hd (providers (tabs (db (core C)))) \<in> set (providers (tabs (db (core C))))" by (rule hd_in_set)
  have "tokens_of (cache (core new_control)) = {}"
    by (simp add: new_control_def sample_stores_def sample_redis_def tokens_of_def keys_of_def memory_client_def)
  moreover have "providers (tabs (db (core new_control))) = []" by code_simp
  ultimately have "p_token (hd (providers (tabs (db (core C))))) = ''t''"
    using system_tokens_were_issued [OF new_control_ok C(1) r] by simp
  with C(1) r show ?thesis by (intro exI conjI)
qed

end
