(* ===== verification/Json_Print.thy ===== *)
theory Json_Print
  imports Json Sha256
begin

text \<open>
  The other half of \<open>encoding/json\<close>: \<open>Marshal\<close>, from a value to text without white space, with
  the escapes Go uses (the characters \<open><\<close>, \<open>>\<close>, \<open>&\<close> and two line separators as \<open>\u\<close> sequences),
  and the proof that the scanner reads back what was printed. How a fraction is printed is a
  parameter.
\<close>

definition quote_char :: "char \<Rightarrow> string" where
  "quote_char c =
     (if c = CHR 0x22 \<or> c = CHR 0x5C then [CHR 0x5C, c]
      else if c = CHR 0x08 then [CHR 0x5C, CHR ''b'']
      else if c = CHR 0x0C then [CHR 0x5C, CHR ''f'']
      else if c = CHR 0x0A then [CHR 0x5C, CHR ''n'']
      else if c = CHR 0x0D then [CHR 0x5C, CHR ''r'']
      else if c = CHR 0x09 then [CHR 0x5C, CHR ''t'']
      else if byte c < 32 \<or> c = CHR ''<'' \<or> c = CHR ''>'' \<or> c = CHR 0x26
        then [CHR 0x5C, CHR ''u'', CHR ''0'', CHR ''0'', hex_digit (byte c div 16), hex_digit (byte c mod 16)]
      else [c])"

fun quote_bytes :: "string \<Rightarrow> string" where
  "quote_bytes [] = []"
| "quote_bytes (c # s) =
     (if c = CHR 0xE2 \<and> has_prefix s [CHR 0x80, CHR 0xA8] then CHR 0x5C # ''u2028'' @ quote_bytes (drop 2 s)
      else if c = CHR 0xE2 \<and> has_prefix s [CHR 0x80, CHR 0xA9] then CHR 0x5C # ''u2029'' @ quote_bytes (drop 2 s)
      else quote_char c @ quote_bytes s)"

definition print_string :: "string \<Rightarrow> string" where
  "print_string s = CHR 0x22 # quote_bytes s @ [CHR 0x22]"

fun print_json :: "(rat \<Rightarrow> string) \<Rightarrow> json \<Rightarrow> string"
  and print_elements :: "(rat \<Rightarrow> string) \<Rightarrow> json list \<Rightarrow> string"
  and print_members :: "(rat \<Rightarrow> string) \<Rightarrow> (string \<times> json) list \<Rightarrow> string" where
  "print_json ft JNull = ''null''"
| "print_json ft (JBool b) = (if b then ''true'' else ''false'')"
| "print_json ft (JInt n) = show_int n"
| "print_json ft (JFrac x) = ft x"
| "print_json ft (JStr s) = print_string s"
| "print_json ft (JArr vs) = ''['' @ print_elements ft vs @ '']''"
| "print_json ft (JObj ms) = ''{'' @ print_members ft ms @ ''}''"
| "print_elements ft [] = []"
| "print_elements ft (v # vs) = print_json ft v @ (if vs = [] then [] else '','' @ print_elements ft vs)"
| "print_members ft [] = []"
| "print_members ft ((k, v) # ms) =
     print_string k @ '':'' @ print_json ft v @ (if ms = [] then [] else '','' @ print_members ft ms)"


section \<open>Strings are read back\<close>

lemma hex_value_digit:
  assumes "0 \<le> n" and "n < 16"
  shows "hex_value (hex_digit n) = Some n"
proof -
  have "n \<in> set [0..15]" using assms by simp
  moreover have "list_all (\<lambda>n. hex_value (hex_digit n) = Some n) [0..15]" by code_simp
  ultimately show ?thesis unfolding list_all_iff by blast
qed

lemma byte_range: "0 \<le> byte c \<and> byte c < 256"
  unfolding byte_def by (rule of_char_range)

lemma scan_quote_char:
  "scan_string (quote_char c @ s) = map_option (\<lambda>(t, r). (c # t, r)) (scan_string s)"
proof -
  have e: "escape (CHR 0x22) = Some (CHR 0x22)" "escape (CHR 0x5C) = Some (CHR 0x5C)"
    "escape (CHR ''b'') = Some (CHR 0x08)" "escape (CHR ''f'') = Some (CHR 0x0C)"
    "escape (CHR ''n'') = Some (CHR 0x0A)" "escape (CHR ''r'') = Some (CHR 0x0D)"
    "escape (CHR ''t'') = Some (CHR 0x09)" by (simp_all add: escape_def)
  have b: "byte (CHR 0x5C) = 92" by (simp add: byte_def)
  let ?plain = "byte c < 32 \<or> c = CHR ''<'' \<or> c = CHR ''>'' \<or> c = CHR 0x26"
  show ?thesis
  proof (cases "c \<in> {CHR 0x22, CHR 0x5C, CHR 0x08, CHR 0x0C, CHR 0x0A, CHR 0x0D, CHR 0x09}")
    case True
    then show ?thesis
      by (elim insertE emptyE) (simp_all add: quote_char_def scan_escape_def e b byte_def)
  next
    case simple: False
    show ?thesis
    proof (cases ?plain)
      case True
      then have n: "0 \<le> byte c" "byte c < 128" using byte_range [of c] by (auto simp: byte_def)
      have "0 \<le> byte c div 16" "byte c div 16 < 16" using n by simp_all
      note h = hex_value_digit [OF this] hex_value_digit [OF pos_mod_sign pos_mod_bound, of "byte c"]
      have "hex_value (CHR ''0'') = Some 0" by (simp add: hex_value_def byte_def)
      then have "hex4 ([CHR ''0'', CHR ''0'', hex_digit (byte c div 16), hex_digit (byte c mod 16)] @ s) = Some (byte c, s)"
        using h by simp
      moreover have "utf8 (byte c) = [c]" using n by (simp add: utf8_def byte_def)
      ultimately have "scan_escape (CHR ''u'' # [CHR ''0'', CHR ''0'', hex_digit (byte c div 16), hex_digit (byte c mod 16)] @ s)
          = Some ([c], s)" using n by (simp add: scan_escape_def)
      then show ?thesis using simple True by (simp add: quote_char_def b)
    next
      case False
      then show ?thesis using simple by (simp add: quote_char_def)
    qed
  qed
qed

lemma scan_separator:
  "scan_string (CHR 0x5C # ''u2028'' @ s) = map_option (\<lambda>(t, r). ([CHR 0xE2, CHR 0x80, CHR 0xA8] @ t, r)) (scan_string s)"
  "scan_string (CHR 0x5C # ''u2029'' @ s) = map_option (\<lambda>(t, r). ([CHR 0xE2, CHR 0x80, CHR 0xA9] @ t, r)) (scan_string s)"
proof -
  have h: "hex_value (CHR ''2'') = Some 2" "hex_value (CHR ''0'') = Some 0" "hex_value (CHR ''8'') = Some 8"
    "hex_value (CHR ''9'') = Some 9" by (simp_all add: hex_value_def byte_def)
  have "utf8 8232 = [CHR 0xE2, CHR 0x80, CHR 0xA8]" "utf8 8233 = [CHR 0xE2, CHR 0x80, CHR 0xA9]"
    by (simp_all add: utf8_def char_of_def)
  then have "scan_escape (''u2028'' @ s) = Some ([CHR 0xE2, CHR 0x80, CHR 0xA8], s)"
    "scan_escape (''u2029'' @ s) = Some ([CHR 0xE2, CHR 0x80, CHR 0xA9], s)"
    by (simp_all add: scan_escape_def h)
  moreover have "byte (CHR 0x5C) = 92" by (simp add: byte_def)
  ultimately show "scan_string (CHR 0x5C # ''u2028'' @ s) = map_option (\<lambda>(t, r). ([CHR 0xE2, CHR 0x80, CHR 0xA8] @ t, r)) (scan_string s)"
    "scan_string (CHR 0x5C # ''u2029'' @ s) = map_option (\<lambda>(t, r). ([CHR 0xE2, CHR 0x80, CHR 0xA9] @ t, r)) (scan_string s)"
    by simp_all
qed

lemma prefix_two: "has_prefix s [a, b] \<Longrightarrow> s = a # b # drop 2 s"
  unfolding has_prefix_def by (metis append_Cons append_Nil append_take_drop_id length_Cons list.size(3) numeral_2_eq_2)

lemma scan_quote_bytes: "scan_string (quote_bytes t @ CHR 0x22 # r) = Some (t, r)"
proof (induction t rule: quote_bytes.induct)
  case (2 c s)
  show ?case
  proof (cases "c = CHR 0xE2 \<and> (has_prefix s [CHR 0x80, CHR 0xA8] \<or> has_prefix s [CHR 0x80, CHR 0xA9])")
    case False
    then have "quote_bytes (c # s) = quote_char c @ quote_bytes s" by auto
    with 2(3) False show ?thesis by (auto simp: scan_quote_char)
  next
    case True
    then show ?thesis
    proof (cases "has_prefix s [CHR 0x80, CHR 0xA8]")
      case t: True
      with True 2(1) have "scan_string (quote_bytes (drop 2 s) @ CHR 0x22 # r) = Some (drop 2 s, r)" by simp
      then show ?thesis using True t scan_separator(1) [of "quote_bytes (drop 2 s) @ CHR 0x22 # r"] prefix_two [OF t] by simp
    next
      case f: False
      with True have t: "has_prefix s [CHR 0x80, CHR 0xA9]" by simp
      with True f 2(2) have "scan_string (quote_bytes (drop 2 s) @ CHR 0x22 # r) = Some (drop 2 s, r)" by simp
      then show ?thesis using True f t scan_separator(2) [of "quote_bytes (drop 2 s) @ CHR 0x22 # r"] prefix_two [OF t] by simp
    qed
  qed
qed simp

lemma scan_text_quote: "to_utf8 t = t \<Longrightarrow> scan_text (quote_bytes t @ CHR 0x22 # r) = Some (t, r)"
  by (simp add: scan_text_def scan_quote_bytes)



section \<open>Encoding a string twice\<close>

text \<open>A well-formed sequence is kept in front of anything.\<close>

lemma to_utf8_ascii: "byte a < 128 \<Longrightarrow> to_utf8 (a # s) = a # to_utf8 s"
  by simp

lemma pair_high: "utf8_pair a b \<Longrightarrow> \<not> byte a < 128"
  by (simp add: utf8_pair_def cont_def)

lemma triple_high: "utf8_triple a b c \<Longrightarrow> \<not> byte a < 128 \<and> \<not> utf8_pair a b'"
  by (simp add: utf8_triple_def utf8_pair_def cont_def)

lemma quad_high: "utf8_quad a b c d \<Longrightarrow> \<not> byte a < 128 \<and> \<not> utf8_pair a b' \<and> \<not> utf8_triple a b' c'"
  by (simp add: utf8_quad_def utf8_triple_def utf8_pair_def cont_def)

declare to_utf8.simps(2) [simp del]

lemma to_utf8_pair:
  assumes "utf8_pair a b"
  shows "to_utf8 (a # b # s) = a # b # to_utf8 s"
proof -
  consider "s = []" | c where "s = [c]" | c d s' where "s = c # d # s'" by (metis list.exhaust)
  then show ?thesis
    using assms pair_high [OF assms] by cases (simp_all add: to_utf8.simps(2) [of a])
qed

lemma to_utf8_triple:
  assumes "utf8_triple a b c"
  shows "to_utf8 (a # b # c # s) = a # b # c # to_utf8 s"
proof -
  consider "s = []" | d s' where "s = d # s'" by (metis list.exhaust)
  then show ?thesis
    using assms triple_high [OF assms] by cases (simp_all add: to_utf8.simps(2) [of a])
qed

lemma to_utf8_quad: "utf8_quad a b c d \<Longrightarrow> to_utf8 (a # b # c # d # s) = a # b # c # d # to_utf8 s"
  using quad_high [of a b c d] by (simp add: to_utf8.simps(2) [of a])

lemma to_utf8_cases:
  obtains (ascii) "byte a < 128" "to_utf8 (a # s) = a # to_utf8 s"
  | (two) b s' where "s = b # s'" "utf8_pair a b" "to_utf8 (a # s) = a # b # to_utf8 s'"
  | (three) b c s' where "s = b # c # s'" "utf8_triple a b c" "to_utf8 (a # s) = a # b # c # to_utf8 s'"
  | (four) b c d s' where "s = b # c # d # s'" "utf8_quad a b c d" "to_utf8 (a # s) = a # b # c # d # to_utf8 s'"
  | (bad) "to_utf8 (a # s) = bad_rune @ to_utf8 s"
proof (cases "byte a < 128")
  case True
  with ascii show thesis by (simp add: to_utf8.simps(2) [of a])
next
  case high: False
  consider "s = []" | b where "s = [b]" | b c where "s = [b, c]" | b c d s' where "s = b # c # d # s'"
    by (metis list.exhaust)
  then show thesis
  proof cases
    case 1
    with high bad show thesis by (simp add: to_utf8.simps(2) [of a])
  next
    case (2 b)
    show thesis
    proof (cases "utf8_pair a b")
      case True
      with 2 two [of b "[]"] to_utf8_pair [of a b "[]"] show thesis by simp
    next
      case False
      with 2 high bad show thesis by (simp add: to_utf8.simps(2) [of a])
    qed
  next
    case (3 b c)
    show thesis
    proof (cases "utf8_pair a b \<or> utf8_triple a b c")
      case True
      with 3 two [of b "[c]"] to_utf8_pair [of a b "[c]"] three [of b c "[]"] to_utf8_triple [of a b c "[]"]
      show thesis by auto
    next
      case False
      with 3 high bad show thesis by (simp add: to_utf8.simps(2) [of a])
    qed
  next
    case (4 b c d s')
    show thesis
    proof (cases "utf8_pair a b \<or> utf8_triple a b c \<or> utf8_quad a b c d")
      case True
      with 4 two [of b "c # d # s'"] to_utf8_pair [of a b "c # d # s'"] three [of b c "d # s'"]
        to_utf8_triple [of a b c "d # s'"] four [of b c d s'] to_utf8_quad [of a b c d s']
      show thesis by auto
    next
      case False
      with 4 high bad show thesis by (simp add: to_utf8.simps(2) [of a])
    qed
  qed
qed

lemma bad_rune_triple: "utf8_triple (CHR 0xEF) (CHR 0xBF) (CHR 0xBD)"
  by (simp add: utf8_triple_def cont_def byte_def)

lemma to_utf8_bad: "to_utf8 (bad_rune @ s) = bad_rune @ to_utf8 s"
  using to_utf8_triple [OF bad_rune_triple] by (simp add: bad_rune_def)

lemma to_utf8_idem [simp]: "to_utf8 (to_utf8 s) = to_utf8 s"
proof (induction "length s" arbitrary: s rule: less_induct)
  case less
  show ?case
  proof (cases s)
    case (Cons a t)
    show ?thesis
    proof (cases a t rule: to_utf8_cases)
      case ascii
      with less [of t] Cons show ?thesis by (simp add: to_utf8_ascii)
    next
      case (two b t')
      with less [of t'] Cons show ?thesis by (simp add: to_utf8_pair)
    next
      case (three b c t')
      with less [of t'] Cons show ?thesis by (simp add: to_utf8_triple)
    next
      case (four b c d t')
      with less [of t'] Cons show ?thesis by (simp add: to_utf8_quad)
    next
      case bad
      with less [of t] Cons show ?thesis by (simp add: to_utf8_bad)
    qed
  qed simp
qed


section \<open>Numbers are read back\<close>

definition ends_number :: "string \<Rightarrow> bool" where
  "ends_number r \<longleftrightarrow> (case r of [] \<Rightarrow> True
     | c # _ \<Rightarrow> \<not> is_digit c \<and> c \<noteq> CHR ''.'' \<and> c \<noteq> CHR ''e'' \<and> c \<noteq> CHR ''E'')"

lemma byte_nat: "byte c = int (of_char c)"
  by (simp add: byte_def of_nat_of_char)

lemma digits_value_eq:
  "list_all is_digit s \<Longrightarrow> digits_value s = int (value_of_digits s)"
proof -
  have "foldl (\<lambda>a c. 10 * a + (byte c - 48)) (int x) s = int (foldl (\<lambda>a c. 10 * a + (of_char c - 48)) x s)"
    if "list_all is_digit s" for x
    using that
  proof (induction s arbitrary: x)
    case (Cons c s)
    then have "48 \<le> (of_char c :: nat)" by (simp add: is_digit_def cont_def byte_nat)
    then have "10 * int x + (byte c - 48) = int (10 * x + (of_char c - 48))"
      by (simp add: byte_nat of_nat_diff)
    with Cons.IH [of "10 * x + (of_char c - 48)"] Cons.prems show ?case by (simp del: of_nat_add of_nat_mult)
  qed simp
  from this [of 0] show "list_all is_digit s \<Longrightarrow> ?thesis"
    by (simp add: digits_value_def value_of_digits_def)
qed

lemma is_digit_show_nat: "list_all is_digit (show_nat n)"
proof -
  have "48 \<le> byte c \<and> byte c \<le> 57" if "c \<in> set (show_nat n)" for c
  proof -
    show ?thesis using show_nat_chars [OF that] by (simp add: byte_nat)
  qed
  then show ?thesis by (auto simp: list_all_iff is_digit_def cont_def)
qed

lemma show_nat_nonempty [simp]: "show_nat n \<noteq> []"
  using is_digits_show_nat [of n] by (simp add: is_digits_def)

lemma hd_show_nat: "0 < n \<Longrightarrow> hd (show_nat n) \<noteq> CHR ''0''"
proof (induction n rule: less_induct)
  case (less n)
  show ?case
  proof (cases "n < 10")
    case True
    have "digit n \<noteq> CHR ''0''" using digit_value [OF True] less.prems by auto
    with True show ?thesis by (simp add: show_nat.simps [of n])
  next
    case False
    then have "show_nat n = show_nat (n div 10) @ [digit (n mod 10)]" by (simp add: show_nat.simps [of n])
    with less.IH [of "n div 10"] False show ?thesis by simp
  qed
qed

lemma scan_int_part_show:
  assumes "ends_number r"
  shows "scan_int_part (show_nat n @ r) = Some (int n, r)"
proof (cases "n = 0")
  case True
  have "show_nat 0 = ''0''" by code_simp
  with True show ?thesis by (simp add: scan_int_part_def)
next
  case False
  obtain c cs where s: "show_nat n = c # cs" by (cases "show_nat n") simp_all
  have d: "list_all is_digit (c # cs)" using is_digit_show_nat [of n] by (simp add: s)
  have r: "takeWhile is_digit r = []" "dropWhile is_digit r = r"
    using assms by (cases r; simp add: ends_number_def)+
  have "takeWhile is_digit (c # cs @ r) = c # cs" "dropWhile is_digit (c # cs @ r) = r"
    using d r by (simp_all add: list_all_iff takeWhile_append dropWhile_append)
  moreover have "digits_value (c # cs) = int n" using digits_value_eq [OF d] by (simp flip: s)
  moreover have "c \<noteq> CHR ''0''" using hd_show_nat [of n] False by (simp add: s)
  ultimately show ?thesis using d by (simp add: scan_int_part_def s)
qed

lemma scan_number_show:
  assumes "ends_number r"
  shows "scan_number (show_int n @ r) = Some (JInt n, r)"
proof -
  have fe: "scan_fraction r = Some (None, r)" "scan_exponent r = Some (None, r)"
    using assms by (cases r; simp add: ends_number_def scan_fraction_def scan_exponent_def)+
  show ?thesis
  proof (cases "n < 0")
    case True
    then show ?thesis
      using scan_int_part_show [OF assms, of "nat (- n)"] fe by (simp add: scan_number_def show_int_def)
  next
    case False
    obtain c cs where s: "show_nat (nat n) = c # cs" by (cases "show_nat (nat n)") simp_all
    have "is_digit c" using is_digit_show_nat [of "nat n"] by (simp add: s)
    then have "c \<noteq> CHR ''-''" by (auto simp: is_digit_def cont_def byte_def)
    then show ?thesis
      using False scan_int_part_show [OF assms, of "nat n"] fe by (simp add: scan_number_def show_int_def s)
  qed
qed



section \<open>Values are read back\<close>

text \<open>What survives: strings as the encoder leaves them, no fractions, and brackets that are
  not nested deeper than the decoder allows.\<close>

fun readable :: "int \<Rightarrow> json \<Rightarrow> bool" where
  "readable k (JFrac x) = False"
| "readable k (JStr s) = (to_utf8 s = s)"
| "readable k (JArr vs) = (k < 10000 \<and> list_all (readable (k + 1)) vs)"
| "readable k (JObj ms) = (k < 10000 \<and> list_all (\<lambda>(key, v). to_utf8 key = key \<and> readable (k + 1) v) ms)"
| "readable k j = True"

lemma skip_id: "s \<noteq> [] \<Longrightarrow> \<not> is_space (hd s) \<Longrightarrow> skip s = s"
  by (cases s) (auto simp: skip_def is_space_def)

text \<open>The first character of a value decides what is read.\<close>

lemma print_json_hd:
  assumes "readable k j"
  shows "\<exists>c t. print_json ft j = c # t \<and> c \<noteq> CHR '']'' \<and> \<not> is_space c"
proof (cases j)
  case (JInt n)
  have "list_all is_digit (show_nat (nat n))" by (rule is_digit_show_nat)
  then have "is_digit (hd (show_nat (nat n)))" by (cases "show_nat (nat n)") simp_all
  then have "hd (show_nat (nat n)) \<noteq> CHR '']'' \<and> \<not> is_space (hd (show_nat (nat n)))"
    by (auto simp: is_digit_def cont_def byte_def is_space_def)
  then show ?thesis by (cases "show_nat (nat n)") (auto simp: JInt show_int_def is_space_def)
qed (use assms in \<open>auto simp: print_string_def is_space_def\<close>)

lemma scan_word_append [simp]: "scan_word w j (w @ r) = Some (j, r)"
  by (simp add: scan_word_def)

text \<open>An integer starts with a digit or a minus sign.\<close>

lemma show_int_hd: "\<exists>c t. show_int n = c # t \<and> (is_digit c \<or> c = CHR ''-'')"
proof -
  obtain c t where s: "show_nat (nat n) = c # t" by (cases "show_nat (nat n)") simp_all
  moreover have "is_digit c" using is_digit_show_nat [of "nat n"] by (simp add: s)
  ultimately show ?thesis by (auto simp: show_int_def)
qed

lemma scan_value_int:
  assumes "ends_number r"
  shows "scan_value (Suc n) k (show_int i @ r) = Some (JInt i, r)"
proof -
  obtain c t where s: "show_int i = c # t" "is_digit c \<or> c = CHR ''-''" using show_int_hd by blast
  then have "c \<notin> {CHR 0x22, CHR ''{'', CHR ''['', CHR ''n'', CHR ''t'', CHR ''f''}" "\<not> is_space c"
    by (auto simp: is_digit_def cont_def byte_def is_space_def)
  moreover from this have "skip (c # t @ r) = c # t @ r" by (intro skip_id) simp_all
  ultimately show ?thesis using scan_number_show [OF assms, of i] by (simp add: s(1))
qed

lemma ends_number_simps [simp]:
  "ends_number (CHR '','' # r)" "ends_number (CHR '']'' # r)" "ends_number (CHR ''}'' # r)" "ends_number []"
  by (simp_all add: ends_number_def is_digit_def cont_def byte_def)

lemma skip_simps [simp]:
  "skip (CHR 0x22 # s) = CHR 0x22 # s" "skip (CHR '','' # s) = CHR '','' # s" "skip (CHR '']'' # s) = CHR '']'' # s"
  "skip (CHR ''}'' # s) = CHR ''}'' # s" "skip (CHR '':'' # s) = CHR '':'' # s" "skip (CHR ''{'' # s) = CHR ''{'' # s"
  "skip (CHR ''['' # s) = CHR ''['' # s" "skip (CHR ''n'' # s) = CHR ''n'' # s" "skip (CHR ''t'' # s) = CHR ''t'' # s"
  "skip (CHR ''f'' # s) = CHR ''f'' # s"
  by (simp_all add: skip_def)

lemma scan_printed:
  "readable k j \<Longrightarrow> ends_number r \<Longrightarrow> 2 * length (print_json ft j @ r) < n \<Longrightarrow>
     scan_value n k (print_json ft j @ r) = Some (j, r)"
  "vs \<noteq> [] \<Longrightarrow> list_all (readable k) vs \<Longrightarrow> 2 * length (print_elements ft vs @ CHR '']'' # r) + 1 < n \<Longrightarrow>
     scan_elements n k (print_elements ft vs @ CHR '']'' # r) = Some (vs, r)"
  "ms \<noteq> [] \<Longrightarrow> list_all (\<lambda>(key, v). to_utf8 key = key \<and> readable k v) ms \<Longrightarrow>
     2 * length (print_members ft ms @ CHR ''}'' # r) < n \<Longrightarrow>
     scan_members n k (print_members ft ms @ CHR ''}'' # r) = Some (ms, r)"
proof (induction ft j and ft vs and ft ms arbitrary: n k r and n k r and n k r
    rule: print_json_print_elements_print_members.induct)
  case (1 ft)
  then obtain m where "n = Suc m" by (cases n) auto
  then show ?case using scan_word_append [of "''null''" JNull r] by simp
next
  case (2 ft b)
  then obtain m where "n = Suc m" by (cases n) auto
  then show ?case
    using scan_word_append [of "''true''" "JBool True" r] scan_word_append [of "''false''" "JBool False" r] by auto
next
  case (3 ft i)
  then obtain m where "n = Suc m" by (cases n) auto
  then show ?case using scan_value_int [of r m k i] 3 by simp
next
  case (5 ft s)
  then obtain m where "n = Suc m" by (cases n) auto
  then show ?case using 5 scan_text_quote [of s r] by (simp add: print_string_def)
next
  case (6 ft vs)
  then obtain m where n: "n = Suc m" by (cases n) auto
  show ?case
  proof (cases "vs = []")
    case True
    then show ?thesis using 6 by (simp add: n)
  next
    case False
    then obtain v ws where vs: "vs = v # ws" by (cases vs) simp_all
    then have "readable (k + 1) v" using 6 by simp
    from print_json_hd [OF this] obtain c t where c: "print_json ft v = c # t" "c \<noteq> CHR '']''" "\<not> is_space c" by blast
    then obtain u where u: "print_elements ft vs @ CHR '']'' # r = c # u" by (simp add: vs)
    then have "skip (c # u) = c # u" using c(3) by (intro skip_id) simp_all
    moreover have "scan_elements m (k + 1) (print_elements ft vs @ CHR '']'' # r) = Some (vs, r)"
      using 6 n False by (intro "6.IH") simp_all
    ultimately show ?thesis using 6(2) u c(2) n by simp
  qed
next
  case (7 ft ms)
  then obtain m where n: "n = Suc m" by (cases n) auto
  show ?case
  proof (cases "ms = []")
    case True
    then show ?thesis using 7 by (simp add: n)
  next
    case False
    then obtain key v ws where ms: "ms = (key, v) # ws" by (cases ms) auto
    then obtain u where u: "print_members ft ms @ CHR ''}'' # r = CHR 0x22 # u" by (simp add: print_string_def)
    moreover have "scan_members m (k + 1) (print_members ft ms @ CHR ''}'' # r) = Some (ms, r)"
      using 7 n False by (intro "7.IH") simp_all
    ultimately show ?thesis using 7(2) n by simp
  qed
next
  case (9 ft v vs)
  then obtain m where n: "n = Suc m" by (cases n) auto
  show ?case
  proof (cases "vs = []")
    case True
    have "scan_value m k (print_json ft v @ CHR '']'' # r) = Some (v, CHR '']'' # r)"
      using 9 n True by (intro "9.IH") simp_all
    then show ?thesis using True by (simp add: n)
  next
    case False
    let ?rest = "print_elements ft vs @ CHR '']'' # r"
    have "scan_value m k (print_json ft v @ CHR '','' # ?rest) = Some (v, CHR '','' # ?rest)"
      using 9 n False by (intro "9.IH"(1)) simp_all
    moreover have "scan_elements m k ?rest = Some (vs, r)"
      using 9 n False by (intro "9.IH"(2)) simp_all
    ultimately show ?thesis using False by (simp add: n)
  qed
next
  case (11 ft key v ms)
  then obtain m where n: "n = Suc m" by (cases n) auto
  have key: "scan_text (quote_bytes key @ CHR 0x22 # s) = Some (key, s)" for s
    using 11 scan_text_quote by simp
  show ?case
  proof (cases "ms = []")
    case True
    have "scan_value m k (print_json ft v @ CHR ''}'' # r) = Some (v, CHR ''}'' # r)"
      using 11 n True by (intro "11.IH") (simp_all add: print_string_def)
    then show ?thesis using True key by (simp add: n print_string_def)
  next
    case False
    let ?rest = "print_members ft ms @ CHR ''}'' # r"
    have "scan_value m k (print_json ft v @ CHR '','' # ?rest) = Some (v, CHR '','' # ?rest)"
      using 11 n False by (intro "11.IH"(1)) (simp_all add: print_string_def)
    moreover have "scan_members m k ?rest = Some (ms, r)"
      using 11 n False by (intro "11.IH"(2)) (simp_all add: print_string_def)
    ultimately show ?thesis using False key by (simp add: n print_string_def)
  qed
qed simp_all

lemma first_value_print:
  assumes "readable 0 j" and "ends_number r"
  shows "first_value (print_json ft j @ r) = Some j"
  using scan_printed(1) [OF assms, of ft "2 * length (print_json ft j @ r) + 2"] by (simp add: first_value_def)

end
