(* ===== verification/Client.thy ===== *)
theory Client
  imports Json_Print "HOL-Library.Char_ord" "HOL-Library.List_Lexorder"
begin

text \<open>
  The provider's side of the HTTP interface (\<open>pkg/api/client.go\<close>): the requests it sends as
  JSON text and what it makes of the answers. \<open>net/http\<close> is a parameter: it refuses a URL, or
  carries a message within the time limit of the client over a network whose state it
  changes, and returns an error or a status with the text of the body.
\<close>

record client =
  cl_baseURL :: string
  cl_token :: string
  cl_providerID :: string
  cl_timeout :: int

record http_message =
  hm_method :: string
  hm_url :: string
  hm_contentType :: string
  hm_authorization :: string
  hm_body :: string

record 'n http_lib =
  bad_url :: "string \<Rightarrow> go_error option"
  Do :: "int \<Rightarrow> http_message \<Rightarrow> 'n \<Rightarrow> (int \<times> string) result \<times> 'n"
  client_runtime :: go_runtime
  float_text :: "rat \<Rightarrow> string"

definition NewClient :: "string \<Rightarrow> string \<Rightarrow> client" where
  "NewClient baseURL token = \<lparr>cl_baseURL = baseURL, cl_token = token, cl_providerID = [],
     cl_timeout = 15 * 1000000000\<rparr>"

definition SetProviderID :: "string \<Rightarrow> client \<Rightarrow> client" where
  "SetProviderID i c = c\<lparr>cl_providerID := i\<rparr>"

definition ProviderID :: "client \<Rightarrow> string" where
  "ProviderID c = cl_providerID c"


section \<open>Messages\<close>

record resource_body =
  ci_CPUCores :: int
  ci_MemoryMB :: int
  ci_DiskGB :: int

record register_message =
  cr_Token :: string
  cr_PublicKey :: string
  cr_Resources :: resource_body
  cr_Location :: string
  cr_Mode :: string
  cr_Meta :: "(string \<times> string) list"

record register_answer =
  ca_ProviderID :: string
  ca_WGConfig :: string
  ca_TunnelPort :: int
  ca_WGIP :: string

record heartbeat_message =
  ch_ProviderID :: string
  ch_ActiveVMs :: int
  ch_CPULoad :: rat
  ch_MemFreeMB :: int

record deploy_job =
  dj_JobID :: string
  dj_ImageURL :: string
  dj_CPUCores :: int
  dj_MemoryMB :: int
  dj_DiskGB :: int
  dj_SSHPubKey :: string
  dj_Env :: "(string \<times> string) list option"

record vm_report =
  vr_JobID :: string
  vr_ProviderID :: string
  vr_VMIP :: string
  vr_Port :: int
  vr_Status :: string
  vr_Error :: string

text \<open>Structs are printed in the order of their fields, maps by their sorted keys; an empty field
  that is marked \<open>omitempty\<close> is left out.\<close>

definition string_map_json :: "(string \<times> string) list \<Rightarrow> json" where
  "string_map_json es = JObj (map (\<lambda>(k, v). (to_utf8 k, jstr v)) (sort_key fst es))"

definition register_message_json :: "register_message \<Rightarrow> json" where
  "register_message_json r = JObj ([(''token'', jstr (cr_Token r)), (''wg_pubkey'', jstr (cr_PublicKey r)),
     (''resources'', JObj [(''cpu_cores'', JInt (ci_CPUCores (cr_Resources r))),
        (''memory_mb'', JInt (ci_MemoryMB (cr_Resources r))), (''disk_gb'', JInt (ci_DiskGB (cr_Resources r)))]),
     (''location'', jstr (cr_Location r)), (''mode'', jstr (cr_Mode r))] @
     (if cr_Meta r = [] then [] else [(''meta'', string_map_json (cr_Meta r))]))"

definition heartbeat_message_json :: "heartbeat_message \<Rightarrow> json" where
  "heartbeat_message_json h = JObj [(''provider_id'', jstr (ch_ProviderID h)), (''active_vms'', JInt (ch_ActiveVMs h)),
     (''cpu_load'', JFrac (ch_CPULoad h)), (''mem_free_mb'', JInt (ch_MemFreeMB h))]"

definition vm_report_json :: "vm_report \<Rightarrow> json" where
  "vm_report_json r = JObj ([(''job_id'', jstr (vr_JobID r)), (''provider_id'', jstr (vr_ProviderID r)),
     (''vm_ip'', jstr (vr_VMIP r)), (''port'', JInt (vr_Port r)), (''status'', jstr (vr_Status r))] @
     (if vr_Error r = [] then [] else [(''error'', jstr (vr_Error r))]))"

definition register_answer_fields :: "(string \<times> register_answer setter) list" where
  "register_answer_fields = [(''provider_id'', str_field ca_ProviderID_update),
     (''wg_config'', str_field ca_WGConfig_update), (''tunnel_port'', int_field ca_TunnelPort_update),
     (''wg_ip'', str_field ca_WGIP_update)]"

definition empty_answer :: register_answer where
  "empty_answer = \<lparr>ca_ProviderID = [], ca_WGConfig = [], ca_TunnelPort = 0, ca_WGIP = []\<rparr>"

definition deploy_job_fields :: "(string \<times> deploy_job setter) list" where
  "deploy_job_fields = [(''job_id'', str_field dj_JobID_update), (''image_url'', str_field dj_ImageURL_update),
     (''cpu_cores'', int_field dj_CPUCores_update), (''memory_mb'', int_field dj_MemoryMB_update),
     (''disk_gb'', int_field dj_DiskGB_update), (''ssh_pubkey'', str_field dj_SSHPubKey_update),
     (''env'', map_field dj_Env_update dj_Env)]"

definition empty_job :: deploy_job where
  "empty_job = \<lparr>dj_JobID = [], dj_ImageURL = [], dj_CPUCores = 0, dj_MemoryMB = 0, dj_DiskGB = 0,
     dj_SSHPubKey = [], dj_Env = None\<rparr>"


section \<open>Requests\<close>

definition decode_body :: "go_runtime \<Rightarrow> (string \<times> 'a setter) list \<Rightarrow> 'a \<Rightarrow> string \<Rightarrow> 'a result" where
  "decode_body rt specs zero body =
     (case (case first_value body of None \<Rightarrow> None | Some j \<Rightarrow> into_struct specs j zero) of
        None \<Rightarrow> Inl (Plain (decode_msg rt body)) | Some a \<Rightarrow> Inr a)"

definition setHeaders :: "client \<Rightarrow> http_message \<Rightarrow> http_message" where
  "setHeaders c m = m\<lparr>hm_contentType := ''application/json'', hm_authorization := ''Bearer '' @ cl_token c\<rparr>"

definition new_request :: "string \<Rightarrow> string \<Rightarrow> string \<Rightarrow> http_message" where
  "new_request meth url body = \<lparr>hm_method = meth, hm_url = url, hm_contentType = [], hm_authorization = [], hm_body = body\<rparr>"

text \<open>\<open>post\<close> up to the decoding, which is up to the caller: the text of an accepted answer.\<close>

definition post :: "'n http_lib \<Rightarrow> client \<Rightarrow> string \<Rightarrow> json \<Rightarrow> 'n \<Rightarrow> string result \<times> 'n" where
  "post L c path body N =
     (let url = cl_baseURL c @ path in
      case bad_url L url of
        Some e \<Rightarrow> (Inl e, N)
      | None \<Rightarrow>
          (case Do L (cl_timeout c) (setHeaders c (new_request ''POST'' url (print_json (float_text L) body))) N of
             (Inl e, N1) \<Rightarrow> (Inl e, N1)
           | (Inr (code, text), N1) \<Rightarrow>
               if code \<ge> 400 then (Inl (Plain (''HTTP '' @ show_int code @ '' from '' @ path)), N1)
               else (Inr text, N1)))"

definition Register_call :: "'n http_lib \<Rightarrow> client \<Rightarrow> register_message \<Rightarrow> 'n \<Rightarrow> register_answer result \<times> 'n" where
  "Register_call L c req N =
     (case post L c ''/api/v1/providers/register'' (register_message_json req) N of
        (Inl e, N1) \<Rightarrow> (Inl (Errorf ''register: '' e []), N1)
      | (Inr text, N1) \<Rightarrow>
          (case decode_body (client_runtime L) register_answer_fields empty_answer text of
             Inl e \<Rightarrow> (Inl (Errorf ''register: '' e []), N1)
           | Inr a \<Rightarrow> (Inr a, N1)))"

definition Heartbeat_call :: "'n http_lib \<Rightarrow> client \<Rightarrow> heartbeat_message \<Rightarrow> 'n \<Rightarrow> go_error option \<times> 'n" where
  "Heartbeat_call L c req N =
     (case post L c ''/api/v1/providers/heartbeat'' (heartbeat_message_json req) N of
        (Inl e, N1) \<Rightarrow> (Some e, N1) | (Inr _, N1) \<Rightarrow> (None, N1))"

definition ReportVM :: "'n http_lib \<Rightarrow> client \<Rightarrow> vm_report \<Rightarrow> 'n \<Rightarrow> go_error option \<times> 'n" where
  "ReportVM L c r N =
     (case post L c ''/api/v1/vms/report'' (vm_report_json r) N of
        (Inl e, N1) \<Rightarrow> (Some e, N1) | (Inr _, N1) \<Rightarrow> (None, N1))"

definition PollJobs :: "'n http_lib \<Rightarrow> client \<Rightarrow> 'n \<Rightarrow> deploy_job option result \<times> 'n" where
  "PollJobs L c N =
     (let url = cl_baseURL c @ ''/api/v1/providers/'' @ cl_providerID c @ ''/jobs?wait=25'' in
      case bad_url L url of
        Some e \<Rightarrow> (Inl e, N)
      | None \<Rightarrow>
          (case Do L (cl_timeout c) (setHeaders c (new_request ''GET'' url [])) N of
             (Inl e, N1) \<Rightarrow> (Inl e, N1)
           | (Inr (code, text), N1) \<Rightarrow>
               if code = 204 then (Inr None, N1)
               else if code \<noteq> 200 then (Inl (Plain (''poll jobs: HTTP '' @ show_int code)), N1)
               else (case decode_body (client_runtime L) deploy_job_fields empty_job text of
                   Inl e \<Rightarrow> (Inl e, N1) | Inr job \<Rightarrow> (Inr (Some job), N1))))"


section \<open>What is sent can be read\<close>

lemma jstr_readable [simp]: "readable k (jstr s)"
  by (simp add: jstr_def)

lemma literal_keys [simp]:
  "to_utf8 ''token'' = ''token''" "to_utf8 ''wg_pubkey'' = ''wg_pubkey''" "to_utf8 ''resources'' = ''resources''"
  "to_utf8 ''cpu_cores'' = ''cpu_cores''" "to_utf8 ''memory_mb'' = ''memory_mb''" "to_utf8 ''disk_gb'' = ''disk_gb''"
  "to_utf8 ''location'' = ''location''" "to_utf8 ''mode'' = ''mode''" "to_utf8 ''meta'' = ''meta''"
  "to_utf8 ''job_id'' = ''job_id''" "to_utf8 ''provider_id'' = ''provider_id''" "to_utf8 ''vm_ip'' = ''vm_ip''"
  "to_utf8 ''port'' = ''port''" "to_utf8 ''status'' = ''status''" "to_utf8 ''error'' = ''error''"
  "to_utf8 ''wg_config'' = ''wg_config''" "to_utf8 ''tunnel_port'' = ''tunnel_port''" "to_utf8 ''wg_ip'' = ''wg_ip''"
  "to_utf8 ''image_url'' = ''image_url''" "to_utf8 ''ssh_pubkey'' = ''ssh_pubkey''" "to_utf8 ''env'' = ''env''"
  by code_simp+

lemma string_map_readable: "k < 10000 \<Longrightarrow> readable k (string_map_json es)"
  by (auto simp: string_map_json_def list_all_iff)

lemma register_message_readable: "readable 0 (register_message_json r)"
  by (simp add: register_message_json_def string_map_readable)

lemma vm_report_readable: "readable 0 (vm_report_json r)"
  by (simp add: vm_report_json_def)

end
