(* ===== verification/End_To_End.thy ===== *)
theory End_To_End
  imports System Client
begin

text \<open>
  Provider and control plane put together: the client's messages reach \<open>Serve\<close> as text, the
  answers come back as text. What the one prints the other reads, so a call of the client is
  the operation of the control plane it stands for.
\<close>


section \<open>The wire\<close>

fun payload_text :: "(rat \<Rightarrow> string) \<Rightarrow> payload \<Rightarrow> string" where
  "payload_text ft No_Body = []"
| "payload_text ft (Json j) = print_json ft j @ [CHR 0x0A]"
| "payload_text ft (Text t) = t"

definition url_path :: "string \<Rightarrow> string \<Rightarrow> string list" where
  "url_path base url = tl (split_on (CHR ''/'') (takeWhile (\<lambda>c. c \<noteq> CHR ''?'') (drop (length base) url)))"

definition to_request :: "string \<Rightarrow> http_message \<Rightarrow> http_request" where
  "to_request base m = \<lparr>rq_method = hm_method m, rq_path = url_path base (hm_url m),
     rq_auth = hm_authorization m, rq_body = hm_body m\<rparr>"

definition timed_out :: go_error where
  "timed_out = NetErr ''context deadline exceeded''"

text \<open>The server takes \<open>took\<close> nanoseconds; the client does not wait longer than its limit, but
  what the server does is done. Once the client has given up, the context of the request is cancelled and most
  store requests fail: that is one of the outcomes a store request has in any case. The base
  is the URL at which this control plane answers, so that it parses.\<close>

definition exchange :: "('k, 's, 'c) api \<Rightarrow> inputs \<Rightarrow> int \<Rightarrow> string \<Rightarrow> (rat \<Rightarrow> string) \<Rightarrow> int \<Rightarrow> http_message \<Rightarrow>
    'r control \<Rightarrow> (int \<times> string) result \<times> 'r control" where
  "exchange A i took base ft timeout m C =
     (let (resp, C') = Serve A i (to_request base m) C
      in (if took \<ge> timeout then Inl timed_out
          else Inr (status resp, payload_text ft (payload resp)), C'))"

definition wired :: "('k, 's, 'c) api \<Rightarrow> inputs \<Rightarrow> int \<Rightarrow> string \<Rightarrow> (rat \<Rightarrow> string) \<Rightarrow> go_runtime \<Rightarrow> 'r control http_lib" where
  "wired A i took base ft rt =
     \<lparr>bad_url = (\<lambda>u. None), Do = exchange A i took base ft, client_runtime = rt, float_text = ft\<rparr>"


section \<open>Reading back\<close>

lemma to_utf8_ascii_id: "list_all (\<lambda>c. byte c < 128) s \<Longrightarrow> to_utf8 s = s"
  by (induction s) (simp_all add: to_utf8_ascii)

lemma ends_number_newline [simp]: "ends_number [CHR 0x0A]"
  by (simp add: ends_number_def is_digit_def cont_def byte_def)

lemma decode_printed:
  "readable 0 j \<Longrightarrow> into_struct specs j zero = Some a \<Longrightarrow> decode rt specs zero (print_json ft j) = Inr a"
  using first_value_print [of j "[]" ft] by (simp add: decode_def)

lemma decode_body_printed:
  "readable 0 j \<Longrightarrow> into_struct specs j zero = Some a \<Longrightarrow>
     decode_body rt specs zero (print_json ft j @ [CHR 0x0A]) = Inr a"
  using first_value_print [of j "[CHR 0x0A]" ft] by (simp add: decode_body_def)

lemma fold_names [simp]:
  "fold_name ''token'' = ''token''" "fold_name ''wg_pubkey'' = ''wg_pubkey''" "fold_name ''resources'' = ''resources''"
  "fold_name ''cpu_cores'' = ''cpu_cores''" "fold_name ''memory_mb'' = ''memory_mb''" "fold_name ''disk_gb'' = ''disk_gb''"
  "fold_name ''location'' = ''location''" "fold_name ''mode'' = ''mode''" "fold_name ''meta'' = ''meta''"
  "fold_name ''job_id'' = ''job_id''" "fold_name ''provider_id'' = ''provider_id''" "fold_name ''vm_ip'' = ''vm_ip''"
  "fold_name ''port'' = ''port''" "fold_name ''status'' = ''status''" "fold_name ''error'' = ''error''"
  "fold_name ''wg_config'' = ''wg_config''" "fold_name ''tunnel_port'' = ''tunnel_port''" "fold_name ''wg_ip'' = ''wg_ip''"
  "fold_name ''image_url'' = ''image_url''" "fold_name ''ssh_pubkey'' = ''ssh_pubkey''" "fold_name ''env'' = ''env''"
  by code_simp+

declare fold_name.simps [simp del] to_utf8.simps [simp del] to_utf8.simps(1) [simp]

abbreviation int64 :: "int \<Rightarrow> bool" where
  "int64 n \<equiv> - (2 ^ 63) \<le> n \<and> n < 2 ^ 63"

text \<open>A map with distinct keys arrives entry by entry.\<close>

lemma put_entries_append:
  "distinct (map fst xs) \<Longrightarrow> set (map fst xs) \<inter> set (map fst es) = {} \<Longrightarrow>
     put_entries (map (\<lambda>(k, v). (k, JStr v)) xs) es = Some (es @ xs)"
proof (induction xs arbitrary: es)
  case (Cons x xs)
  obtain k v where x: "x = (k, v)" by (cases x)
  have "filter (\<lambda>e. fst e \<noteq> k) es = es" using Cons.prems x by (auto intro!: filter_True)
  with Cons.IH [of "es @ [(k, v)]"] Cons.prems x show ?case by auto
qed simp

definition sent_map :: "(string \<times> string) list \<Rightarrow> (string \<times> string) list" where
  "sent_map es = map (\<lambda>(k, v). (to_utf8 k, to_utf8 v)) (sort_key fst es)"

definition clean_keys :: "(string \<times> string) list \<Rightarrow> bool" where
  "clean_keys es \<longleftrightarrow> distinct (map (\<lambda>e. to_utf8 (fst e)) es)"

lemma sent_map_distinct: "clean_keys es \<Longrightarrow> distinct (map fst (sent_map es))"
proof -
  assume c: "clean_keys es"
  have "mset (map (\<lambda>e. to_utf8 (fst e)) (sort_key fst es)) = mset (map (\<lambda>e. to_utf8 (fst e)) es)"
    by simp
  with c have "distinct (map (\<lambda>e. to_utf8 (fst e)) (sort_key fst es))"
    unfolding clean_keys_def using mset_eq_imp_distinct_iff by blast
  then show ?thesis by (simp add: sent_map_def comp_def split_def)
qed

lemma put_sent_map: "clean_keys es \<Longrightarrow>
    put_entries (map (\<lambda>(k, v). (to_utf8 k, jstr v)) (sort_key fst es)) [] = Some (sent_map es)"
proof -
  assume "clean_keys es"
  moreover have "map (\<lambda>(k, v). (to_utf8 k, jstr v)) (sort_key fst es) = map (\<lambda>(k, v). (k, JStr v)) (sent_map es)"
    by (simp add: sent_map_def jstr_def split_def comp_def)
  ultimately show ?thesis using put_entries_append [of "sent_map es" "[]"] sent_map_distinct by simp
qed

lemma sent_map_lookup: "clean_keys es \<Longrightarrow> (k, v) \<in> set es \<Longrightarrow> map_of (sent_map es) (to_utf8 k) = Some (to_utf8 v)"
proof -
  assume "clean_keys es" "(k, v) \<in> set es"
  then have "(to_utf8 k, to_utf8 v) \<in> set (sent_map es)" by (force simp: sent_map_def)
  with sent_map_distinct [OF \<open>clean_keys es\<close>] show ?thesis by (simp add: map_of_eq_Some_iff)
qed

text \<open>The three bodies as the server reads them.\<close>

definition body_of_register :: "register_message \<Rightarrow> register_body" where
  "body_of_register r = \<lparr>rb_token = to_utf8 (cr_Token r), rb_wg_pubkey = to_utf8 (cr_PublicKey r),
     rb_location = to_utf8 (cr_Location r), rb_mode = to_utf8 (cr_Mode r),
     rb_resources = \<lparr>rb_cpu_cores = ci_CPUCores (cr_Resources r), rb_memory_mb = ci_MemoryMB (cr_Resources r),
       rb_disk_gb = ci_DiskGB (cr_Resources r)\<rparr>,
     rb_meta = (if cr_Meta r = [] then None else Some (sent_map (cr_Meta r)))\<rparr>"

lemma register_is_read:
  assumes "int64 (ci_CPUCores (cr_Resources r))" and "int64 (ci_MemoryMB (cr_Resources r))"
    and "int64 (ci_DiskGB (cr_Resources r))" and "clean_keys (cr_Meta r)"
  shows "decode rt register_fields empty_register (print_json ft (register_message_json r)) = Inr (body_of_register r)"
proof (rule decode_printed [OF register_message_readable])
  show "into_struct register_fields (register_message_json r) empty_register = Some (body_of_register r)"
    using assms put_sent_map [OF assms(4)]
    by (simp add: into_struct_def register_message_json_def register_fields_def empty_register_def body_of_register_def
        str_field_def int_field_def struct_field_def map_field_def jstr_def string_map_json_def)
qed

definition body_of_report :: "vm_report \<Rightarrow> report_body" where
  "body_of_report r = \<lparr>vb_job_id = to_utf8 (vr_JobID r), vb_provider_id = to_utf8 (vr_ProviderID r),
     vb_vm_ip = to_utf8 (vr_VMIP r), vb_port = vr_Port r, vb_status = to_utf8 (vr_Status r),
     vb_error = to_utf8 (vr_Error r)\<rparr>"

lemma report_is_read:
  assumes "int64 (vr_Port r)"
  shows "decode rt report_fields empty_report (print_json ft (vm_report_json r)) = Inr (body_of_report r)"
proof (rule decode_printed [OF vm_report_readable])
  show "into_struct report_fields (vm_report_json r) empty_report = Some (body_of_report r)"
    using assms
    by (simp add: into_struct_def vm_report_json_def report_fields_def empty_report_def body_of_report_def
        str_field_def int_field_def jstr_def)
qed

text \<open>And the answers as the client reads them.\<close>

lemma register_answer_is_read:
  assumes "int64 (rs_TunnelPort r)"
  shows "decode_body rt register_answer_fields empty_answer (print_json ft (register_json r) @ [CHR 0x0A]) =
    Inr \<lparr>ca_ProviderID = to_utf8 (rs_ProviderID r), ca_WGConfig = to_utf8 (rs_WGConfig r),
      ca_TunnelPort = rs_TunnelPort r, ca_WGIP = to_utf8 (rs_WGIP r)\<rparr>"
proof (rule decode_body_printed)
  show "readable 0 (register_json r)" by (simp add: register_json_def)
  show "into_struct register_answer_fields (register_json r) empty_answer =
      Some \<lparr>ca_ProviderID = to_utf8 (rs_ProviderID r), ca_WGConfig = to_utf8 (rs_WGConfig r),
        ca_TunnelPort = rs_TunnelPort r, ca_WGIP = to_utf8 (rs_WGIP r)\<rparr>"
    using assms
    by (simp add: into_struct_def register_json_def register_answer_fields_def empty_answer_def
        str_field_def int_field_def jstr_def)
qed

definition job_sent :: "job \<Rightarrow> deploy_job" where
  "job_sent j = \<lparr>dj_JobID = to_utf8 (j_id j), dj_ImageURL = to_utf8 (j_image_url j), dj_CPUCores = j_cpu_cores j,
     dj_MemoryMB = j_memory_mb j, dj_DiskGB = j_disk_gb j, dj_SSHPubKey = to_utf8 (j_ssh_pubkey j),
     dj_Env = map_option sent_map (j_env j)\<rparr>"

definition sendable :: "job \<Rightarrow> bool" where
  "sendable j \<longleftrightarrow> int64 (j_cpu_cores j) \<and> int64 (j_memory_mb j) \<and> int64 (j_disk_gb j) \<and>
     (case j_env j of None \<Rightarrow> True | Some es \<Rightarrow> clean_keys es)"

lemma job_is_read:
  assumes "sendable j"
  shows "decode_body rt deploy_job_fields empty_job (print_json ft (job_json j) @ [CHR 0x0A]) = Inr (job_sent j)"
proof (rule decode_body_printed)
  show "readable 0 (job_json j)"
    by (auto simp: job_json_def env_json_def list_all_iff split: option.splits)
  show "into_struct deploy_job_fields (job_json j) empty_job = Some (job_sent j)"
    using assms put_sent_map
    by (auto simp: sendable_def into_struct_def job_json_def env_json_def deploy_job_fields_def empty_job_def job_sent_def
        str_field_def int_field_def map_field_def jstr_def split: option.splits)
qed

section \<open>Routes\<close>

definition limit :: int where
  "limit = 15 * 1000000000"

text \<open>A segment of a path that needs no escaping and that the mux does not clean away: visible ASCII
  characters, none of them special in a URL, and neither \<open>.\<close> nor \<open>..\<close>. The ids that the control plane gives
  are UUIDs.\<close>

definition plain_segment :: "string \<Rightarrow> bool" where
  "plain_segment s \<longleftrightarrow> s \<noteq> [] \<and> s \<noteq> ''.'' \<and> s \<noteq> ''..'' \<and>
     list_all (\<lambda>c. 32 < (of_char c :: nat) \<and> (of_char c :: nat) < 127 \<and>
       c \<notin> {CHR ''/'', CHR ''?'', CHR ''%'', CHR ''#''}) s"

lemma url_path_base: "url_path base (base @ p) = tl (split_on (CHR ''/'') (takeWhile (\<lambda>c. c \<noteq> CHR ''?'') p))"
  by (simp add: url_path_def)

lemma route_register: "url_path base (base @ ''/api/v1/providers/register'') = v1 [''providers'', ''register'']"
  and route_report: "url_path base (base @ ''/api/v1/vms/report'') = v1 [''vms'', ''report'']"
  unfolding url_path_base v1_def by code_simp+

lemma route_jobs:
  assumes "plain_segment pid"
  shows "url_path base (base @ ''/api/v1/providers/'' @ pid @ ''/jobs?wait=25'') = v1 [''providers'', pid, ''jobs'']"
proof -
  have p: "CHR ''/'' \<notin> set pid" "\<forall>c \<in> set pid. c \<noteq> CHR ''?''" using assms by (auto simp: plain_segment_def list_all_iff)
  have "takeWhile (\<lambda>c. c \<noteq> CHR ''?'') (''/api/v1/providers/'' @ pid @ ''/jobs?wait=25'') =
      ''/api/v1/providers/'' @ pid @ ''/jobs''"
    using p(2) by simp
  moreover have "split_on (CHR ''/'') (''/api/v1/providers'' @ CHR ''/'' # pid @ CHR ''/'' # ''jobs'') =
      split_on (CHR ''/'') ''/api/v1/providers'' @ pid # split_on (CHR ''/'') ''jobs''"
    unfolding split_on_at split_on_free [OF p(1)] by simp
  moreover have "split_on (CHR ''/'') ''/api/v1/providers'' = [[], ''api'', ''v1'', ''providers'']"
    "split_on (CHR ''/'') ''jobs'' = [''jobs'']" by code_simp+
  ultimately show ?thesis unfolding url_path_base v1_def by simp
qed

lemma Serve_register: "Serve A i \<lparr>rq_method = ''POST'', rq_path = v1 [''providers'', ''register''], rq_auth = au, rq_body = b\<rparr> C =
    handle_register A i b C"
  and Serve_report: "Serve A i \<lparr>rq_method = ''POST'', rq_path = v1 [''vms'', ''report''], rq_auth = au, rq_body = b\<rparr> C =
    handle_report A i b C"
  and Serve_jobs: "Serve A i \<lparr>rq_method = ''GET'', rq_path = v1 [''providers'', pid, ''jobs''], rq_auth = au, rq_body = b\<rparr> C =
    handle_poll i pid C"
  by (simp_all add: Serve_def v1_def only_def POST_def GET_def)

text \<open>The provider's client once it knows its id.\<close>

definition client_of :: "string \<Rightarrow> string \<Rightarrow> string \<Rightarrow> client" where
  "client_of base token pid = SetProviderID pid (NewClient base token)"

lemma client_of_sel [simp]:
  "cl_baseURL (client_of base token pid) = base" "cl_token (client_of base token pid) = token"
  "cl_providerID (client_of base token pid) = pid" "cl_timeout (client_of base token pid) = limit"
  by (simp_all add: client_of_def SetProviderID_def NewClient_def limit_def)

lemma wired_sel [simp]:
  "bad_url (wired A i took base ft rt) u = None" "Do (wired A i took base ft rt) = exchange A i took base ft"
  "client_runtime (wired A i took base ft rt) = rt" "float_text (wired A i took base ft rt) = ft"
  by (simp_all add: wired_def)

text \<open>An exchange is the handler, and its answer if it comes in time.\<close>

lemma exchange_eq:
  assumes "Serve A i (to_request base m) C = (resp, C')"
  shows "exchange A i took base ft t m C =
    (if took \<ge> t then Inl timed_out else Inr (status resp, payload_text ft (payload resp)), C')"
  using assms by (simp add: exchange_def)

lemma post_wired:
  assumes "Serve A i \<lparr>rq_method = ''POST'', rq_path = url_path base (base @ path), rq_auth = ''Bearer '' @ cl_token c,
      rq_body = print_json ft body\<rparr> C = (resp, C')"
    and "cl_baseURL c = base" and "cl_timeout c = limit"
  shows "post (wired A i took base ft rt) c path body C =
    (if took \<ge> limit then Inl timed_out
     else if status resp \<ge> 400 then Inl (Plain (''HTTP '' @ show_int (status resp) @ '' from '' @ path))
     else Inr (payload_text ft (payload resp)), C')"
proof -
  have "Serve A i (to_request base (setHeaders c (new_request ''POST'' (base @ path) (print_json ft body)))) C = (resp, C')"
    using assms(1) by (simp add: to_request_def setHeaders_def new_request_def)
  from exchange_eq [OF this, of took ft limit] show ?thesis
    using assms(2,3) by (simp add: post_def)
qed

lemma PollJobs_wired:
  assumes "Serve A i (to_request base (setHeaders c (new_request ''GET''
      (base @ ''/api/v1/providers/'' @ pid @ ''/jobs?wait=25'') []))) C = (resp, C')"
    and "c = client_of base tok pid"
  shows "PollJobs (wired A i took base ft rt) c C =
    (if took \<ge> limit then Inl timed_out
     else if status resp = 204 then Inr None
     else if status resp \<noteq> 200 then Inl (Plain (''poll jobs: HTTP '' @ show_int (status resp)))
     else map_sum id Some (decode_body rt deploy_job_fields empty_job (payload_text ft (payload resp))), C')"
  using exchange_eq [OF assms(1), of took ft limit] assms(2)
  by (simp add: PollJobs_def split: sum.splits)

lemma show_500: "show_int 500 = ''500''"
  by code_simp

lemma poll_exchange:
  assumes "plain_segment pid" and "PollForProvider (locked_jobs i) pid 25 (core C) = ((jo, err), S')"
  shows "PollJobs (wired A i took base ft rt) (client_of base tok pid) C =
    (if took \<ge> limit then Inl timed_out
     else if err \<noteq> None then Inl (Plain ''poll jobs: HTTP 500'')
     else (case jo of None \<Rightarrow> Inr None
       | Some j \<Rightarrow> map_sum id Some (decode_body rt deploy_job_fields empty_job (print_json ft (job_json j) @ [CHR 0x0A]))),
     C\<lparr>core := S'\<rparr>)"
proof -
  let ?url = "base @ ''/api/v1/providers/'' @ pid @ ''/jobs?wait=25''"
  let ?m = "setHeaders (client_of base tok pid) (new_request ''GET'' ?url [])"
  have "to_request base ?m = \<lparr>rq_method = ''GET'', rq_path = v1 [''providers'', pid, ''jobs''],
      rq_auth = ''Bearer '' @ tok, rq_body = []\<rparr>"
    using route_jobs [OF assms(1), of base] by (simp add: to_request_def setHeaders_def new_request_def)
  then have s: "Serve A i (to_request base ?m) C = handle_poll i pid C" by (simp add: Serve_jobs)
  have h: "handle_poll i pid C =
      (case err of Some e \<Rightarrow> httpErr (Error e) 500
       | None \<Rightarrow> (case jo of None \<Rightarrow> no_content | Some j \<Rightarrow> respond (job_json j)), C\<lparr>core := S'\<rparr>)"
    using assms(2) by (simp add: handle_poll_def on_core_eq split: option.splits)
  note run = PollJobs_wired [OF s [unfolded h] refl, of took ft rt]
  show ?thesis
  proof (cases err)
    case (Some e)
    then show ?thesis using run by (simp add: httpErr_def show_500)
  next
    case None
    then show ?thesis using run by (cases jo) (simp_all add: no_content_def respond_def)
  qed
qed

section \<open>Properties\<close>

text \<open>
  C2 (a poll over the wire). A provider's poll returns exactly the job that the scheduler
  takes for it, or no job, or an error that says so, and leaves the control plane as the
  scheduler does. If the answer takes longer than the client's limit, the client sees an error
  whatever the scheduler did.
\<close>

theorem poll_over_wire:
  assumes "plain_segment pid"
    and "PollForProvider (locked_jobs i) pid 25 (core C) = ((jo, err), S')"
    and "\<forall>j. jo = Some j \<longrightarrow> sendable j"
  shows "PollJobs (wired A i took base ft rt) (client_of base tok pid) C =
    (if took \<ge> limit then Inl timed_out
     else if err \<noteq> None then Inl (Plain ''poll jobs: HTTP 500'')
     else Inr (map_option job_sent jo), C\<lparr>core := S'\<rparr>)"
  using poll_exchange [OF assms(1,2), of A took base ft rt tok] assms(3)
  by (cases jo) (simp_all add: job_is_read)

text \<open>A job that is waiting for provider \<open>b\<close> is delivered, or lost when the answer is late.\<close>

theorem poll_over_wire_witness:
  "fst (PollJobs (wired sample_api sample_inputs 0 ''http://cp'' (\<lambda>x. []) exact_runtime) (client_of ''http://cp'' ''t'' ''b'')
     (sample_control\<lparr>core := announced_stores\<rparr>)) = Inr (Some (job_sent (sample_job ''j1'' [] []))) \<and>
   fst (PollJobs (wired sample_api sample_inputs limit ''http://cp'' (\<lambda>x. []) exact_runtime) (client_of ''http://cp'' ''t'' ''b'')
     (sample_control\<lparr>core := announced_stores\<rparr>)) = Inl timed_out"
proof -
  let ?C = "sample_control\<lparr>core := announced_stores\<rparr>"
  let ?P = "PollForProvider (locked_jobs sample_inputs) ''b'' 25 (core ?C)"
  have p: "plain_segment ''b''" by (simp add: plain_segment_def)
  have f: "fst ?P = (Some (sample_job ''j1'' [] []), None)" by code_simp
  then have run: "?P = ((Some (sample_job ''j1'' [] []), None), snd ?P)" by (metis prod.collapse)
  have s: "sendable (sample_job ''j1'' [] [])" by code_simp
  show ?thesis
    using poll_over_wire [OF p run, of sample_api 0 "''http://cp''" "\<lambda>x. []" exact_runtime "''t''"]
      poll_over_wire [OF p run, of sample_api limit "''http://cp''" "\<lambda>x. []" exact_runtime "''t''"] s
    by (simp add: limit_def)
qed

lemma poll_claims:
  assumes "stores_ok S" and "PollForProvider l pid w S = ((Some j, None), S')"
  shows "abs_jobs (tabs (db S')) (j_id j) = Some (Running, pid)"
  using assms
proof (cases rule: PollForProvider_cases)
  case woken
  from assms(1) have env: "wf_tables (tabs (db S))" "pg_ok (pg_env (db S))"
    by (simp_all add: stores_ok_def)
  have "fst (NextPendingJob l pid (db S)) = (Some j, None)" using woken(4) by simp
  from delivery_claims [OF env this] show ?thesis using woken(4) by simp
qed simp_all

lemma reaches_running:
  "reaches A C es ids C' \<Longrightarrow> stores_ok (core C) \<Longrightarrow> abs_jobs (tabs (db (core C))) i = Some (Running, pid) \<Longrightarrow>
    abs_jobs (tabs (db (core C'))) i = Some (Running, pid) \<and> i \<notin> set ids"
proof (induction rule: reaches.induct)
  case (step es ids D e)
  note ok = reaches_ok [OF step.hyps step.prems(1)]
  from step have run: "abs_jobs (tabs (db (core D))) i = Some (Running, pid)" by blast
  have "i \<notin> set (handed_out e D)" using handed_out_claims [OF ok, of i e A] run by auto
  with step after_running [OF ok run] show ?case by auto
qed simp

text \<open>
  C12 (late answers). The client waits 15 seconds where it asks the server to wait 25. A job
  that the scheduler has taken for a poll whose answer comes after the 15 seconds is running for the control plane
  and never handed out again, but the provider saw an error: it is never started. (It is taken when the transaction
  commits before the request is cancelled; otherwise the job stays scheduled.)
\<close>

theorem late_answer_loses_job:
  assumes "stores_ok (core C)" and "plain_segment pid" and "took \<ge> limit"
    and "PollForProvider (locked_jobs i) pid 25 (core C) = ((Some j, None), S')"
    and "PollJobs (wired A i took base ft rt) (client_of base tok pid) C = (r, D)"
    and "reaches A D es ids C'"
  shows "r = Inl timed_out \<and> j_id j \<notin> set ids \<and> abs_jobs (tabs (db (core C'))) (j_id j) = Some (Running, pid)"
proof -
  from poll_exchange [OF assms(2,4), of A took base ft rt tok] assms(3,5)
  have d: "r = Inl timed_out" "core D = S'" by auto
  have "abs_jobs (tabs (db (core D))) (j_id j) = Some (Running, pid)"
    using poll_claims [OF assms(1,4)] d by simp
  moreover have "stores_ok (core D)"
    using through_ok [OF PollForProvider_through assms(1), of "locked_jobs i" pid 25] assms(4) d by simp
  ultimately show ?thesis using reaches_running [OF assms(6)] d by simp
qed

theorem late_answer_loses_job_witness:
  "\<exists>D. PollJobs (wired sample_api sample_inputs limit ''http://cp'' (\<lambda>x. []) exact_runtime)
       (client_of ''http://cp'' ''t'' ''b'') (sample_control\<lparr>core := announced_stores\<rparr>) = (Inl timed_out, D) \<and>
     abs_jobs (tabs (db (core D))) ''j1'' = Some (Running, ''b'')"
proof -
  let ?C = "sample_control\<lparr>core := announced_stores\<rparr>"
  let ?P = "PollForProvider (locked_jobs sample_inputs) ''b'' 25 (core ?C)"
  have f: "fst ?P = (Some (sample_job ''j1'' [] []), None)" by code_simp
  then have run: "?P = ((Some (sample_job ''j1'' [] []), None), snd ?P)" by (metis prod.collapse)
  have h: "stores_ok (core ?C)" "plain_segment ''b''" "limit \<ge> limit" "j_id (sample_job ''j1'' [] []) = ''j1''"
    using announced_stores_ok by (simp_all add: plain_segment_def sample_job_def)
  from late_answer_loses_job [OF h(1-3) run prod.collapse [symmetric] reaches.start] h(4) show ?thesis
    by (metis prod.collapse)
qed

text \<open>What the control plane stores for a registration.\<close>

definition request_of :: "register_message \<Rightarrow> register_request" where
  "request_of r = to_register_request (body_of_register r)"

definition int64s :: "resource_body \<Rightarrow> bool" where
  "int64s r \<longleftrightarrow> int64 (ci_CPUCores r) \<and> int64 (ci_MemoryMB r) \<and> int64 (ci_DiskGB r)"

lemma Serve_register_message:
  assumes "int64s (cr_Resources req)" and "clean_keys (cr_Meta req)"
  shows "handle_register A i (print_json ft (register_message_json req)) C =
    (case on_core (Register (reg A) (new_uuid i) (micros (reading i 0)) (request_of req)) C of
       (Inl err, C1) \<Rightarrow>
         (if errors_Is err ErrInvalidToken then httpErr ''invalid registration token'' 401
          else httpErr (Error err) 400, C1)
     | (Inr result, C1) \<Rightarrow> (respond (register_json result),
         C1\<lparr>box := snd (AddPeer (to_utf8 (cr_PublicKey req)) (rs_WGIP result) (box C1))\<rparr>))"
proof -
  have d: "decode (runtime A) register_fields empty_register (print_json ft (register_message_json req)) =
      Inr (body_of_register req)"
    using register_is_read assms by (simp add: int64s_def)
  have k: "rb_wg_pubkey (body_of_register req) = to_utf8 (cr_PublicKey req)" by (simp add: body_of_register_def)
  show ?thesis
    unfolding handle_register_def d request_of_def
    by (simp add: k split_def Let_def split: sum.splits)
qed

lemma show_int_ascii: "list_all (\<lambda>c. byte c < 128) (show_int k)"
proof -
  have "byte c < 128" if "c \<in> set (show_nat m)" for c m
    using show_nat_chars [OF that] unfolding byte_nat by linarith
  then show ?thesis by (auto simp: show_int_def list_all_iff byte_def)
qed

lemma wg_ip_ascii: "to_utf8 (wg_ip_of n) = wg_ip_of n"
  by (rule to_utf8_ascii_id) (simp add: wg_ip_of_def Let_def show_int_ascii, simp add: byte_def)

lemma port_int64: "int64 (port_of n)"
proof -
  from smod_int_range [of 10000 n] show ?thesis by (simp add: port_of_def)
qed

lemma Register_call_wired:
  assumes "int64s (cr_Resources req)" and "clean_keys (cr_Meta req)"
    and "Register (reg A) (new_uuid i) (micros (reading i 0)) (request_of req) (core C) = (r, S')"
    and "\<forall>res. r = Inr res \<longrightarrow> int64 (rs_TunnelPort res)"
  shows "\<exists>C'. core C' = S' \<and> Register_call (wired A i took base ft rt) (client_of base tok pid) req C =
    (if took \<ge> limit then Inl (Errorf ''register: '' timed_out [])
     else (case r of
         Inl err \<Rightarrow> Inl (Errorf ''register: '' (Plain (''HTTP '' @
           show_int (if errors_Is err ErrInvalidToken then 401 else 400) @ '' from /api/v1/providers/register'')) [])
       | Inr res \<Rightarrow> Inr \<lparr>ca_ProviderID = to_utf8 (rs_ProviderID res), ca_WGConfig = to_utf8 (rs_WGConfig res),
           ca_TunnelPort = rs_TunnelPort res, ca_WGIP = to_utf8 (rs_WGIP res)\<rparr>), C')"
proof (cases r)
  case (Inl err)
  let ?resp = "if errors_Is err ErrInvalidToken then httpErr ''invalid registration token'' 401 else httpErr (Error err) 400"
  have s: "Serve A i \<lparr>rq_method = ''POST'', rq_path = url_path base (base @ ''/api/v1/providers/register''),
      rq_auth = ''Bearer '' @ cl_token (client_of base tok pid), rq_body = print_json ft (register_message_json req)\<rparr> C =
      (?resp, C\<lparr>core := S'\<rparr>)"
    unfolding route_register Serve_register Serve_register_message [OF assms(1,2)]
    using assms(3) Inl by (simp add: on_core_eq)
  have st: "status ?resp = (if errors_Is err ErrInvalidToken then 401 else 400)" by (simp add: httpErr_def)
  show ?thesis
    by (rule exI [of _ "C\<lparr>core := S'\<rparr>"])
      (use post_wired [OF s, of took rt] st Inl in \<open>simp_all add: Register_call_def\<close>)
next
  case (Inr res)
  let ?C = "C\<lparr>core := S'\<rparr>"
  let ?C' = "?C\<lparr>box := snd (AddPeer (to_utf8 (cr_PublicKey req)) (rs_WGIP res) (box ?C))\<rparr>"
  have s: "Serve A i \<lparr>rq_method = ''POST'', rq_path = url_path base (base @ ''/api/v1/providers/register''),
      rq_auth = ''Bearer '' @ cl_token (client_of base tok pid), rq_body = print_json ft (register_message_json req)\<rparr> C =
      (respond (register_json res), ?C')"
    unfolding route_register Serve_register Serve_register_message [OF assms(1,2)]
    using assms(3) Inr by (simp add: on_core_eq)
  have st: "status (respond (register_json res)) = 200" "payload (respond (register_json res)) = Json (register_json res)"
    by (simp_all add: respond_def)
  from assms(4) Inr have p: "int64 (rs_TunnelPort res)" by blast
  show ?thesis
    by (rule exI [of _ ?C'])
      (use post_wired [OF s, of took rt] st Inr register_answer_is_read [OF p, of rt ft] in
        \<open>simp_all add: Register_call_def\<close>)
qed

lemma registered_row:
  assumes "stores_ok (core C)" and "new_uuid i \<notin> p_id ` set (providers (tabs (db (core C))))"
    and "to_utf8 (new_uuid i) = new_uuid i"
    and "int64s (cr_Resources req)" and "clean_keys (cr_Meta req)"
    and "Register_call (wired A i took base ft rt) (client_of base tok pid) req C = (r, C')"
  shows "core C' = snd (Register (reg A) (new_uuid i) (micros (reading i 0)) (request_of req) (core C)) \<and>
    (took \<ge> limit \<longrightarrow> r = Inl (Errorf ''register: '' timed_out [])) \<and>
    (\<forall>a. r = Inr a \<longrightarrow> valid_token (to_utf8 (cr_Token req)) (cache (core C)) \<and>
      (\<exists>row. providers (tabs (db (core C'))) = providers (tabs (db (core C))) @ [row] \<and>
        ca_ProviderID a = p_id row \<and> p_id row = new_uuid i \<and> ca_WGIP a = p_wg_ip row \<and> ca_TunnelPort a = p_tunnel_port row \<and>
        p_wg_pubkey row = to_utf8 (cr_PublicKey req) \<and> p_token row = to_utf8 (cr_Token req) \<and>
        p_status row = ProviderOnline \<and> p_mode row = to_utf8 (cr_Mode req) \<and>
        p_cpu_cores row = ci_CPUCores (cr_Resources req) \<and> p_memory_mb row = ci_MemoryMB (cr_Resources req) \<and>
        p_disk_gb row = ci_DiskGB (cr_Resources req)))"
proof -
  obtain u S' where reg: "Register (reg A) (new_uuid i) (micros (reading i 0)) (request_of req) (core C) = (u, S')"
    by fastforce
  from assms(1) have ready: "ready_redis (cache (core C))" by (simp add: stores_ok_def)
  note ok = Register_Inr [OF ready assms(2)]
  have port: "\<forall>res. u = Inr res \<longrightarrow> int64 (rs_TunnelPort res)"
    using ok [of "reg A" "micros (reading i 0)" "request_of req"] reg port_int64 by auto
  note run = Register_call_wired [OF assms(4,5) reg port, of took base ft rt tok pid]
  show ?thesis
  proof (cases u)
    case (Inl err)
    obtain C1 where "core C1 = S'" "Register_call (wired A i took base ft rt) (client_of base tok pid) req C =
        (if took \<ge> limit then Inl (Errorf ''register: '' timed_out [])
         else Inl (Errorf ''register: '' (Plain (''HTTP '' @ show_int (if errors_Is err ErrInvalidToken then 401 else 400) @
           '' from /api/v1/providers/register'')) []), C1)"
      using run Inl by auto
    with assms(6) reg show ?thesis by (auto split: if_splits)
  next
    case (Inr res)
    obtain C1 where c: "core C1 = S'" "Register_call (wired A i took base ft rt) (client_of base tok pid) req C =
        (if took \<ge> limit then Inl (Errorf ''register: '' timed_out [])
         else Inr \<lparr>ca_ProviderID = to_utf8 (rs_ProviderID res), ca_WGConfig = to_utf8 (rs_WGConfig res),
           ca_TunnelPort = rs_TunnelPort res, ca_WGIP = to_utf8 (rs_WGIP res)\<rparr>, C1)"
      using run Inr by auto
    note o = ok [OF reg [unfolded Inr]]
    have q: "rq_Token (request_of req) = to_utf8 (cr_Token req)" "rq_WGPubKey (request_of req) = to_utf8 (cr_PublicKey req)"
      "rq_Mode (request_of req) = to_utf8 (cr_Mode req)" "rq_CPUCores (request_of req) = ci_CPUCores (cr_Resources req)"
      "rq_MemoryMB (request_of req) = ci_MemoryMB (cr_Resources req)" "rq_DiskGB (request_of req) = ci_DiskGB (cr_Resources req)"
      by (simp_all add: request_of_def to_register_request_def body_of_register_def)
    have ids: "to_utf8 (rs_ProviderID res) = new_uuid i" "to_utf8 (rs_WGIP res) = rs_WGIP res"
      using o assms(3) wg_ip_ascii by auto
    show ?thesis
    proof (cases "took \<ge> limit")
      case True
      with c assms(6) reg show ?thesis by auto
    next
      case False
      with c assms(6) have r: "r = Inr \<lparr>ca_ProviderID = new_uuid i, ca_WGConfig = to_utf8 (rs_WGConfig res),
          ca_TunnelPort = rs_TunnelPort res, ca_WGIP = rs_WGIP res\<rparr>" "C' = C1" by (auto simp: ids)
      let ?row = "inserted_provider (clock (db (core C)))
        (new_provider (new_uuid i) (micros (reading i 0)) (rs_WGIP res) (rs_TunnelPort res) (request_of req))"
      have "providers (tabs (db (core C'))) = providers (tabs (db (core C))) @ [?row]"
        using o c(1) r(2) by simp
      moreover have "valid_token (to_utf8 (cr_Token req)) (cache (core C))"
        using o q(1) by (simp add: valid_token_def)
      ultimately show ?thesis using False c(1) r(2) reg unfolding r(1)
        by (auto simp: new_provider_def inserted_provider_def q intro!: exI [of _ ?row])
    qed
  qed
qed

text \<open>
  Result (registration over the wire). When a provider's registration returns an answer, its token
  was issued, and the answer is what the control plane recorded in its one new row: id,
  address and port; the row holds the key, the mode and the resources the provider sent. When
  the answer takes longer than 15 seconds the provider gets an error although it may be
  registered.
\<close>

theorem register_over_wire:
  assumes "stores_ok (core C)" and "new_uuid i \<notin> p_id ` set (providers (tabs (db (core C))))"
    and "to_utf8 (new_uuid i) = new_uuid i"
    and "int64s (cr_Resources req)" and "clean_keys (cr_Meta req)"
    and "Register_call (wired A i took base ft rt) (client_of base tok pid) req C = (r, C')"
  shows "core C' = snd (Register (reg A) (new_uuid i) (micros (reading i 0)) (request_of req) (core C)) \<and>
    (took \<ge> limit \<longrightarrow> r = Inl (Errorf ''register: '' timed_out [])) \<and>
    (\<forall>a. r = Inr a \<longrightarrow> valid_token (to_utf8 (cr_Token req)) (cache (core C)) \<and>
      (\<exists>row. providers (tabs (db (core C'))) = providers (tabs (db (core C))) @ [row] \<and>
        ca_ProviderID a = p_id row \<and> ca_WGIP a = p_wg_ip row \<and> ca_TunnelPort a = p_tunnel_port row \<and>
        p_wg_pubkey row = to_utf8 (cr_PublicKey req) \<and> p_mode row = to_utf8 (cr_Mode req) \<and>
        p_cpu_cores row = ci_CPUCores (cr_Resources req) \<and> p_memory_mb row = ci_MemoryMB (cr_Resources req) \<and>
        p_disk_gb row = ci_DiskGB (cr_Resources req)))"
  using registered_row [OF assms] by blast

definition sample_message :: register_message where
  "sample_message = \<lparr>cr_Token = ''t'', cr_PublicKey = ''pk'',
     cr_Resources = \<lparr>ci_CPUCores = 2, ci_MemoryMB = 64, ci_DiskGB = 1\<rparr>, cr_Location = [], cr_Mode = ''ssh'',
     cr_Meta = [(''os'', ''linux''), (''machine_id'', ''m'')]\<rparr>"

theorem register_over_wire_witness:
  "\<exists>a C' row. Register_call (wired sample_api sample_inputs 0 ''http://cp'' (\<lambda>x. []) exact_runtime)
       (client_of ''http://cp'' ''t'' []) sample_message sample_control = (Inr a, C') \<and>
     providers (tabs (db (core C'))) = providers (tabs (db (core sample_control))) @ [row] \<and>
     ca_ProviderID a = p_id row \<and> p_mode row = ''ssh'' \<and> p_memory_mb row = 64"
proof -
  let ?R = "Register_call (wired sample_api sample_inputs 0 ''http://cp'' (\<lambda>x. []) exact_runtime)
    (client_of ''http://cp'' ''t'' []) sample_message sample_control"
  have n: "new_uuid sample_inputs \<notin> p_id ` set (providers (tabs (db (core sample_control))))" by code_simp
  have u: "to_utf8 (new_uuid sample_inputs) = new_uuid sample_inputs" by code_simp
  have m: "int64s (cr_Resources sample_message)" "clean_keys (cr_Meta sample_message)" by code_simp+
  have e: "to_utf8 (cr_Mode sample_message) = ''ssh''" "ci_MemoryMB (cr_Resources sample_message) = 64" by code_simp+
  let ?G = "Register (reg sample_api) (new_uuid sample_inputs) (micros (reading sample_inputs 0)) (request_of sample_message)
    (core sample_control)"
  have "\<not> isl (fst ?G)" "rs_TunnelPort (projr (fst ?G)) = 40001" by code_simp+
  then obtain res where g: "?G = (Inr res, snd ?G)" "rs_TunnelPort res = 40001"
    by (metis prod.collapse sum.collapse(2))
  have "\<forall>x. Inr res = (Inr x :: register_result result) \<longrightarrow> int64 (rs_TunnelPort x)" using g(2) by simp
  from Register_call_wired [OF m g(1) this, of 0 "''http://cp''" "\<lambda>x. []" exact_runtime "''t''" "[]"]
  obtain a where r: "?R = (Inr a, snd ?R)" by (auto simp: limit_def)
  from register_over_wire [OF sample_control_ok n u m r] obtain row where
    "providers (tabs (db (core (snd ?R)))) = providers (tabs (db (core sample_control))) @ [row]"
    "ca_ProviderID a = p_id row" "p_mode row = to_utf8 (cr_Mode sample_message)"
    "p_memory_mb row = ci_MemoryMB (cr_Resources sample_message)" by blast
  with r e show ?thesis by metis
qed

text \<open>A report, which the control plane answers once it has the row or has refused it.\<close>

lemma Serve_report_message:
  assumes "int64 (vr_Port r)"
  shows "handle_report A i (print_json ft (vm_report_json r)) C =
    (case on_core (on_pg (UpsertVM (to_vm (body_of_report r) (micros (reading i 0))))) C of
       (Inl err, C1) \<Rightarrow> (httpErr (Error err) 500, C1) | (Inr _, C1) \<Rightarrow> (no_content, C1))"
  by (simp add: handle_report_def report_is_read [OF assms])

text \<open>
  Result (reports over the wire). A report that is accepted in time has reached the table of
  machines under the job it names, with address, port and status as the provider sent them; a
  report that is refused, for a provider that does not exist, is an error for the client.
\<close>

theorem report_over_wire:
  assumes "int64 (vr_Port m)" and "took < limit"
    and "ReportVM (wired A i took base ft rt) (client_of base tok pid) m C = (r, C')"
  shows "(case UpsertVM (to_vm (body_of_report m) (micros (reading i 0))) (db (core C)) of (u, p) \<Rightarrow>
      db (core C') = p \<and> cache (core C') = cache (core C) \<and> box C' = box C \<and>
      r = (case u of Inr _ \<Rightarrow> None | Inl e \<Rightarrow> Some (Plain ''HTTP 500 from /api/v1/vms/report'')))"
proof -
  obtain u p where up: "UpsertVM (to_vm (body_of_report m) (micros (reading i 0))) (db (core C)) = (u, p)" by fastforce
  let ?C = "C\<lparr>core := (core C)\<lparr>db := p\<rparr>\<rparr>"
  have s: "Serve A i \<lparr>rq_method = ''POST'', rq_path = url_path base (base @ ''/api/v1/vms/report''),
      rq_auth = ''Bearer '' @ cl_token (client_of base tok pid), rq_body = print_json ft (vm_report_json m)\<rparr> C =
      (case u of Inl e \<Rightarrow> httpErr (Error e) 500 | Inr _ \<Rightarrow> no_content, ?C)"
    unfolding route_report Serve_report Serve_report_message [OF assms(1)]
    by (simp add: on_core_eq on_pg_def up split: sum.splits)
  have "C' = ?C \<and> r = (case u of Inr _ \<Rightarrow> None | Inl e \<Rightarrow> Some (Plain ''HTTP 500 from /api/v1/vms/report''))"
    using post_wired [OF s, of took rt] assms(2,3)
    by (cases u) (auto simp: ReportVM_def httpErr_def no_content_def show_500)
  then show ?thesis by (simp add: up)
qed

definition sample_report :: vm_report where
  "sample_report = \<lparr>vr_JobID = ''j1'', vr_ProviderID = ''b'', vr_VMIP = ''10.0.0.2'', vr_Port = 40000,
     vr_Status = ''running'', vr_Error = []\<rparr>"

theorem report_over_wire_witness:
  "\<exists>C'. ReportVM (wired sample_api sample_inputs 0 ''http://cp'' (\<lambda>x. []) exact_runtime)
       (client_of ''http://cp'' ''t'' ''b'') sample_report sample_control = (None, C') \<and>
     map v_vm_ip (filter (\<lambda>v. v_job_id v = ''j1'') (vms (tabs (db (core C'))))) = [''10.0.0.2'']"
proof -
  let ?R = "ReportVM (wired sample_api sample_inputs 0 ''http://cp'' (\<lambda>x. []) exact_runtime)
    (client_of ''http://cp'' ''t'' ''b'') sample_report sample_control"
  let ?U = "UpsertVM (to_vm (body_of_report sample_report) (micros (reading sample_inputs 0))) (db (core sample_control))"
  have p: "int64 (vr_Port sample_report)" "0 < limit" by (simp_all add: sample_report_def limit_def)
  have "\<not> isl (fst ?U)" and v: "map v_vm_ip (filter (\<lambda>v. v_job_id v = ''j1'') (vms (tabs (snd ?U)))) = [''10.0.0.2'']" by code_simp+
  then obtain x where u: "?U = (Inr x, snd ?U)" by (metis prod.collapse sum.collapse(2))
  from report_over_wire [OF p prod.collapse [symmetric]] have "case ?U of (u, p) \<Rightarrow> db (core (snd ?R)) = p \<and>
      cache (core (snd ?R)) = cache (core sample_control) \<and> box (snd ?R) = box sample_control \<and>
      fst ?R = (case u of Inr _ \<Rightarrow> None | Inl e \<Rightarrow> Some (Plain ''HTTP 500 from /api/v1/vms/report''))" .
  then have "fst ?R = None" "db (core (snd ?R)) = snd ?U"
    by (subst (asm) u, simp)+
  with v show ?thesis by (intro exI [of _ "snd ?R"]) (metis prod.collapse)
qed

end
