(* ===== verification/Firecracker.thy ===== *)
theory Firecracker
  imports Host Json
begin

text \<open>
  Micro VMs (\<open>internal/vm/firecracker.go\<close>): the address of a tap device, the device itself, the
  jailer process, the wait for its socket, and the five calls of the Firecracker API that
  configure and boot the machine. The package variable \<open>ipCounter\<close>, the processes that run and
  the calls that were made are part of the state.
\<close>

definition kernelPath :: string where "kernelPath = ''/opt/dcp/kernels/vmlinux''"
definition jailerBin :: string where "jailerBin = ''/usr/local/bin/jailer''"
definition fcBin :: string where "fcBin = ''/usr/local/bin/firecracker''"
definition vmBaseDir :: string where "vmBaseDir = ''/srv/dcp/vms''"

record firecracker_vm =
  fv_JobID :: string
  fv_ID :: string
  fv_socketPath :: string
  fv_tapName :: string
  fv_vmIP :: string
  fv_pid :: int

record spawn_config =
  sp_JobID :: string
  sp_ImagePath :: string
  sp_CPUCores :: int
  sp_MemoryMB :: int
  sp_SSHPubKey :: string

text \<open>What the machine decides: the process that \<open>cmd.Start\<close> gives, the status of a call of the
  API, and how the wait for the socket goes (below).\<close>

record vm_world =
  start :: "string list \<Rightarrow> int result"
  fc_answer :: "string \<Rightarrow> json \<Rightarrow> int result"
  wait_start :: int
  wait_late :: "nat \<Rightarrow> nat"
  socket_there :: "nat \<Rightarrow> bool"

record vm_state =
  vm_host :: host
  ipCounter :: int
  alive :: "int list"
  puts :: "(string \<times> json) list"


section \<open>Addresses and devices\<close>

text \<open>One allocation on its own; allocations that overlap are \<open>interleave\<close>d below.\<close>

definition allocateTapIP :: "vm_state \<Rightarrow> (string \<times> string) \<times> vm_state" where
  "allocateTapIP S =
     (let base = wrap64 (ipCounter S + 4)
      in ((''172.16.'' @ show_int base @ ''.2'', ''172.16.'' @ show_int base @ ''.1''), S\<lparr>ipCounter := base\<rparr>))"

text \<open>\<open>%v\<close> of a list of strings.\<close>

definition show_args :: "string list \<Rightarrow> string" where
  "show_args args = ''['' @ join_with (CHR '' '') args @ '']''"

fun run_all :: "string list list \<Rightarrow> host \<Rightarrow> go_error option \<times> host" where
  "run_all [] H = (None, H)"
| "run_all (args # cmds) H = then_do (exec_combined (show_args args @ '': '') args H) (run_all cmds)"

definition setupTap :: "string \<Rightarrow> string \<Rightarrow> host \<Rightarrow> go_error option \<times> host" where
  "setupTap dev gwIP =
     run_all [[''ip'', ''tuntap'', ''add'', dev, ''mode'', ''tap''],
       [''ip'', ''addr'', ''add'', gwIP @ ''/30'', ''dev'', dev],
       [''ip'', ''link'', ''set'', dev, ''up'']]"


section \<open>Waiting for the socket\<close>

text \<open>
  The loop reads the clock, looks for the file and sleeps 50 ms. Round \<open>k\<close> starts at least that
  much after the one before, \<open>late k\<close> nanoseconds more; \<open>there k\<close> is whether it finds the file.
\<close>

function wait_rounds :: "(nat \<Rightarrow> nat) \<Rightarrow> (nat \<Rightarrow> bool) \<Rightarrow> int \<Rightarrow> int \<Rightarrow> nat \<Rightarrow> bool" where
  "wait_rounds late there deadline now k =
     (if now < deadline then
        (if there k then True
         else wait_rounds late there deadline (now + 50000000 + int (late (Suc k))) (Suc k))
      else False)"
  by pat_completeness auto

termination by (relation "measure (\<lambda>(late, there, deadline, now, k). nat (deadline - now))") auto

declare wait_rounds.simps [simp del]

text \<open>The first reading of the clock sets the deadline, the second starts the first round. The message
  prints the time-out, which is the 3 seconds of its only caller.\<close>

definition waitForSocket :: "vm_world \<Rightarrow> string \<Rightarrow> int \<Rightarrow> go_error option" where
  "waitForSocket W path timeout =
     (if wait_rounds (wait_late W) (socket_there W) (wait_start W + timeout)
         (wait_start W + int (wait_late W 0)) 0 then None
      else Some (Plain (''socket '' @ path @ '' did not appear within 3s'')))"


section \<open>The Firecracker API\<close>

definition fcPut :: "vm_world \<Rightarrow> string \<Rightarrow> json \<Rightarrow> vm_state \<Rightarrow> go_error option \<times> vm_state" where
  "fcPut W url body S =
     ((case fc_answer W url body of
         Inl e \<Rightarrow> Some e
       | Inr code \<Rightarrow> if code \<ge> 300 then Some (Plain (''fc API '' @ url @ '': HTTP '' @ show_int code)) else None),
      S\<lparr>puts := puts S @ [(url, body)]\<rparr>)"

definition boot_source :: json where
  "boot_source = JObj [(''boot_args'', jstr ''console=ttyS0 reboot=k panic=1 pci=off''),
     (''kernel_image_path'', jstr kernelPath)]"

definition root_drive :: "spawn_config \<Rightarrow> json" where
  "root_drive cfg = JObj [(''drive_id'', jstr ''rootfs''), (''is_read_only'', JBool False),
     (''is_root_device'', JBool True), (''path_on_host'', jstr (sp_ImagePath cfg))]"

definition machine_config :: "spawn_config \<Rightarrow> json" where
  "machine_config cfg = JObj [(''mem_size_mib'', JInt (sp_MemoryMB cfg)), (''vcpu_count'', JInt (sp_CPUCores cfg))]"

definition network_interface :: "firecracker_vm \<Rightarrow> json" where
  "network_interface v = JObj [(''guest_mac'', jstr ''AA:FC:00:00:00:01''), (''host_dev_name'', jstr (fv_tapName v)),
     (''iface_id'', jstr ''eth0'')]"

definition configure :: "vm_world \<Rightarrow> firecracker_vm \<Rightarrow> spawn_config \<Rightarrow> vm_state \<Rightarrow> go_error option \<times> vm_state" where
  "configure W v cfg S =
     then_do (fcPut W ''http://localhost/boot-source'' boot_source S) (\<lambda>S.
     then_do (fcPut W ''http://localhost/drives/rootfs'' (root_drive cfg) S) (\<lambda>S.
     then_do (fcPut W ''http://localhost/machine-config'' (machine_config cfg) S) (\<lambda>S.
     then_do (fcPut W ''http://localhost/network-interfaces/eth0'' (network_interface v) S) (\<lambda>S.
     fcPut W ''http://localhost/actions'' (JObj [(''action_type'', jstr ''InstanceStart'')]) S))))"


section \<open>Spawning and killing\<close>

definition jailer_args :: "string \<Rightarrow> string \<Rightarrow> string list" where
  "jailer_args vmID socketPath =
     [jailerBin, ''--id'', vmID, ''--exec-file'', fcBin, ''--uid'', ''1000'', ''--gid'', ''1000'', ''--'',
      ''--api-sock'', socketPath]"

definition kill_process :: "int \<Rightarrow> vm_state \<Rightarrow> vm_state" where
  "kill_process p S = S\<lparr>alive := remove1 p (alive S)\<rparr>"

text \<open>From the started process on.\<close>

definition await_boot :: "vm_world \<Rightarrow> spawn_config \<Rightarrow> firecracker_vm \<Rightarrow> vm_state \<Rightarrow>
    firecracker_vm result \<times> vm_state" where
  "await_boot W cfg v S =
     (case waitForSocket W (fv_socketPath v) 3000000000 of
        Some e \<Rightarrow> (Inl e, kill_process (fv_pid v) S)
      | None \<Rightarrow>
          (case configure W v cfg S of
             (Some e, S1) \<Rightarrow> (Inl (Errorf ''fc configure: '' e []), kill_process (fv_pid v) S1)
           | (None, S1) \<Rightarrow> (Inr v, S1)))"

definition Spawn :: "vm_world \<Rightarrow> spawn_config \<Rightarrow> vm_state \<Rightarrow> firecracker_vm result \<times> vm_state" where
  "Spawn W cfg S =
     (let vmID = sp_JobID cfg; vmDir = join_path [vmBaseDir, vmID] in
      case MkdirAll vmDir (vm_host S) of
        Some e \<Rightarrow> (Inl e, S)
      | None \<Rightarrow>
        (let socketPath = join_path [vmDir, ''api.sock''] in
         if length vmID < 8 then (Inl (Panic ''slice bounds out of range''), S)
         else
           (let tapName = ''tap-'' @ take 8 vmID;
                ((vmIP, gwIP), S1) = allocateTapIP S
            in case setupTap tapName gwIP (vm_host S1) of
                 (Some e, H) \<Rightarrow> (Inl (Errorf ''tap setup: '' e []), S1\<lparr>vm_host := H\<rparr>)
               | (None, H) \<Rightarrow>
                   (case start W (jailer_args vmID socketPath) of
                      Inl e \<Rightarrow> (Inl (Errorf ''jailer start: '' e []), S1\<lparr>vm_host := H\<rparr>)
                    | Inr p \<Rightarrow>
                        (let S2 = S1\<lparr>vm_host := H\<lparr>ran := ran H @ [jailer_args vmID socketPath]\<rparr>, alive := p # alive S1\<rparr>;
                             v = \<lparr>fv_JobID = sp_JobID cfg, fv_ID = vmID, fv_socketPath = socketPath,
                               fv_tapName = tapName, fv_vmIP = vmIP, fv_pid = p\<rparr>
                         in await_boot W cfg v S2)))))"

text \<open>On Unix \<open>FindProcess\<close> always finds.\<close>

definition Kill :: "firecracker_vm \<Rightarrow> vm_state \<Rightarrow> vm_state" where
  "Kill v S =
     (let S1 = (if fv_pid v > 0 then kill_process (fv_pid v) S else S)
      in S1\<lparr>vm_host := snd (Run [''ip'', ''link'', ''del'', fv_tapName v] (vm_host S1))\<rparr>)"

definition KVMAvailable :: "host \<Rightarrow> bool" where
  "KVMAvailable H \<longleftrightarrow> exists_file ''/dev/kvm'' H"



section \<open>Facts\<close>

text \<open>The reading of the clock in round \<open>k\<close>.\<close>

definition round_at :: "(nat \<Rightarrow> nat) \<Rightarrow> int \<Rightarrow> nat \<Rightarrow> int" where
  "round_at late now k = now + 50000000 * int k + int (\<Sum>i\<in>{1..k}. late i)"

lemma round_at_Suc: "round_at late now (Suc k) = round_at late now k + 50000000 + int (late (Suc k))"
  by (simp add: round_at_def sum.nat_ivl_Suc')

lemma round_at_mono: "k \<le> l \<Longrightarrow> round_at late now k \<le> round_at late now l"
  by (induction l) (auto simp: le_Suc_eq round_at_Suc)

lemma wait_rounds_iff:
  "wait_rounds late there deadline (round_at late now k) k \<longleftrightarrow>
     (\<exists>l\<ge>k. round_at late now l < deadline \<and> there l)"
proof (induction "nat (deadline - round_at late now k)" arbitrary: k rule: less_induct)
  case less
  show ?case
  proof (cases "round_at late now k < deadline \<and> \<not> there k")
    case True
    then have "nat (deadline - round_at late now (Suc k)) < nat (deadline - round_at late now k)"
      by (simp add: round_at_Suc)
    from less [OF this] have "wait_rounds late there deadline (round_at late now k) k \<longleftrightarrow>
        (\<exists>l\<ge>Suc k. round_at late now l < deadline \<and> there l)"
      using True by (subst wait_rounds.simps) (simp add: round_at_Suc)
    also have "\<dots> \<longleftrightarrow> (\<exists>l\<ge>k. round_at late now l < deadline \<and> there l)"
      using True by (metis Suc_leD Suc_leI le_neq_implies_less)
    finally show ?thesis .
  next
    case False
    then show ?thesis
      using round_at_mono [of k _ late now] by (subst wait_rounds.simps) force
  qed
qed

lemma fcPut_sel [simp]:
  "vm_host (snd (fcPut W u b S)) = vm_host S" "ipCounter (snd (fcPut W u b S)) = ipCounter S"
  "alive (snd (fcPut W u b S)) = alive S"
  by (simp_all add: fcPut_def)

lemma fcPut_None: "fcPut W u b S = (None, S') \<Longrightarrow>
    S' = S\<lparr>puts := puts S @ [(u, b)]\<rparr> \<and> (\<exists>c. fc_answer W u b = Inr c \<and> c < 300)"
  by (auto simp: fcPut_def split: sum.splits if_splits)

lemma configure_frame:
  assumes "configure W v cfg S = (r, S')"
  shows "vm_host S' = vm_host S \<and> ipCounter S' = ipCounter S \<and> alive S' = alive S"
proof -
  have step: "vm_host S' = vm_host T \<and> ipCounter S' = ipCounter T \<and> alive S' = alive T"
    if "fcPut W u b T = (r, S')" for u b T r S'
    using that fcPut_sel [of W u b T] by simp
  from assms show ?thesis
    unfolding configure_def by (elim then_do_cases) (metis step)+
qed

definition api_calls :: "firecracker_vm \<Rightarrow> spawn_config \<Rightarrow> (string \<times> json) list" where
  "api_calls v cfg =
     [(''http://localhost/boot-source'', boot_source), (''http://localhost/drives/rootfs'', root_drive cfg),
      (''http://localhost/machine-config'', machine_config cfg),
      (''http://localhost/network-interfaces/eth0'', network_interface v),
      (''http://localhost/actions'', JObj [(''action_type'', jstr ''InstanceStart'')])]"

lemma configure_None:
  assumes "configure W v cfg S = (None, S')"
  shows "puts S' = puts S @ api_calls v cfg \<and> (\<forall>(u, b) \<in> set (api_calls v cfg). \<exists>c. fc_answer W u b = Inr c \<and> c < 300)"
  using assms unfolding configure_def then_do_None
  by (elim exE conjE) (drule fcPut_None, elim conjE exE, simp add: api_calls_def)+

lemma run_all_sel:
  assumes "run_all cmds H = (r, H')"
  shows "machine H' = machine H \<and> (\<exists>n \<le> length cmds. ran H' = ran H @ take n cmds \<and> (r = None \<longrightarrow> n = length cmds))"
  using assms
proof (induction cmds arbitrary: H)
  case (Cons args cmds)
  let ?E = "exec_combined (show_args args @ '': '') args H"
  from Cons.prems have "then_do ?E (run_all cmds) = (r, H')" by simp
  then show ?case
  proof (cases rule: then_do_cases)
    case (stopped e)
    then have "H' = snd ?E" by simp
    with stopped(2) show ?thesis by (intro conjI exI [of _ 1]) simp_all
  next
    case (went_on H1)
    then have h: "H1 = snd ?E" by simp
    from Cons.IH [OF went_on(2)] obtain n where "machine H' = machine H1" "n \<le> length cmds"
      "ran H' = ran H1 @ take n cmds" "r = None \<longrightarrow> n = length cmds" by blast
    then show ?thesis by (intro conjI exI [of _ "Suc n"]) (simp_all add: h)
  qed
qed simp


text \<open>Every way through \<open>Spawn\<close>, by the last thing it did.\<close>

definition tap_name :: "spawn_config \<Rightarrow> string" where
  "tap_name cfg = ''tap-'' @ take 8 (sp_JobID cfg)"

definition tap_commands :: "spawn_config \<Rightarrow> vm_state \<Rightarrow> string list list" where
  "tap_commands cfg S =
     [[''ip'', ''tuntap'', ''add'', tap_name cfg, ''mode'', ''tap''],
      [''ip'', ''addr'', ''add'', snd (fst (allocateTapIP S)) @ ''/30'', ''dev'', tap_name cfg],
      [''ip'', ''link'', ''set'', tap_name cfg, ''up'']]"

definition jailer_of :: "spawn_config \<Rightarrow> string list" where
  "jailer_of cfg = jailer_args (sp_JobID cfg) (join_path [join_path [vmBaseDir, sp_JobID cfg], ''api.sock''])"

definition spawned :: "spawn_config \<Rightarrow> int \<Rightarrow> vm_state \<Rightarrow> firecracker_vm" where
  "spawned cfg p S =
     \<lparr>fv_JobID = sp_JobID cfg, fv_ID = sp_JobID cfg,
      fv_socketPath = join_path [join_path [vmBaseDir, sp_JobID cfg], ''api.sock''],
      fv_tapName = tap_name cfg, fv_vmIP = fst (fst (allocateTapIP S)), fv_pid = p\<rparr>"

lemma Spawn_cases:
  assumes "Spawn W cfg S = (r, S')"
  obtains
    (unprepared) e where "r = Inl e" "S' = S"
  | (no_tap) e n where "r = Inl (Errorf ''tap setup: '' e [])" "n \<le> 3" "alive S' = alive S" "puts S' = puts S"
      "ran (vm_host S') = ran (vm_host S) @ take n (tap_commands cfg S)"
  | (no_jailer) e where "r = Inl (Errorf ''jailer start: '' e [])" "alive S' = alive S" "puts S' = puts S"
      "ran (vm_host S') = ran (vm_host S) @ tap_commands cfg S"
  | (no_socket) p where "start W (jailer_of cfg) = Inr p"
      "r = Inl (Plain (''socket '' @ fv_socketPath (spawned cfg p S) @ '' did not appear within 3s''))"
      "waitForSocket W (fv_socketPath (spawned cfg p S)) 3000000000 \<noteq> None" "alive S' = alive S" "puts S' = puts S"
      "ran (vm_host S') = ran (vm_host S) @ tap_commands cfg S @ [jailer_of cfg]"
  | (not_configured) e where "r = Inl (Errorf ''fc configure: '' e [])" "alive S' = alive S"
      "ran (vm_host S') = ran (vm_host S) @ tap_commands cfg S @ [jailer_of cfg]"
  | (booted) p where "start W (jailer_of cfg) = Inr p" "r = Inr (spawned cfg p S)"
      "waitForSocket W (fv_socketPath (spawned cfg p S)) 3000000000 = None" "8 \<le> length (sp_JobID cfg)"
      "alive S' = p # alive S" "ipCounter S' = wrap64 (ipCounter S + 4)"
      "puts S' = puts S @ api_calls (spawned cfg p S) cfg"
      "\<forall>(u, b) \<in> set (api_calls (spawned cfg p S) cfg). \<exists>c. fc_answer W u b = Inr c \<and> c < 300"
      "ran (vm_host S') = ran (vm_host S) @ tap_commands cfg S @ [jailer_of cfg]"
proof -
  let ?dir = "join_path [vmBaseDir, sp_JobID cfg]" and ?S1 = "snd (allocateTapIP S)"
  let ?sock = "join_path [?dir, ''api.sock'']"
  have S1: "?S1 = S\<lparr>ipCounter := wrap64 (ipCounter S + 4)\<rparr>" by (simp add: allocateTapIP_def Let_def)
  obtain t H where tap: "setupTap (tap_name cfg) (snd (fst (allocateTapIP S))) (vm_host S) = (t, H)" by fastforce
  then have "run_all (tap_commands cfg S) (vm_host S) = (t, H)"
    by (simp only: setupTap_def tap_commands_def)
  moreover have len: "length (tap_commands cfg S) = 3" by (simp add: tap_commands_def)
  ultimately obtain n where n: "n \<le> 3" "ran H = ran (vm_host S) @ take n (tap_commands cfg S)" "t = None \<longrightarrow> n = 3"
    using run_all_sel by metis
  note run = assms [unfolded Spawn_def Let_def, folded tap_name_def]
  show thesis
  proof (cases "MkdirAll ?dir (vm_host S) = None \<and> 8 \<le> length (sp_JobID cfg)")
    case False
    with run that(1) show thesis by (auto split: option.splits if_splits)
  next
    case prepared: True
    show thesis
    proof (cases t)
      case (Some e)
      with run prepared tap n show thesis by (intro no_tap [of e n]) (auto simp: split_def S1)
    next
      case t: None
      with n have ranH: "ran H = ran (vm_host S) @ tap_commands cfg S" using len by simp
      show thesis
      proof (cases "start W (jailer_of cfg)")
        case (Inl e)
        with run prepared tap t ranH show thesis
          by (intro no_jailer [of e]) (auto simp: split_def S1 jailer_of_def)
      next
        case (Inr p)
        let ?S2 = "?S1\<lparr>vm_host := H\<lparr>ran := ran H @ [jailer_of cfg]\<rparr>, alive := p # alive S\<rparr>"
        have rest: "await_boot W cfg (spawned cfg p S) ?S2 = (r, S')"
          using run prepared tap t Inr by (simp add: split_def S1 jailer_of_def spawned_def)
        note rest = rest [unfolded await_boot_def]
        have sel: "fv_socketPath (spawned cfg p S) = ?sock" "fv_pid (spawned cfg p S) = p" by (simp_all add: spawned_def)
        show thesis
        proof (cases "waitForSocket W ?sock 3000000000")
          case (Some e)
          then have "e = Plain (''socket '' @ ?sock @ '' did not appear within 3s'')"
            by (auto simp: waitForSocket_def split: if_splits)
          with rest Some Inr ranH show thesis
            by (intro no_socket [of p]) (auto simp: sel kill_process_def S1)
        next
          case w: None
          obtain c S3 where c: "configure W (spawned cfg p S) cfg ?S2 = (c, S3)" by fastforce
          note f = configure_frame [OF c]
          show thesis
          proof (cases c)
            case (Some e)
            with rest w c f ranH show thesis
              by (intro not_configured [of e]) (auto simp: sel kill_process_def S1)
          next
            case None
            with rest w c f ranH configure_None [OF c [unfolded None]] Inr prepared show thesis
              by (intro booted [of p]) (auto simp: sel S1)
          qed
        qed
      qed
    qed
  qed
qed



section \<open>Concurrent allocation\<close>

text \<open>
  Every job runs in a goroutine of its own, and nothing guards \<open>ipCounter\<close>. The statement
  \<open>ipCounter += 4\<close> is a load and a store, \<open>base := ipCounter\<close> another load; a schedule says
  which goroutine makes the next of its three accesses.
\<close>

datatype access = To_Load | To_Store int | To_Reload | Got int

fun access_step :: "access \<Rightarrow> int \<Rightarrow> access \<times> int" where
  "access_step To_Load c = (To_Store (wrap64 (c + 4)), c)"
| "access_step (To_Store n) c = (To_Reload, n)"
| "access_step To_Reload c = (Got c, c)"
| "access_step (Got n) c = (Got n, c)"

fun interleave :: "nat list \<Rightarrow> access list \<Rightarrow> int \<Rightarrow> access list \<times> int" where
  "interleave [] ts c = (ts, c)"
| "interleave (i # sched) ts c =
     (if i < length ts then (let (t, c') = access_step (ts ! i) c in interleave sched (ts[i := t]) c')
      else interleave sched ts c)"

text \<open>One goroutine at a time is \<open>allocateTapIP\<close>.\<close>

lemma access_alone:
  "interleave [0, 0, 0] [To_Load] (ipCounter S) = ([Got (ipCounter (snd (allocateTapIP S)))], ipCounter (snd (allocateTapIP S)))"
  by (simp add: allocateTapIP_def Let_def)


section \<open>Properties\<close>

text \<open>
  C31 (wait for the socket). The wait returns after at most 60 rounds, however late the
  scheduler is; it succeeds exactly if the socket is there in a round that starts before the
  three seconds are over.
\<close>

theorem waitForSocket_ends:
  "(waitForSocket W path 3000000000 = None \<longleftrightarrow>
      (\<exists>k < 60. round_at (wait_late W) (int (wait_late W 0)) k < 3000000000 \<and> socket_there W k)) \<and>
   (\<forall>k. round_at (wait_late W) (int (wait_late W 0)) k < 3000000000 \<longrightarrow> k < 60)"
proof -
  have late: "k < 60" if "round_at (wait_late W) (int (wait_late W 0)) k < 3000000000" for k
  proof -
    have "50000000 * int k \<le> round_at (wait_late W) (int (wait_late W 0)) k"
      by (simp add: round_at_def add_nonneg_nonneg sum_nonneg)
    with that show ?thesis by linarith
  qed
  have shift: "round_at (wait_late W) (wait_start W + int (wait_late W 0)) k < wait_start W + 3000000000 \<longleftrightarrow>
      round_at (wait_late W) (int (wait_late W 0)) k < 3000000000" for k
    by (auto simp: round_at_def)
  have "wait_start W + int (wait_late W 0) = round_at (wait_late W) (wait_start W + int (wait_late W 0)) 0"
    by (simp add: round_at_def)
  then have "waitForSocket W path 3000000000 = None \<longleftrightarrow>
      (\<exists>k. round_at (wait_late W) (int (wait_late W 0)) k < 3000000000 \<and> socket_there W k)"
    using wait_rounds_iff [of "wait_late W" "socket_there W" "wait_start W + 3000000000" "wait_start W + int (wait_late W 0)" 0]
    by (simp add: waitForSocket_def shift)
  with late show ?thesis by blast
qed

definition sample_world :: vm_world where
  "sample_world = \<lparr>start = (\<lambda>a. Inr 77), fc_answer = (\<lambda>u b. Inr 204), wait_start = 0,
     wait_late = (\<lambda>k. 0), socket_there = (\<lambda>k. k = 2)\<rparr>"

theorem waitForSocket_ends_witness: "waitForSocket sample_world ''/s'' 3000000000 = None"
proof -
  have "round_at (wait_late sample_world) (int (wait_late sample_world 0)) 2 < 3000000000"
    "socket_there sample_world 2" by (simp_all add: sample_world_def round_at_def)
  then show ?thesis using waitForSocket_ends [of sample_world "''/s''"] by (metis numeral_less_iff semiring_norm(76,80))
qed

text \<open>
  C19 (a machine that boots). When \<open>Spawn\<close> returns a machine, its tap device was set up with
  the address the counter gave, the jailer was started after that, the socket had appeared,
  and the five calls of the API were made in order, the boot last, each answered below 300.
\<close>

theorem Spawn_boots:
  assumes "Spawn W cfg S = (Inr v, S')"
  shows "fv_JobID v = sp_JobID cfg \<and> fv_vmIP v = ''172.16.'' @ show_int (ipCounter S') @ ''.2'' \<and>
    ipCounter S' = wrap64 (ipCounter S + 4) \<and> alive S' = fv_pid v # alive S \<and>
    ran (vm_host S') = ran (vm_host S) @ tap_commands cfg S @ [jailer_of cfg] \<and>
    waitForSocket W (fv_socketPath v) 3000000000 = None \<and>
    puts S' = puts S @ api_calls v cfg \<and> fst (last (puts S')) = ''http://localhost/actions'' \<and>
    (\<forall>(u, b) \<in> set (api_calls v cfg). \<exists>c. fc_answer W u b = Inr c \<and> c < 300)"
  using assms
proof (cases rule: Spawn_cases)
  case (booted p)
  then have v: "v = spawned cfg p S" by simp
  have "fv_vmIP v = ''172.16.'' @ show_int (ipCounter S') @ ''.2''" "fv_JobID v = sp_JobID cfg" "fv_pid v = p"
    by (simp_all add: v spawned_def allocateTapIP_def Let_def booted(6))
  moreover have "fst (last (puts S')) = ''http://localhost/actions''"
    unfolding booted(7) by (simp add: api_calls_def)
  ultimately show ?thesis using booted by (simp only: v simp_thms)
qed simp_all

definition sample_spawn :: spawn_config where
  "sample_spawn = \<lparr>sp_JobID = ''01234567-89'', sp_ImagePath = ''/i'', sp_CPUCores = 2, sp_MemoryMB = 64, sp_SSHPubKey = ''k''\<rparr>"

definition sample_vms :: vm_state where
  "sample_vms = \<lparr>vm_host = plain_host, ipCounter = 1, alive = [], puts = []\<rparr>"

theorem Spawn_boots_witness:
  "\<exists>v S'. Spawn sample_world sample_spawn sample_vms = (Inr v, S') \<and> alive S' = [fv_pid v] \<and>
     fv_vmIP v = ''172.16.5.2''"
proof -
  let ?R = "Spawn sample_world sample_spawn sample_vms"
  have "\<not> isl (fst ?R)" by code_simp
  then obtain v where r: "?R = (Inr v, snd ?R)" by (metis prod.collapse sum.collapse(2))
  have "ipCounter (snd ?R) = 5" by code_simp
  then have "show_int (ipCounter (snd ?R)) = ''5''" by code_simp
  with Spawn_boots [OF r] r show ?thesis
    by (intro exI [of _ v] exI [of _ "snd ?R"]) (simp add: sample_vms_def)
qed

text \<open>
  Result (a machine that does not). When \<open>Spawn\<close> fails, no process of it is left running, at
  whatever step it failed. Its tap device is: no command that was run takes it away again.
\<close>

theorem Spawn_fails:
  assumes "Spawn W cfg S = (Inl e, S')"
  shows "alive S' = alive S \<and>
    (\<exists>n. ran (vm_host S') = ran (vm_host S) @ take n (tap_commands cfg S @ [jailer_of cfg])) \<and>
    [''ip'', ''link'', ''del'', tap_name cfg] \<notin> set (tap_commands cfg S @ [jailer_of cfg])"
proof -
  have len: "length (tap_commands cfg S) = 3" by (simp add: tap_commands_def)
  have "alive S' = alive S \<and> (\<exists>n. ran (vm_host S') = ran (vm_host S) @ take n (tap_commands cfg S @ [jailer_of cfg]))"
    using assms
  proof (cases rule: Spawn_cases)
    case (no_tap e' n)
    then show ?thesis by (intro conjI exI [of _ n]) (simp_all add: len)
  next
    case (no_jailer e')
    then show ?thesis by (intro conjI exI [of _ 3]) (simp_all add: len)
  next
    case (no_socket p)
    then show ?thesis by (intro conjI exI [of _ 4]) (simp_all add: len)
  next
    case (not_configured e')
    then show ?thesis by (intro conjI exI [of _ 4]) (simp_all add: len)
  qed (simp_all add: exI [of _ 0])
  then show ?thesis by (simp add: tap_commands_def jailer_of_def jailer_args_def)
qed

theorem Spawn_fails_witness:
  "\<exists>e S'. Spawn (sample_world\<lparr>fc_answer := (\<lambda>u b. Inr 400)\<rparr>) sample_spawn sample_vms = (Inl e, S') \<and> alive S' = []"
proof -
  let ?R = "Spawn (sample_world\<lparr>fc_answer := (\<lambda>u b. Inr 400)\<rparr>) sample_spawn sample_vms"
  have "isl (fst ?R)" by code_simp
  then obtain e where r: "?R = (Inl e, snd ?R)" by (metis prod.collapse sum.collapse(1))
  from Spawn_fails [OF r] r show ?thesis
    by (intro exI [of _ e] exI [of _ "snd ?R"]) (simp add: sample_vms_def)
qed

text \<open>
  Result (the buyer's key). A micro VM is the same whatever SSH key the buyer asked for: the key
  is handed to \<open>Spawn\<close> and goes nowhere.
\<close>

theorem Spawn_ignores_key: "Spawn W (cfg\<lparr>sp_SSHPubKey := k\<rparr>) S = Spawn W cfg S"
proof -
  have c: "configure W v (cfg\<lparr>sp_SSHPubKey := k\<rparr>) T = configure W v cfg T" for v T
    by (simp add: configure_def root_drive_def machine_config_def)
  have a: "await_boot W (cfg\<lparr>sp_SSHPubKey := k\<rparr>) v T = await_boot W cfg v T" for v T
    unfolding await_boot_def c ..
  have n: "sp_JobID (cfg\<lparr>sp_SSHPubKey := k\<rparr>) = sp_JobID cfg" by simp
  show ?thesis unfolding Spawn_def n a ..
qed

fun tap_run :: "nat \<Rightarrow> vm_state \<Rightarrow> string list" where
  "tap_run 0 S = []"
| "tap_run (Suc n) S = (let ((vmIP, gwIP), S1) = allocateTapIP S in vmIP # tap_run n S1)"

lemma tap_run_values:
  assumes "0 \<le> ipCounter S" and "ipCounter S + 4 * int n < 2 ^ 63"
  shows "tap_run n S = map (\<lambda>k. ''172.16.'' @ show_int (ipCounter S + 4 * int k + 4) @ ''.2'') [0..<n]"
  using assms
proof (induction n arbitrary: S)
  case (Suc n)
  let ?S1 = "snd (allocateTapIP S)"
  have w: "wrap64 (ipCounter S + 4) = ipCounter S + 4" using Suc.prems by simp
  then have c: "ipCounter ?S1 = ipCounter S + 4" by (simp add: allocateTapIP_def Let_def)
  have "tap_run (Suc n) S = (''172.16.'' @ show_int (ipCounter S + 4) @ ''.2'') # tap_run n ?S1"
    by (simp add: allocateTapIP_def Let_def w)
  also have "tap_run n ?S1 = map (\<lambda>k. ''172.16.'' @ show_int (ipCounter S + 4 * int (Suc k) + 4) @ ''.2'') [0..<n]"
    using Suc.IH [of ?S1] Suc.prems c by (simp add: algebra_simps)
  finally show ?case by (simp add: upt_conv_Cons map_Suc_upt [symmetric] del: upt_Suc)
qed simp

lemma tap_ip_valid: "0 \<le> n \<Longrightarrow> is_ipv4 (''172.16.'' @ show_int n @ ''.2'') \<longleftrightarrow> n < 256"
proof -
  assume n: "0 \<le> n"
  have "show_nat 172 = ''172''" "show_nat 16 = ''16''" "show_nat 2 = ''2''" by code_simp+
  then have v: "value_of_digits ''172'' = 172" "value_of_digits ''16'' = 16" "value_of_digits ''2'' = 2"
    by (metis value_show_nat)+
  have "split_on (CHR ''.'') (''172.16.'' @ show_int n @ ''.2'') = [''172'', ''16'', show_int n, ''2'']"
    using split_on_append [OF no_dot_show_int, of n "''2''"] by simp
  then show ?thesis
    using n v \<open>show_nat 172 = ''172''\<close> \<open>show_nat 16 = ''16''\<close> \<open>show_nat 2 = ''2''\<close>
    by (auto simp: is_ipv4_def show_int_def)
qed

text \<open>What goroutines can see of the counter, in any schedule: it only moves on by steps of four, and never
  beyond four for each of them.\<close>

definition stored :: "access \<Rightarrow> bool" where
  "stored t \<longleftrightarrow> t = To_Reload \<or> (\<exists>g. t = Got g)"

definition counted :: "int \<Rightarrow> access list \<Rightarrow> int \<Rightarrow> bool" where
  "counted c0 ts c \<longleftrightarrow> (let k = int (length (filter stored ts)) in
     c0 \<le> c \<and> c \<le> c0 + 4 * k \<and> 4 dvd c - c0 \<and> (k > 0 \<longrightarrow> c0 + 4 \<le> c) \<and>
     (\<forall>m. To_Store m \<in> set ts \<longrightarrow> c0 + 4 \<le> m \<and> m \<le> c0 + 4 * (k + 1) \<and> 4 dvd m - c0) \<and>
     (\<forall>g. Got g \<in> set ts \<longrightarrow> c0 + 4 \<le> g \<and> g \<le> c0 + 4 * int (length ts) \<and> 4 dvd g - c0))"

lemma filter_update:
  "i < length xs \<Longrightarrow> int (length (filter P (xs[i := x]))) =
     int (length (filter P xs)) + (if P x then 1 else 0) - (if P (xs ! i) then 1 else 0)"
proof (induction xs arbitrary: i)
  case (Cons y ys)
  show ?case
  proof (cases i)
    case (Suc j)
    then show ?thesis using Cons.IH [of j] Cons.prems by (cases "P y") simp_all
  qed auto
qed simp

lemma access_counted:
  assumes "counted c0 ts c" and "i < length ts" and "access_step (ts ! i) c = (t, c')"
    and "0 \<le> c0" and "c0 + 4 * int (length ts) < 2 ^ 63"
  shows "counted c0 (ts[i := t]) c'"
proof -
  let ?k = "int (length (filter stored ts))"
  have k: "?k \<le> int (length ts)" by simp
  have mem: "ts ! i \<in> set ts" using assms(2) by simp
  have sub: "set (ts[i := t]) \<subseteq> insert t (set ts)" by (rule set_update_subset_insert)
  note inv = assms(1) [unfolded counted_def Let_def]
  have some: "?k > 0" if "stored (ts ! i)"
    using that mem by (metis filter_empty_conv length_greater_0_conv of_nat_0_less_iff)
  show ?thesis
  proof (cases "ts ! i")
    case To_Load
    then have t: "t = To_Store (wrap64 (c + 4))" "c' = c" using assms(3) by auto
    have n: "int (length (filter stored (ts[i := t]))) = ?k"
      using filter_update [OF assms(2), of stored t] by (simp add: t To_Load stored_def)
    have "?k < int (length ts)"
      using length_filter_less [OF mem, of stored] by (simp add: To_Load stored_def)
    then have "wrap64 (c + 4) = c + 4" using inv assms(4,5) by (intro wrap64_id) auto
    moreover have "4 dvd c - c0" using inv by simp
    then have "4 dvd c + 4 - c0" by presburger
    ultimately have new: "\<forall>m. To_Store m \<in> set (ts[i := t]) \<longrightarrow> c0 + 4 \<le> m \<and> m \<le> c0 + 4 * (?k + 1) \<and> 4 dvd m - c0"
      using inv sub t(1) by auto
    moreover have "Got g \<in> set (ts[i := t]) \<Longrightarrow> Got g \<in> set ts" for g using sub t(1) by auto
    ultimately show ?thesis using inv n t(2) unfolding counted_def Let_def by simp
  next
    case (To_Store m)
    then have t: "t = To_Reload" "c' = m" using assms(3) by auto
    have n: "int (length (filter stored (ts[i := t]))) = ?k + 1"
      using filter_update [OF assms(2), of stored t] by (simp add: t To_Store stored_def)
    have m: "c0 + 4 \<le> m" "m \<le> c0 + 4 * (?k + 1)" "4 dvd m - c0" using inv mem To_Store by auto
    have old: "To_Store m' \<in> set ts" if "To_Store m' \<in> set (ts[i := t])" for m' using that sub t(1) by auto
    have "Got g \<in> set ts" if "Got g \<in> set (ts[i := t])" for g using that sub t(1) by auto
    then have gots: "\<forall>g. Got g \<in> set (ts[i := t]) \<longrightarrow> c0 + 4 \<le> g \<and> g \<le> c0 + 4 * int (length ts) \<and> 4 dvd g - c0"
      using inv by blast
    have "m' \<le> c0 + 4 * (?k + 1 + 1)" if "m' \<le> c0 + 4 * (?k + 1)" for m' using that by simp
    then have "\<forall>m'. To_Store m' \<in> set (ts[i := t]) \<longrightarrow> c0 + 4 \<le> m' \<and> m' \<le> c0 + 4 * (?k + 1 + 1) \<and> 4 dvd m' - c0"
      using inv old by blast
    with gots n t(2) m show ?thesis unfolding counted_def Let_def by simp
  next
    case To_Reload
    then have t: "t = Got c" "c' = c" using assms(3) by auto
    have n: "int (length (filter stored (ts[i := t]))) = ?k"
      using filter_update [OF assms(2), of stored t] by (simp add: t To_Reload stored_def)
    have "c0 + 4 \<le> c" using inv some by (simp add: To_Reload stored_def)
    moreover have "c \<le> c0 + 4 * ?k" "4 dvd c - c0" using inv by blast+
    then have "c \<le> c0 + 4 * int (length ts) \<and> 4 dvd c - c0" using k by linarith
    ultimately have new: "\<forall>g. Got g \<in> set (ts[i := t]) \<longrightarrow> c0 + 4 \<le> g \<and> g \<le> c0 + 4 * int (length ts) \<and> 4 dvd g - c0"
      using inv sub t(1) by auto
    have "To_Store m \<in> set ts" if "To_Store m \<in> set (ts[i := t])" for m using that sub t(1) by auto
    then have "\<forall>m. To_Store m \<in> set (ts[i := t]) \<longrightarrow> c0 + 4 \<le> m \<and> m \<le> c0 + 4 * (?k + 1) \<and> 4 dvd m - c0"
      using inv by blast
    with new inv n t(2) show ?thesis unfolding counted_def Let_def by simp
  next
    case (Got g)
    then have "t = ts ! i" "c' = c" using assms(3) by auto
    then show ?thesis using assms(1) by simp
  qed
qed

lemma interleave_counted:
  assumes "counted c0 ts c" and "0 \<le> c0" and "c0 + 4 * int (length ts) < 2 ^ 63"
  shows "case interleave sched ts c of (ts', c') \<Rightarrow> length ts' = length ts \<and> counted c0 ts' c'"
  using assms
proof (induction sched arbitrary: ts c)
  case (Cons i sched)
  show ?case
  proof (cases "i < length ts")
    case True
    obtain t c' where a: "access_step (ts ! i) c = (t, c')" by fastforce
    from Cons.IH [OF access_counted [OF Cons.prems(1) True a Cons.prems(2,3)]] Cons.prems True a show ?thesis by simp
  qed (use Cons in simp)
qed simp

text \<open>
  C33 (addresses of machines). The addresses that a provider gives its machines after its start, one
  allocation after the other, are distinct, but only the first 63 are IPv4 addresses; from then on
  the third field is 257 or more, and no machine can be set up until the agent is restarted. Goroutines
  that allocate at the same time stay within the same numbers, whatever their schedule, but two of them
  can get the same address.
\<close>

theorem tap_addresses:
  assumes "ipCounter S = 1" and "n < 2 ^ 60"
  shows "length (tap_run n S) = n \<and> distinct (tap_run n S) \<and>
    (\<forall>k < n. tap_run n S ! k = ''172.16.'' @ show_int (4 * int k + 5) @ ''.2'' \<and> (is_ipv4 (tap_run n S ! k) \<longleftrightarrow> k < 63)) \<and>
    (\<forall>sched g. Got g \<in> set (fst (interleave sched (replicate n To_Load) (ipCounter S))) \<longrightarrow> (\<exists>k < n. g = 4 * int k + 5)) \<and>
    (\<exists>sched. fst (interleave sched [To_Load, To_Load] (ipCounter S)) = [Got 5, Got 5])"
proof -
  have b: "ipCounter S + 4 * int n < 2 ^ 63" using assms by simp
  from tap_run_values [OF _ this] assms(1)
  have r: "tap_run n S = map (\<lambda>k. ''172.16.'' @ show_int (4 * int k + 5) @ ''.2'') [0..<n]"
    by (simp add: algebra_simps)
  have "is_ipv4 (tap_run n S ! k) \<longleftrightarrow> k < 63" if "k < n" for k
    using that tap_ip_valid [of "4 * int k + 5"] by (auto simp: r)
  moreover have "distinct (tap_run n S)"
    by (simp add: r distinct_map inj_on_def)
  moreover have "\<exists>k < n. g = 4 * int k + 5"
    if "Got g \<in> set (fst (interleave sched (replicate n To_Load) (ipCounter S)))" for sched g
  proof -
    have "counted 1 (replicate n To_Load) 1" by (simp add: counted_def stored_def)
    from interleave_counted [OF this, of sched] b assms(1) that
    have g: "5 \<le> g" "g \<le> 1 + 4 * int n" "4 dvd g - 1"
      by (auto simp: counted_def Let_def split: prod.splits)
    then obtain q where q: "g = 1 + 4 * q" by (auto elim!: dvdE simp: algebra_simps)
    with g have "0 < q" "q \<le> int n" by simp_all
    then show ?thesis by (intro exI [of _ "nat (q - 1)"]) (auto simp: q)
  qed
  moreover have "interleave [0, 1, 0, 1, 0, 1] [To_Load, To_Load] 1 = ([Got 5, Got 5], 5)" by code_simp
  then have "\<exists>sched. fst (interleave sched [To_Load, To_Load] (ipCounter S)) = [Got 5, Got 5]"
    unfolding assms(1) by (intro exI [of _ "[0, 1, 0, 1, 0, 1]"]) simp
  ultimately show ?thesis by (simp add: r)
qed

theorem tap_addresses_witness:
  "tap_run 2 sample_vms = [''172.16.5.2'', ''172.16.9.2''] \<and> is_ipv4 (tap_run 70 sample_vms ! 62) \<and>
   \<not> is_ipv4 (tap_run 70 sample_vms ! 63)"
proof -
  have "tap_run 2 sample_vms = [''172.16.5.2'', ''172.16.9.2'']" by code_simp
  moreover have "ipCounter sample_vms = 1" by (simp add: sample_vms_def)
  have "(70 :: nat) < 2 ^ 60" by simp
  from tap_addresses [OF \<open>ipCounter sample_vms = 1\<close> this]
  have "\<forall>k < 70. is_ipv4 (tap_run 70 sample_vms ! k) \<longleftrightarrow> k < 63" by blast
  then have "is_ipv4 (tap_run 70 sample_vms ! 62) \<and> \<not> is_ipv4 (tap_run 70 sample_vms ! 63)" by auto
  ultimately show ?thesis by blast
qed

end
