(* ===== verification/Container.thy ===== *)
theory Container
  imports Host
begin

text \<open>
  Containers, where there is no KVM (\<open>internal/vm/container.go\<close>): \<open>docker run\<close>, the address
  from \<open>docker inspect\<close>, and \<open>docker rm\<close>. Slicing an id that is shorter than 12 bytes panics,
  in the log line of a success as in the error of a container without address.
\<close>

record container_vm =
  ct_JobID :: string
  ct_containerID :: string
  ct_ip :: string

record container_config =
  cc_JobID :: string
  cc_ImageRef :: string
  cc_CPUCores :: int
  cc_MemoryMB :: int
  cc_SSHPubKey :: string

definition docker_run :: "container_config \<Rightarrow> string list" where
  "docker_run cfg =
     [''docker'', ''run'', ''-d'', ''--name'', ''dcp-'' @ cc_JobID cfg, ''--cpus'', show_int (cc_CPUCores cfg),
      ''--memory'', show_int (cc_MemoryMB cfg) @ ''m'', ''--label'', ''dcp.job='' @ cc_JobID cfg,
      ''--env'', ''DCP_SSH_PUBKEY='' @ cc_SSHPubKey cfg, cc_ImageRef cfg]"

definition docker_inspect :: "string \<Rightarrow> string list" where
  "docker_inspect i =
     [''docker'', ''inspect'', ''-f'', ''{{range .NetworkSettings.Networks}}{{.IPAddress}}{{end}}'', i]"

definition docker_rm :: "string \<Rightarrow> string list" where
  "docker_rm i = [''docker'', ''rm'', ''-f'', i]"

definition out_of_range :: go_error where
  "out_of_range = Panic ''slice bounds out of range''"

definition containerIP :: "string \<Rightarrow> host \<Rightarrow> string result \<times> host" where
  "containerIP i H =
     (case Output (docker_inspect i) [] H of
        (Inl e, H1) \<Rightarrow> (Inl (Errorf ''docker inspect: '' e []), H1)
      | (Inr out, H1) \<Rightarrow>
          (let ip = trim_space out in
           if ip = [] then
             (if length i < 12 then (Inl out_of_range, H1)
              else (Inl (Plain (''container '' @ take 12 i @ '' has no IP'')), H1))
           else (Inr ip, H1)))"

definition is_panic :: "go_error \<Rightarrow> bool" where
  "is_panic e \<longleftrightarrow> (case e of Panic m \<Rightarrow> True | _ \<Rightarrow> False)"

text \<open>A panic unwinds: what follows the call is not run.\<close>

definition SpawnContainer :: "container_config \<Rightarrow> host \<Rightarrow> container_vm result \<times> host" where
  "SpawnContainer cfg H =
     (case Output (docker_run cfg) [] H of
        (Inl e, H1) \<Rightarrow> (Inl (Errorf ''docker run: '' e []), H1)
      | (Inr out, H1) \<Rightarrow>
          (let i = trim_space out in
           case containerIP i H1 of
             (Inl e, H2) \<Rightarrow> if is_panic e then (Inl e, H2) else (Inl e, snd (Run (docker_rm i) H2))
           | (Inr ip, H2) \<Rightarrow>
               if length i < 12 then (Inl out_of_range, H2)
               else (Inr \<lparr>ct_JobID = cc_JobID cfg, ct_containerID = i, ct_ip = ip\<rparr>, H2)))"

definition Kill_container :: "container_vm \<Rightarrow> host \<Rightarrow> host" where
  "Kill_container c H = snd (Run (docker_rm (ct_containerID c)) H)"


section \<open>Facts\<close>

text \<open>What \<open>docker\<close> answers to the two calls decides how far \<open>SpawnContainer\<close> gets.\<close>

lemma Output_cases:
  obtains (failed) e where "Output argv i H = (Inl e, snd (Output argv i H))" "snd (answer (machine H) (ran H) argv i) = Some e"
  | (printed) out where "Output argv i H = (Inr out, snd (Output argv i H))" "answer (machine H) (ran H) argv i = (out, None)"
  by (cases "answer (machine H) (ran H) argv i"; cases "snd (answer (machine H) (ran H) argv i)")
    (simp_all add: Output_def Exec_def)

lemma containerIP_ran: "ran (snd (containerIP i H)) = ran H @ [docker_inspect i]"
proof -
  have "snd (containerIP i H) = snd (Output (docker_inspect i) [] H)"
    by (auto simp: containerIP_def Let_def split: prod.splits sum.splits)
  then show ?thesis by simp
qed


section \<open>Properties\<close>

text \<open>
  Result (containers). A container that is returned was started with exactly the arguments of the
  job, has a non-empty address and a long enough id. If it was started but has no address, it
  is removed again, unless its id is so short that the error message panics; if it was not
  started, nothing else is run.
\<close>

theorem SpawnContainer_result:
  assumes "SpawnContainer cfg H = (r, H')"
  shows "(\<forall>c. r = Inr c \<longrightarrow> ct_JobID c = cc_JobID cfg \<and> ct_ip c \<noteq> [] \<and> 12 \<le> length (ct_containerID c) \<and>
      ran H' = ran H @ [docker_run cfg, docker_inspect (ct_containerID c)]) \<and>
    (\<forall>e. r = Inl e \<longrightarrow> ran H' = ran H @ [docker_run cfg] \<or>
      (\<exists>i. ran H' = ran H @ [docker_run cfg, docker_inspect i, docker_rm i]) \<or>
      (\<exists>i. length i < 12 \<and> e = out_of_range \<and> ran H' = ran H @ [docker_run cfg, docker_inspect i]))"
proof -
  obtain o1 H1 where run: "Output (docker_run cfg) [] H = (o1, H1)" by fastforce
  then have h1: "ran H1 = ran H @ [docker_run cfg]" using Output_sel(1) [of "docker_run cfg" "[]" H] by simp
  show ?thesis
  proof (cases o1)
    case (Inl e)
    with assms run h1 show ?thesis by (auto simp: SpawnContainer_def)
  next
    case (Inr out)
    let ?i = "trim_space out"
    obtain o2 H2 where ip: "containerIP ?i H1 = (o2, H2)" by fastforce
    then have h2: "ran H2 = ran H @ [docker_run cfg, docker_inspect ?i]" using containerIP_ran [of ?i H1] h1 by simp
    show ?thesis
    proof (cases o2)
      case e: (Inl e)
      have "is_panic e \<Longrightarrow> (\<forall>out. snd (Output (docker_inspect ?i) [] H1) = H2 \<longrightarrow> length ?i < 12 \<and> e = out_of_range \<or>
          (\<exists>e'. e = Errorf ''docker inspect: '' e' []))"
        using ip e by (auto simp: containerIP_def is_panic_def Let_def split: prod.splits sum.splits if_splits)
      moreover have "snd (Output (docker_inspect ?i) [] H1) = H2"
        using ip by (auto simp: containerIP_def Let_def split: prod.splits sum.splits if_splits)
      ultimately have "is_panic e \<Longrightarrow> length ?i < 12 \<and> e = out_of_range" by (auto simp: is_panic_def)
      with assms run Inr ip e h2 show ?thesis
        by (cases "is_panic e") (auto simp: SpawnContainer_def Let_def)
    next
      case a: (Inr a)
      then have "a \<noteq> []" using ip by (auto simp: containerIP_def Let_def split: prod.splits sum.splits if_splits)
      with assms run Inr ip a h2 show ?thesis
        by (auto simp: SpawnContainer_def Let_def split: if_splits)
    qed
  qed
qed

definition docker_host :: host where
  "docker_host = plain_host\<lparr>machine := plain_machine\<lparr>answer := (\<lambda>h a i.
     (if h = [] then ''0123456789abcdef'' else ''10.0.0.2'', None))\<rparr>\<rparr>"

definition sample_container :: container_config where
  "sample_container = \<lparr>cc_JobID = ''j'', cc_ImageRef = ''img'', cc_CPUCores = 1, cc_MemoryMB = 64, cc_SSHPubKey = ''k''\<rparr>"

theorem SpawnContainer_result_witness:
  "\<exists>c H'. SpawnContainer sample_container docker_host = (Inr c, H') \<and>
     ran H' = [docker_run sample_container, docker_inspect (ct_containerID c)]"
proof -
  let ?R = "SpawnContainer sample_container docker_host"
  have "\<not> isl (fst ?R)" by code_simp
  then obtain c where r: "?R = (Inr c, snd ?R)" by (metis prod.collapse sum.collapse(2))
  have "ran docker_host = []" by (simp add: docker_host_def plain_host_def)
  with SpawnContainer_result [OF r] r show ?thesis by (metis append_Nil)
qed

end
