(* ===== verification/Passthrough.thy ===== *)
theory Passthrough
  imports Host
begin

text \<open>
  The device itself as compute endpoint (\<open>internal/vm/ssh.go\<close>): its SSH port, and the buyer's key
  in \<open>~/.ssh/authorized_keys\<close>. Parsing and printing of keys belong to \<open>golang.org/x/crypto/ssh\<close>
  and are a parameter, as is what a write to the opened file returns.
\<close>

record ssh_passthrough =
  pt_JobID :: string
  pt_ip :: string
  pt_port :: int

record ssh_config =
  sc_JobID :: string
  sc_WireGuardIP :: string
  sc_SSHPort :: int
  sc_SSHPubKey :: string

record 'k key_lib =
  ParseKey :: "string \<Rightarrow> 'k result"
  MarshalKey :: "'k \<Rightarrow> string"
  append_error :: "go_error option"

definition detectSSHPort :: "host \<Rightarrow> int \<times> host" where
  "detectSSHPort H =
     (let (err, H') = Run [''getprop'', ''ro.build.version.sdk''] H in (if err = None then 8022 else 22, H'))"

definition UserHomeDir :: "host \<Rightarrow> string result" where
  "UserHomeDir H =
     (if getenv (machine H) ''HOME'' = [] then Inl (Plain ''$HOME is not defined'') else Inr (getenv (machine H) ''HOME''))"

definition same_line :: "string \<Rightarrow> string \<Rightarrow> bool" where
  "same_line text canonical \<longleftrightarrow> (\<exists>l \<in> set (split_on (CHR 0x0A) text). trim_space l = canonical)"

text \<open>\<open>OpenFile\<close> with \<open>O_APPEND|O_CREATE\<close>, then one write.\<close>

definition open_append :: "'k key_lib \<Rightarrow> string \<Rightarrow> string \<Rightarrow> host \<Rightarrow> go_error option \<times> host" where
  "open_append L path text H =
     (case write_error (machine H) path of
        Some e \<Rightarrow> (Some (Errorf ''open authorized_keys: '' e []), H)
      | None \<Rightarrow>
          (case append_error L of
             Some e \<Rightarrow> (Some (Errorf ''write authorized_keys: '' e []), snd (AppendFile path [] 0x180 H))
           | None \<Rightarrow> AppendFile path text 0x180 H))"

definition authorizeKey :: "'k key_lib \<Rightarrow> string \<Rightarrow> host \<Rightarrow> go_error option \<times> host" where
  "authorizeKey L pubKey H =
     (case ParseKey L pubKey of
        Inl e \<Rightarrow> (Some (Errorf ''reject invalid SSH public key: '' e []), H)
      | Inr parsed \<Rightarrow>
        (let canonical = trim_space (MarshalKey L parsed) in
         case UserHomeDir H of
           Inl e \<Rightarrow> (Some (Errorf ''resolve home dir: '' e []), H)
         | Inr home \<Rightarrow>
           (let sshDir = join_path [home, ''.ssh''] in
            case MkdirAll sshDir H of
              Some e \<Rightarrow> (Some (Errorf ''mkdir ~/.ssh: '' e []), H)
            | None \<Rightarrow>
              (let akPath = join_path [sshDir, ''authorized_keys''] in
               case ReadFile akPath H of
                 Inr existing \<Rightarrow>
                   if same_line existing canonical then (None, H)
                   else open_append L akPath (canonical @ [CHR 0x0A]) H
               | Inl _ \<Rightarrow> open_append L akPath (canonical @ [CHR 0x0A]) H))))"

definition SpawnSSH :: "'k key_lib \<Rightarrow> ssh_config \<Rightarrow> host \<Rightarrow> ssh_passthrough result \<times> host" where
  "SpawnSSH L cfg H =
     (let (port, H1) = (if sc_SSHPort cfg = 0 then detectSSHPort H else (sc_SSHPort cfg, H));
          vm = \<lparr>pt_JobID = sc_JobID cfg, pt_ip = sc_WireGuardIP cfg, pt_port = port\<rparr>
      in if sc_SSHPubKey cfg = [] then (Inr vm, H1)
         else (case authorizeKey L (sc_SSHPubKey cfg) H1 of
             (Some e, H2) \<Rightarrow> (Inl (Errorf ''authorize key: '' e []), H2)
           | (None, H2) \<Rightarrow> (Inr vm, H2)))"

definition ak_path :: "host \<Rightarrow> string" where
  "ak_path H = join_path [join_path [getenv (machine H) ''HOME'', ''.ssh''], ''authorized_keys'']"

text \<open>What the program compares a key with: the lines of a file, trimmed. (Blank ones equal no key. A server
  reads more from a line: options, and a comment at its end.)\<close>

definition key_lines :: "string \<Rightarrow> string list" where
  "key_lines text = filter (\<lambda>l. l \<noteq> []) (map trim_space (split_on (CHR 0x0A) text))"

definition ak_text :: "host \<Rightarrow> string" where
  "ak_text H = (case files H (ak_path H) of None \<Rightarrow> [] | Some f \<Rightarrow> contents f)"

text \<open>A text that was written in whole lines.\<close>

definition whole_lines :: "string \<Rightarrow> bool" where
  "whole_lines t \<longleftrightarrow> t = [] \<or> last t = CHR 0x0A"



section \<open>Facts\<close>

lemma same_line_iff: "c \<noteq> [] \<Longrightarrow> same_line t c \<longleftrightarrow> c \<in> set (key_lines t)"
  by (auto simp: same_line_def key_lines_def)

lemma key_lines_append:
  assumes "whole_lines t" and "CHR 0x0A \<notin> set c" and "trim_space c = c" and "c \<noteq> []"
  shows "key_lines (t @ c @ [CHR 0x0A]) = key_lines t @ [c]"
proof -
  have e: "trim_space [] = []" by (simp add: trim_space_def)
  have c: "split_on (CHR 0x0A) (c @ [CHR 0x0A]) = [c, []]"
    using split_on_append [OF assms(2), of "[]"] by simp
  show ?thesis
  proof (cases "t = []")
    case True
    then show ?thesis using c assms(3,4) by (simp add: key_lines_def e)
  next
    case False
    with assms(1) obtain u where t: "t = u @ [CHR 0x0A]"
      by (metis append_butlast_last_id whole_lines_def)
    then have "split_on (CHR 0x0A) (t @ c @ [CHR 0x0A]) = split_on (CHR 0x0A) u @ [c, []]"
      using split_on_at [of "CHR 0x0A" u "c @ [CHR 0x0A]"] c by simp
    moreover have "split_on (CHR 0x0A) t = split_on (CHR 0x0A) u @ [[]]"
      using split_on_at [of "CHR 0x0A" u "[]"] t by simp
    ultimately show ?thesis using assms(3,4) by (simp add: key_lines_def e)
  qed
qed

lemma authorizeKey_dir:
  assumes "authorizeKey L pubKey H = (None, H')" and "ParseKey L pubKey = Inr p"
  shows "getenv (machine H) ''HOME'' \<noteq> []" and "UserHomeDir H = Inr (getenv (machine H) ''HOME'')"
    and "MkdirAll (join_path [getenv (machine H) ''HOME'', ''.ssh'']) H = None"
proof -
  show home: "getenv (machine H) ''HOME'' \<noteq> []"
    using assms by (auto simp: authorizeKey_def UserHomeDir_def Let_def)
  then show u: "UserHomeDir H = Inr (getenv (machine H) ''HOME'')" by (simp add: UserHomeDir_def)
  show "MkdirAll (join_path [getenv (machine H) ''HOME'', ''.ssh'']) H = None"
    using assms u by (auto simp: authorizeKey_def Let_def split: option.splits)
qed

text \<open>A key that is accepted: found in the file, or appended to it.\<close>

lemma authorizeKey_None:
  assumes "authorizeKey L pubKey H = (None, H')" and "read_error (machine H) (ak_path H) = None"
    and "ParseKey L pubKey = Inr p" and "trim_space (MarshalKey L p) = c"
  obtains (known) "same_line (ak_text H) c" "files H (ak_path H) \<noteq> None" "H' = H"
  | (added) "\<not> same_line (ak_text H) c \<or> files H (ak_path H) = None"
      "AppendFile (ak_path H) (c @ [CHR 0x0A]) 0x180 H = (None, H')"
      "write_error (machine H) (ak_path H) = None" "append_error L = None"
proof -
  note home = authorizeKey_dir(2) [OF assms(1,3)] and dir = authorizeKey_dir(3) [OF assms(1,3)]
  have run: "(case ReadFile (ak_path H) H of
      Inr existing \<Rightarrow> if same_line existing c then (None, H) else open_append L (ak_path H) (c @ [CHR 0x0A]) H
    | Inl _ \<Rightarrow> open_append L (ak_path H) (c @ [CHR 0x0A]) H) = (None, H')"
    unfolding ak_path_def using assms(1,3,4) home dir by (simp add: authorizeKey_def Let_def)
  have app: "AppendFile (ak_path H) (c @ [CHR 0x0A]) 0x180 H = (None, H') \<and>
      write_error (machine H) (ak_path H) = None \<and> append_error L = None"
    if "open_append L (ak_path H) (c @ [CHR 0x0A]) H = (None, H')"
    using that by (auto simp: open_append_def split: option.splits)
  show thesis
  proof (cases "files H (ak_path H)")
    case None
    with run assms(2) have "open_append L (ak_path H) (c @ [CHR 0x0A]) H = (None, H')" by (simp add: ReadFile_def)
    from app [OF this] None show thesis by (intro added) simp_all
  next
    case (Some f)
    then have r: "ReadFile (ak_path H) H = Inr (ak_text H)" using assms(2) by (simp add: ReadFile_def ak_text_def)
    show thesis
    proof (cases "same_line (ak_text H) c")
      case True
      with run r Some show thesis by (intro known) simp_all
    next
      case False
      with run r have "open_append L (ak_path H) (c @ [CHR 0x0A]) H = (None, H')" by simp
      from app [OF this] False show thesis by (intro added) simp_all
    qed
  qed
qed

lemma AppendFile_ok:
  "AppendFile p t m H = (None, H') \<Longrightarrow> machine H' = machine H \<and> ran H' = ran H \<and>
     (\<exists>f. files H' p = Some f \<and> contents f = (case files H p of None \<Rightarrow> [] | Some f \<Rightarrow> contents f) @ t)"
  by (auto simp: AppendFile_def split: option.splits)

lemma ak_path_machine: "machine H' = machine H \<Longrightarrow> ak_path H' = ak_path H"
  by (simp add: ak_path_def)

text \<open>A key that is in the file is accepted at once.\<close>

lemma authorizeKey_again:
  assumes "authorizeKey L pubKey H = (None, H')" and "read_error (machine H) (ak_path H) = None"
    and "ParseKey L pubKey = Inr p" and "trim_space (MarshalKey L p) = c" and "machine H' = machine H"
    and "same_line (ak_text H') c" and "files H' (ak_path H') \<noteq> None"
  shows "authorizeKey L pubKey H' = (None, H')"
proof -
  have home: "UserHomeDir H' = Inr (getenv (machine H) ''HOME'')"
    using authorizeKey_dir(1) [OF assms(1,3)] assms(5) by (simp add: UserHomeDir_def)
  have dir: "MkdirAll (join_path [getenv (machine H) ''HOME'', ''.ssh'']) H' = None"
    using authorizeKey_dir(3) [OF assms(1,3)] assms(5) by (simp add: MkdirAll_def)
  obtain f where f: "files H' (ak_path H') = Some f" using assms(7) by blast
  then have "ReadFile (ak_path H') H' = Inr (ak_text H')"
    using assms(2,5) ak_path_machine [OF assms(5)] by (simp add: ReadFile_def ak_text_def)
  then show ?thesis
    using assms(3,4,6) home dir assms(5) ak_path_machine [OF assms(5)]
    by (simp add: authorizeKey_def Let_def ak_path_def)
qed


text \<open>One that is not is appended.\<close>

lemma authorizeKey_unknown:
  assumes "authorizeKey L pubKey H = (None, H')" and "read_error (machine H) (ak_path H) = None"
    and "ParseKey L pubKey = Inr p" and "trim_space (MarshalKey L p) = c" and "machine H' = machine H"
    and "\<not> same_line (ak_text H') c" and "files H' (ak_path H') \<noteq> None"
  shows "authorizeKey L pubKey H' = open_append L (ak_path H') (c @ [CHR 0x0A]) H'"
proof -
  have home: "UserHomeDir H' = Inr (getenv (machine H) ''HOME'')"
    using authorizeKey_dir(1) [OF assms(1,3)] assms(5) by (simp add: UserHomeDir_def)
  have dir: "MkdirAll (join_path [getenv (machine H) ''HOME'', ''.ssh'']) H' = None"
    using authorizeKey_dir(3) [OF assms(1,3)] assms(5) by (simp add: MkdirAll_def)
  have "ReadFile (ak_path H') H' = Inr (ak_text H')"
    using assms(2,5,7) ak_path_machine [OF assms(5)] by (auto simp: ReadFile_def ak_text_def)
  then show ?thesis
    using assms(3-6) home dir ak_path_machine [OF assms(5)] by (simp add: authorizeKey_def Let_def ak_path_def)
qed


section \<open>Properties\<close>

text \<open>
  Result (authorized keys). Accepting a key leaves every line of the file where it was and adds
  the canonical form of the new one at the end, unless it is there already; doing it again
  changes nothing, and no program is run on the way. The file must hold whole lines.
\<close>

theorem authorizeKey_adds:
  assumes "authorizeKey L pubKey H = (None, H')" and "read_error (machine H) (ak_path H) = None"
    and "ParseKey L pubKey = Inr p" and "trim_space (MarshalKey L p) = c" and "c \<noteq> []" and "CHR 0x0A \<notin> set c"
    and "whole_lines (ak_text H)"
  shows "key_lines (ak_text H') =
      (if c \<in> set (key_lines (ak_text H)) then key_lines (ak_text H) else key_lines (ak_text H) @ [c]) \<and>
    whole_lines (ak_text H') \<and> ran H' = ran H \<and> authorizeKey L pubKey H' = (None, H')"
  using assms(1-4)
proof (cases rule: authorizeKey_None)
  case known
  with assms same_line_iff [OF assms(5)] show ?thesis by simp
next
  case added
  note a = AppendFile_ok [OF added(2)]
  have e: "files H (ak_path H) = None \<Longrightarrow> ak_text H = []" by (simp add: ak_text_def)
  have t: "ak_text H' = ak_text H @ c @ [CHR 0x0A]"
    using a ak_path_machine [of H' H] by (auto simp: ak_text_def split: option.splits)
  have "trim_space c = c" using assms(4) trim_space_ends trim_space_idI by metis
  from key_lines_append [OF assms(7,6) this assms(5)] have k: "key_lines (ak_text H') = key_lines (ak_text H) @ [c]"
    by (simp add: t)
  then have s: "same_line (ak_text H') c" using same_line_iff [OF assms(5)] by simp
  have "c \<notin> set (key_lines (ak_text H))"
    using added(1) e same_line_iff [OF assms(5), of "ak_text H"] by (auto simp: key_lines_def trim_space_def)
  moreover have "authorizeKey L pubKey H' = (None, H')"
    by (rule authorizeKey_again [OF assms(1-4) _ s]) (use a ak_path_machine [of H' H] in auto)
  moreover have "whole_lines (ak_text H')" by (simp add: t whole_lines_def)
  ultimately show ?thesis using k a by simp
qed

definition plain_keys :: "string key_lib" where
  "plain_keys = \<lparr>ParseKey = Inr, MarshalKey = (\<lambda>k. k), append_error = None\<rparr>"

definition home_host :: "string \<Rightarrow> host" where
  "home_host text = plain_host\<lparr>machine := plain_machine\<lparr>getenv := (\<lambda>v. ''/h'')\<rparr>,
     files := [''/h/.ssh/authorized_keys'' \<mapsto> \<lparr>contents = text, mode = 0x180\<rparr>]\<rparr>"

lemma home_host_path: "ak_path (home_host text) = ''/h/.ssh/authorized_keys''"
  by (simp add: ak_path_def home_host_def join_path_def)

lemma home_host_text: "ak_text (home_host text) = text"
  unfolding ak_text_def home_host_path by (simp add: home_host_def)

theorem authorizeKey_adds_witness:
  "\<exists>H'. authorizeKey plain_keys ''k2'' (home_host (''k1'' @ [CHR 0x0A])) = (None, H') \<and>
     key_lines (ak_text H') = [''k1'', ''k2''] \<and> authorizeKey plain_keys ''k2'' H' = (None, H')"
proof -
  let ?H = "home_host (''k1'' @ [CHR 0x0A])"
  have "fst (authorizeKey plain_keys ''k2'' ?H) = None" by code_simp
  then have run: "authorizeKey plain_keys ''k2'' ?H = (None, snd (authorizeKey plain_keys ''k2'' ?H))"
    by (metis prod.collapse)
  have r: "read_error (machine ?H) (ak_path ?H) = None" by (simp add: home_host_def plain_machine_def)
  have p: "ParseKey plain_keys ''k2'' = Inr ''k2''" "trim_space (MarshalKey plain_keys ''k2'') = ''k2''"
    by (simp_all add: plain_keys_def trim_space_def is_space_def)
  have k: "key_lines (ak_text ?H) = [''k1'']" "whole_lines (ak_text ?H)"
    unfolding home_host_text by code_simp+
  from authorizeKey_adds [OF run r p _ _ k(2)] k(1) run show ?thesis
    by (intro exI [of _ "snd (authorizeKey plain_keys ''k2'' ?H)"]) simp
qed

lemma same_line_at: "same_line (s @ CHR 0x0A # t) c \<longleftrightarrow> same_line s c \<or> same_line t c"
  by (auto simp: same_line_def split_on_at)

lemma same_line_after:
  assumes "whole_lines s"
  shows "same_line (s @ t) c \<longleftrightarrow> s \<noteq> [] \<and> same_line (butlast s) c \<or> same_line t c"
proof (cases "s = []")
  case False
  then have "s @ t = butlast s @ CHR 0x0A # t"
    using assms append_butlast_last_id [of s] by (simp add: whole_lines_def)
  then show ?thesis using False by (simp only: same_line_at) blast
qed simp

lemma same_line_single: "CHR 0x0A \<notin> set l \<Longrightarrow> same_line l c \<longleftrightarrow> trim_space l = c"
  by (simp add: same_line_def split_on_free)

lemma trim_space_joined:
  assumes "trim_space l \<noteq> []" and "trim_space c = c" and "c \<noteq> []"
  shows "trim_space (l @ c) \<noteq> c"
proof -
  obtain x where "x \<in> set l" "\<not> is_space x"
    using assms(1) dropWhile_eq_Nil_conv [of is_space l] by (auto simp: trim_space_def dest: set_dropWhileD)
  then have l: "dropWhile is_space (l @ c) = dropWhile is_space l @ c" "dropWhile is_space l \<noteq> []"
    by (auto simp: dropWhile_append1 dropWhile_eq_Nil_conv)
  have "\<not> is_space (last c)" using assms(2,3) trim_space_ends [of c] by simp
  then have "dropWhile is_space (rev c @ rest) = rev c @ rest" for rest
    using assms(3) by (cases c rule: rev_cases) simp_all
  then show ?thesis using l by (simp add: trim_space_def)
qed

text \<open>
  C34 (a file without a last line end). If the last line of the file is not ended, and neither it nor a line
  before it is the new key, the key is written on to that line and the call reports success; but the comparison
  that the program makes itself does not find the key in the file, so the next call for the same key adds it once more,
  now on a line of its own.
\<close>

theorem authorizeKey_joins_lines:
  assumes "authorizeKey L pubKey H = (None, H')" and "read_error (machine H) (ak_path H) = None"
    and "ParseKey L pubKey = Inr p" and "trim_space (MarshalKey L p) = c" and "c \<noteq> []" and "CHR 0x0A \<notin> set c"
    and "files H (ak_path H) = Some f" and "contents f = whole @ rest" and "whole_lines whole"
    and "CHR 0x0A \<notin> set rest" and "trim_space rest \<noteq> []" and "\<not> same_line (contents f) c"
  shows "ak_text H' = contents f @ c @ [CHR 0x0A] \<and> \<not> same_line (ak_text H') c \<and>
    (\<exists>H''. authorizeKey L pubKey H' = (None, H'') \<and> ak_text H'' = ak_text H' @ c @ [CHR 0x0A] \<and> same_line (ak_text H'') c)"
proof -
  have t: "ak_text H = whole @ rest" using assms(7,8) by (simp add: ak_text_def)
  have c: "trim_space c = c" using assms(4) trim_space_ends trim_space_idI by metis
  from assms(1-4) have added: "AppendFile (ak_path H) (c @ [CHR 0x0A]) 0x180 H = (None, H')"
      "write_error (machine H) (ak_path H) = None" "append_error L = None"
    by (cases rule: authorizeKey_None; use assms(7,8,12) t in simp)+
  have m: "machine H' = machine H" "ak_path H' = ak_path H"
    using AppendFile_ok [OF added(1)] ak_path_machine [of H' H] by auto
  have t': "ak_text H' = contents f @ c @ [CHR 0x0A]"
    using AppendFile_ok [OF added(1)] m(2) assms(7) by (auto simp: ak_text_def)
  have there: "files H' (ak_path H') \<noteq> None"
    using AppendFile_ok [OF added(1)] m(2) by auto
  have e: "\<not> same_line [] c" using assms(5) by (simp add: same_line_def trim_space_def)
  have "\<not> same_line (rest @ c) c"
    using same_line_single [of "rest @ c" c] trim_space_joined [OF assms(11) c assms(5)] assms(6,10) by simp
  then have "\<not> same_line ((rest @ c) @ CHR 0x0A # []) c"
    using e by (simp only: same_line_at simp_thms)
  moreover have "\<not> (whole \<noteq> [] \<and> same_line (butlast whole) c)"
    using assms(12) by (simp add: assms(8) same_line_after [OF assms(9)])
  ultimately have n: "\<not> same_line (ak_text H') c"
    using same_line_after [OF assms(9), of "rest @ c @ [CHR 0x0A]" c] by (simp add: t' assms(8))
  obtain H'' where h: "AppendFile (ak_path H') (c @ [CHR 0x0A]) 0x180 H' = (None, H'')"
    using added(2) m by (simp add: AppendFile_def split: option.splits)
  have "authorizeKey L pubKey H' = open_append L (ak_path H') (c @ [CHR 0x0A]) H'"
    by (rule authorizeKey_unknown [OF assms(1-4) m(1) n there])
  then have run: "authorizeKey L pubKey H' = (None, H'')"
    using h added(2,3) m by (simp add: open_append_def)
  have t'': "ak_text H'' = ak_text H' @ c @ [CHR 0x0A]"
    using AppendFile_ok [OF h] there ak_path_machine [of H'' H'] by (auto simp: ak_text_def)
  have "whole_lines (ak_text H')" by (simp add: t' whole_lines_def)
  moreover have "same_line (c @ CHR 0x0A # []) c"
    using same_line_single [OF assms(6), of c] c by (simp only: same_line_at simp_thms)
  ultimately have "same_line (ak_text H'') c"
    using same_line_after [of "ak_text H'" "c @ [CHR 0x0A]" c] by (simp add: t'')
  with t' n run t'' show ?thesis by blast
qed

theorem authorizeKey_joins_lines_witness:
  "\<exists>H' H''. authorizeKey plain_keys ''k2'' (home_host (''k0'' @ [CHR 0x0A] @ ''k1'')) = (None, H') \<and>
     ak_text H' = ''k0'' @ [CHR 0x0A] @ ''k1k2'' @ [CHR 0x0A] \<and>
     authorizeKey plain_keys ''k2'' H' = (None, H'') \<and>
     ak_text H'' = ''k0'' @ [CHR 0x0A] @ ''k1k2'' @ [CHR 0x0A] @ ''k2'' @ [CHR 0x0A]"
proof -
  let ?w = "''k0'' @ [CHR 0x0A] @ ''k1''"
  let ?H = "home_host ?w"
  have "fst (authorizeKey plain_keys ''k2'' ?H) = None" by code_simp
  then have run: "authorizeKey plain_keys ''k2'' ?H = (None, snd (authorizeKey plain_keys ''k2'' ?H))"
    by (metis prod.collapse)
  have r: "read_error (machine ?H) (ak_path ?H) = None" by (simp add: home_host_def plain_machine_def)
  have p: "ParseKey plain_keys ''k2'' = Inr ''k2''" "trim_space (MarshalKey plain_keys ''k2'') = ''k2''"
    by (simp_all add: plain_keys_def trim_space_def is_space_def)
  have f: "files ?H (ak_path ?H) = Some \<lparr>contents = ?w, mode = 0x180\<rparr>"
    unfolding home_host_path by (simp add: home_host_def)
  have w: "?w = (''k0'' @ [CHR 0x0A]) @ ''k1''" "whole_lines (''k0'' @ [CHR 0x0A])" "trim_space ''k1'' \<noteq> []"
    "\<not> same_line ?w ''k2''" by code_simp+
  note j = authorizeKey_joins_lines [OF run r p _ _ f, of "''k0'' @ [CHR 0x0A]" "''k1''", simplified]
  from j w obtain H'' where "authorizeKey plain_keys ''k2'' (snd (authorizeKey plain_keys ''k2'' ?H)) = (None, H'')"
    "ak_text H'' = ak_text (snd (authorizeKey plain_keys ''k2'' ?H)) @ ''k2'' @ [CHR 0x0A]" by auto
  moreover from j w have "ak_text (snd (authorizeKey plain_keys ''k2'' ?H)) = ?w @ ''k2'' @ [CHR 0x0A]" by simp
  ultimately show ?thesis
    using run by (intro exI [of _ "snd (authorizeKey plain_keys ''k2'' ?H)"] exI [of _ H'']) simp
qed

end
