(* ===== verification/Tunnel.thy ===== *)
theory Tunnel
  imports Go_Prelude "HOL-Library.Sublist"
begin

text \<open>
  The relay of a provider (\<open>internal/tunnel/tunnel.go\<close>): a listener per address that hands
  every connection to a forwarder, and the forwarder, which copies in both directions until
  one of the copies is over. Listeners are the state that all relays of a process share.
\<close>


section \<open>Listening\<close>

record network =
  listeners :: "string \<rightharpoonup> string"
  listen_error :: "string \<Rightarrow> go_error option"

definition in_use :: "string \<Rightarrow> go_error" where
  "in_use a = Plain (''listen tcp '' @ a @ '': bind: address already in use'')"

text \<open>An address is bound once; what else can go wrong is the machine's affair.\<close>

definition Listen :: "string \<Rightarrow> string \<Rightarrow> network \<Rightarrow> unit result \<times> network" where
  "Listen a dst N =
     (if listeners N a \<noteq> None then (Inl (in_use a), N)
      else case listen_error N a of
        Some e \<Rightarrow> (Inl e, N)
      | None \<Rightarrow> (Inr (), N\<lparr>listeners := (listeners N)(a \<mapsto> dst)\<rparr>))"

definition bind_addr :: "string \<Rightarrow> string" where
  "bind_addr bindIP = (if bindIP = [] then ''127.0.0.1'' else bindIP)"

definition listen_addr :: "string \<Rightarrow> int \<Rightarrow> string" where
  "listen_addr bindIP localPort = bind_addr bindIP @ '':'' @ show_int localPort"

text \<open>
  The accept loop ends with the first error of the listener; the connections accepted before
  are forwarded. \<open>accepts\<close> are the connections and, at its end, the error, if there is one:
  without an error the relay keeps running, and there is no result. The listener is never
  closed.
\<close>

fun accept_loop :: "(go_error + 'conn) list \<Rightarrow> 'conn list \<times> go_error option" where
  "accept_loop [] = ([], None)"
| "accept_loop (Inl e # xs) = ([], Some e)"
| "accept_loop (Inr c # xs) = (let (cs, e) = accept_loop xs in (c # cs, e))"

definition Proxy :: "string \<Rightarrow> int \<Rightarrow> string \<Rightarrow> (go_error + 'conn) list \<Rightarrow> network \<Rightarrow>
    (('conn \<times> string) list \<times> go_error option) \<times> network" where
  "Proxy bindIP localPort vmIP accepts N =
     (let dst = vmIP @ '':22'' in
      case Listen (listen_addr bindIP localPort) dst N of
        (Inl e, N1) \<Rightarrow>
          (([], Some (Errorf (''listen '' @ listen_addr bindIP localPort @ '': '') e [])), N1)
      | (Inr _, N1) \<Rightarrow>
          (let (cs, err) = accept_loop accepts in ((map (\<lambda>c. (c, dst)) cs, err), N1)))"


section \<open>Forwarding\<close>

text \<open>
  A connection as the forwarder has it: what the other end has sent and what of it is not read yet,
  whether that end has sent its last byte, whether the network has failed, what was written to the
  connection, and whether it was closed here. A connection can be silent for as long as it likes.
\<close>

datatype side = Src | Target

fun other :: "side \<Rightarrow> side" where
  "other Src = Target"
| "other Target = Src"

record socket =
  sent :: string
  unread :: string
  ended :: bool
  failed :: bool
  delivered :: string
  closed :: bool

text \<open>
  One \<open>io.Copy(to, frm)\<close> in a goroutine: it reads some bytes, writes them, and reads again. It blocks
  while there is nothing to read, and is over after the last byte or an error.
\<close>

datatype phase = Reading | Writing string | Over

record copier =
  to :: side
  frm :: side
  stands :: phase

record forwarder =
  conn :: "side \<Rightarrow> socket"
  copiers :: "copier list"
  dones :: nat
  returned :: bool

definition open_socket :: socket where
  "open_socket = \<lparr>sent = [], unread = [], ended = False, failed = False, delivered = [], closed = False\<rparr>"

text \<open>\<open>net.Dial\<close> fails and the caller is hung up on, or both copies start.\<close>

definition forward :: "unit result \<Rightarrow> forwarder" where
  "forward dialled =
     (case dialled of
        Inl e \<Rightarrow> \<lparr>conn = (\<lambda>s. open_socket\<lparr>closed := True\<rparr>), copiers = [], dones = 0, returned = True\<rparr>
      | Inr _ \<Rightarrow> \<lparr>conn = (\<lambda>s. open_socket),
          copiers = [\<lparr>to = Target, frm = Src, stands = Reading\<rparr>, \<lparr>to = Src, frm = Target, stands = Reading\<rparr>],
          dones = 0, returned = False\<rparr>)"

text \<open>A copy moves on; a read gives at most \<open>n\<close> bytes, and of a write that fails \<open>n\<close> bytes still get through.\<close>

definition copy_step :: "nat \<Rightarrow> copier \<Rightarrow> (side \<Rightarrow> socket) \<Rightarrow> copier \<times> (side \<Rightarrow> socket)" where
  "copy_step n c S =
     (let i = S (frm c); out = S (to c) in
      case stands c of
        Reading \<Rightarrow>
          if closed i \<or> failed i then (c\<lparr>stands := Over\<rparr>, S)
          else if unread i \<noteq> [] then
            (let x = take (max 1 n) (unread i)
             in (c\<lparr>stands := Writing x\<rparr>, S(frm c := i\<lparr>unread := drop (max 1 n) (unread i)\<rparr>)))
          else if ended i then (c\<lparr>stands := Over\<rparr>, S) else (c, S)
      | Writing x \<Rightarrow>
          if closed out then (c\<lparr>stands := Over\<rparr>, S)
          else if failed out then
            (c\<lparr>stands := Over\<rparr>, S(to c := out\<lparr>delivered := delivered out @ take n x\<rparr>))
          else (c\<lparr>stands := Reading\<rparr>, S(to c := out\<lparr>delivered := delivered out @ x\<rparr>))
      | Over \<Rightarrow> (c, S))"

text \<open>
  The ends of the connections act, a copy moves on (and sends to \<open>done\<close> when it is over), or the
  forwarder receives from \<open>done\<close> and returns, which closes both connections.
\<close>

datatype relay_event = Sends side string | Ends side | Fails side | Moves nat nat | Returns

fun forward_step :: "relay_event \<Rightarrow> forwarder \<Rightarrow> forwarder" where
  "forward_step (Sends s x) f =
     (let i = conn f s in
      if ended i then f else f\<lparr>conn := (conn f)(s := i\<lparr>sent := sent i @ x, unread := unread i @ x\<rparr>)\<rparr>)"
| "forward_step (Ends s) f = f\<lparr>conn := (conn f)(s := (conn f s)\<lparr>ended := True\<rparr>)\<rparr>"
| "forward_step (Fails s) f = f\<lparr>conn := (conn f)(s := (conn f s)\<lparr>failed := True\<rparr>)\<rparr>"
| "forward_step (Moves k n) f =
     (if k < length (copiers f) then
        (let (c, S) = copy_step n (copiers f ! k) (conn f) in
         f\<lparr>conn := S, copiers := (copiers f)[k := c],
           dones := (if stands (copiers f ! k) \<noteq> Over \<and> stands c = Over then dones f + 1 else dones f)\<rparr>)
      else f)"
| "forward_step Returns f =
     (if 0 < dones f \<and> \<not> returned f
      then f\<lparr>dones := dones f - 1, returned := True, conn := (\<lambda>s. (conn f s)\<lparr>closed := True\<rparr>)\<rparr> else f)"

definition forward_run :: "relay_event list \<Rightarrow> forwarder \<Rightarrow> forwarder" where
  "forward_run es = fold forward_step es"


section \<open>Facts\<close>

lemma show_int_no_colon: "CHR '':'' \<notin> set (show_int i)"
  using show_nat_chars [of "CHR '':''"] by (auto simp: show_int_def)

lemma listen_addr_inject: "listen_addr a p = listen_addr a q \<longleftrightarrow> p = q"
  by (simp add: listen_addr_def)

lemma all_sides: "(\<forall>s. P s) \<longleftrightarrow> P Src \<and> P Target"
  by (metis side.exhaust)

lemma other_other [simp]: "other (other s) = s" "other s \<noteq> s" "s \<noteq> other s"
  by (cases s; simp)+

text \<open>The copy that reads from a side.\<close>

fun reader :: "side \<Rightarrow> nat" where
  "reader Src = 0"
| "reader Target = 1"

abbreviation doing :: "forwarder \<Rightarrow> side \<Rightarrow> phase" where
  "doing f s \<equiv> stands (copiers f ! reader s)"

definition wired_up :: "forwarder \<Rightarrow> bool" where
  "wired_up f \<longleftrightarrow> (\<exists>p q. copiers f = [\<lparr>to = Target, frm = Src, stands = p\<rparr>, \<lparr>to = Src, frm = Target, stands = q\<rparr>])"

text \<open>What a side has sent is what the other has been given, what the copy holds, and what is unread.\<close>

definition excused :: "forwarder \<Rightarrow> bool" where
  "excused f \<longleftrightarrow> returned f \<or> failed (conn f Src) \<or> failed (conn f Target)"

fun carries :: "bool \<Rightarrow> phase \<Rightarrow> socket \<Rightarrow> string \<Rightarrow> bool" where
  "carries e Reading i d \<longleftrightarrow> sent i = d @ unread i"
| "carries e (Writing x) i d \<longleftrightarrow> sent i = d @ x @ unread i"
| "carries e Over i d \<longleftrightarrow> prefix d (sent i) \<and> (e \<or> ended i \<and> d = sent i)"

definition carried :: "forwarder \<Rightarrow> side \<Rightarrow> bool" where
  "carried f s \<longleftrightarrow> carries (excused f) (doing f s) (conn f s) (delivered (conn f (other s)))"

definition drained :: "forwarder \<Rightarrow> side \<Rightarrow> bool" where
  "drained f s \<longleftrightarrow> ended (conn f s) \<and> delivered (conn f (other s)) = sent (conn f s)"

definition relays :: "forwarder \<Rightarrow> bool" where
  "relays f \<longleftrightarrow> wired_up f \<and> (\<forall>s. carried f s) \<and> (\<forall>s. closed (conn f s) \<longleftrightarrow> returned f) \<and>
     (\<not> returned f \<longrightarrow> (0 < dones f \<longleftrightarrow> doing f Src = Over \<or> doing f Target = Over)) \<and>
     (returned f \<longrightarrow> (\<exists>s. failed (conn f s) \<or> drained f s))"

lemma relays_start: "relays (forward (Inr ()))"
  by (simp add: relays_def forward_def wired_up_def carried_def open_socket_def all_sides)

lemma side_cases [simp]: "s \<noteq> Src \<longleftrightarrow> s = Target" "s \<noteq> Target \<longleftrightarrow> s = Src"
  "Src \<noteq> s \<longleftrightarrow> s = Target" "Target \<noteq> s \<longleftrightarrow> s = Src" for s
  by (cases s; simp)+

lemma ex_sides: "(\<exists>s. P s) \<longleftrightarrow> P Src \<or> P Target"
  by (metis side.exhaust)

lemma carries_prefix: "carries e p i d \<Longrightarrow> prefix d (sent i)"
  by (cases p) (auto simp: prefix_def)

lemma carries_excused: "carries e p i d \<Longrightarrow> (e \<Longrightarrow> e') \<Longrightarrow> carries e' p i d"
  by (cases p) auto

text \<open>What the ends do touches neither the copies nor what was delivered.\<close>

lemma relays_outside:
  assumes f: "relays f"
    and same: "copiers f' = copiers f" "dones f' = dones f" "returned f' = returned f"
      "\<And>t. delivered (conn f' t) = delivered (conn f t)" "\<And>t. closed (conn f' t) = closed (conn f t)"
    and more: "\<And>t. failed (conn f t) \<Longrightarrow> failed (conn f' t)" "\<And>t. drained f t \<Longrightarrow> drained f' t"
      "\<And>t e p d. carries e p (conn f t) d \<Longrightarrow> carries e p (conn f' t) d"
  shows "relays f'"
proof -
  have "carried f' t" for t
  proof -
    have "carries (excused f) (doing f t) (conn f t) (delivered (conn f (other t)))"
      using f by (simp add: relays_def carried_def)
    then have "carries (excused f) (doing f t) (conn f' t) (delivered (conn f (other t)))"
      by (rule more)
    then have "carries (excused f') (doing f t) (conn f' t) (delivered (conn f (other t)))"
      by (rule carries_excused) (use more(1) same in \<open>auto simp: excused_def\<close>)
    then show ?thesis
      by (simp add: carried_def same)
  qed
  moreover have "\<exists>s. failed (conn f' s) \<or> drained f' s" if "returned f"
    using f that more(1,2) unfolding relays_def by blast
  ultimately show ?thesis
    using f by (simp add: relays_def same wired_up_def)
qed

lemma relays_sends:
  assumes "relays f"
  shows "relays (forward_step (Sends s x) f)"
proof (cases "ended (conn f s)")
  case False
  show ?thesis
  proof (rule relays_outside [OF assms])
    show "carries e p (conn (forward_step (Sends s x) f) t) d" if "carries e p (conn f t) d" for t e p d
      using that False by (cases p) (auto simp: Let_def)
  qed (use False in \<open>auto simp: Let_def drained_def\<close>)
qed (use assms in simp)

lemma relays_ends: "relays f \<Longrightarrow> relays (forward_step (Ends s) f)"
proof (erule relays_outside)
  show "carries e p (conn (forward_step (Ends s) f) t) d" if "carries e p (conn f t) d" for t e p d
    using that by (cases p) auto
qed (auto simp: drained_def)

lemma relays_fails: "relays f \<Longrightarrow> relays (forward_step (Fails s) f)"
proof (erule relays_outside)
  show "carries e p (conn (forward_step (Fails s) f) t) d" if "carries e p (conn f t) d" for t e p d
    using that by (cases p) auto
qed (auto simp: drained_def)

lemma relays_returns:
  assumes f: "relays f"
  shows "relays (forward_step Returns f)"
proof (cases "0 < dones f \<and> \<not> returned f")
  case True
  then have "doing f Src = Over \<or> doing f Target = Over"
    using f by (simp add: relays_def)
  then have ends: "\<exists>s. failed (conn f s) \<or> drained f s"
    using f True by (auto simp: relays_def carried_def drained_def excused_def ex_sides all_sides)
  have "carried (forward_step Returns f) t" for t
  proof -
    have c: "carries (excused f) (doing f t) (conn f t) (delivered (conn f (other t)))"
      using f by (simp add: relays_def carried_def)
    show ?thesis
      using c True by (cases "doing f t") (auto simp: carried_def excused_def)
  qed
  then show ?thesis
    using f ends True by (auto simp: relays_def wired_up_def drained_def)
qed (use f in auto)

text \<open>A copy that moves on takes from what is unread at its side and gives to the other.\<close>

lemma doing_update:
  assumes "wired_up f"
  shows "stands ((copiers f)[reader s := c] ! reader t) = (if t = s then stands c else doing f t)"
  using assms by (cases s; cases t) (auto simp: wired_up_def)

lemma wired_up_update: "wired_up f \<Longrightarrow> wired_up (f\<lparr>conn := S,
    copiers := (copiers f)[reader s := \<lparr>to = other s, frm = s, stands = p\<rparr>], dones := d\<rparr>)"
  by (cases s) (auto simp: wired_up_def)

lemma copier_of: "wired_up f \<Longrightarrow> copiers f ! reader s = \<lparr>to = other s, frm = s, stands = doing f s\<rparr>"
  by (cases s) (auto simp: wired_up_def)

lemma relays_moved:
  assumes f: "relays f"
    and f': "f' = f\<lparr>conn := S, copiers := (copiers f)[reader s := \<lparr>to = other s, frm = s, stands = p\<rparr>],
        dones := (if doing f s \<noteq> Over \<and> p = Over then dones f + 1 else dones f)\<rparr>"
    and S: "\<And>t. sent (S t) = sent (conn f t)" "\<And>t. ended (S t) = ended (conn f t)"
      "\<And>t. failed (S t) = failed (conn f t)" "\<And>t. closed (S t) = closed (conn f t)"
      "unread (S (other s)) = unread (conn f (other s))" "delivered (S s) = delivered (conn f s)"
      "prefix (delivered (conn f (other s))) (delivered (S (other s)))"
    and over: "doing f s = Over \<Longrightarrow> p = Over"
    and now: "carries (excused f) p (S s) (delivered (S (other s)))"
  shows "relays f'"
proof -
  have w: "wired_up f"
    using f by (simp add: relays_def)
  have w': "wired_up f'"
    unfolding f' by (rule wired_up_update [OF w])
  have doing': "doing f' t = (if t = s then p else doing f t)" for t
    using doing_update [OF w, of s _ t] by (simp add: f')
  have excused': "excused f' = excused f"
    by (simp add: f' excused_def S)
  have conn': "conn f' = S"
    by (simp add: f')
  have here: "carried f' s"
    using now unfolding carried_def doing' excused' by (simp add: f')
  have "carried f (other s)"
    using f by (simp add: relays_def)
  then have there: "carried f' (other s)"
    by (cases "doing f (other s)") (simp_all add: carried_def doing' excused' conn' S)
  have all: "carried f' t" for t
    using here there by (cases s; cases t) simp_all
  have drain: "drained f' t" if "drained f t" for t
  proof (cases "t = s")
    case True
    have "prefix (delivered (conn f' (other s))) (sent (conn f' s))"
      using here unfolding carried_def by (rule carries_prefix)
    then show ?thesis
      using that True S(7) by (auto simp: drained_def f' S prefix_order.antisym)
  next
    case False
    then have "t = other s"
      by (cases s; cases t) simp_all
    then show ?thesis
      using that by (simp add: drained_def f' S)
  qed
  have "\<exists>t. failed (conn f' t) \<or> drained f' t" if "returned f'"
  proof -
    have "returned f"
      using that by (simp add: f')
    then have "\<exists>t. failed (conn f t) \<or> drained f t"
      using f by (simp add: relays_def)
    then obtain t where "failed (conn f t) \<or> drained f t" ..
    then have "failed (conn f' t) \<or> drained f' t"
      using drain by (auto simp: conn' S)
    then show ?thesis ..
  qed
  moreover have "0 < dones f' \<longleftrightarrow> doing f' Src = Over \<or> doing f' Target = Over" if "\<not> returned f'"
  proof -
    have "0 < dones f \<longleftrightarrow> doing f Src = Over \<or> doing f Target = Over"
      using f that by (simp add: relays_def f')
    then show ?thesis
      using over unfolding doing' by (cases s) (auto simp: f')
  qed
  moreover have "closed (conn f' t) \<longleftrightarrow> returned f'" for t
    using f by (simp add: relays_def f' S)
  ultimately show ?thesis
    using w' all by (simp add: relays_def)
qed

lemma copy_step_carries:
  assumes step: "copy_step n \<lparr>to = other s, frm = s, stands = p\<rparr> C = (c, S)"
    and now: "carries e p (C s) (delivered (C (other s)))"
    and bad: "\<forall>t. closed (C t) \<or> failed (C t) \<longrightarrow> e"
  shows "c = \<lparr>to = other s, frm = s, stands = stands c\<rparr>" (is ?c)
    and "\<And>t. sent (S t) = sent (C t) \<and> ended (S t) = ended (C t) \<and> failed (S t) = failed (C t) \<and>
      closed (S t) = closed (C t)" (is "\<And>t. ?same t")
    and "unread (S (other s)) = unread (C (other s)) \<and> delivered (S s) = delivered (C s) \<and>
      prefix (delivered (C (other s))) (delivered (S (other s)))" (is ?flow)
    and "p = Over \<Longrightarrow> stands c = Over" (is "_ \<Longrightarrow> ?over")
    and "carries e (stands c) (S s) (delivered (S (other s)))" (is ?carries)
proof -
  have bad': "closed (C t) \<Longrightarrow> e" "failed (C t) \<Longrightarrow> e" for t
    using bad by blast+
  have "?c \<and> (\<forall>t. ?same t) \<and> ?flow \<and> (p = Over \<longrightarrow> ?over) \<and> ?carries"
  proof (cases p)
    case Reading
    then show ?thesis
      using step now bad' by (auto simp: copy_step_def Let_def split: if_splits)
  next
    case (Writing x)
    then show ?thesis
      using step now bad' prefix_prefix [OF take_is_prefix [of n x]]
      by (auto simp: copy_step_def Let_def split: if_splits)
  next
    case Over
    then show ?thesis
      using step now by (auto simp: copy_step_def Let_def)
  qed
  then show ?c "\<And>t. ?same t" ?flow "p = Over \<Longrightarrow> ?over" ?carries
    by blast+
qed

lemma relays_moves:
  assumes f: "relays f"
  shows "relays (forward_step (Moves k n) f)"
proof (cases "k < length (copiers f)")
  case True
  have w: "wired_up f"
    using f by (simp add: relays_def)
  obtain s where k: "k = reader s"
    using True w that [of Src] that [of Target] by (auto simp: wired_up_def less_Suc_eq)
  have now: "carries (excused f) (doing f s) (conn f s) (delivered (conn f (other s)))"
    using f by (simp add: relays_def carried_def)
  have bad: "\<forall>t. closed (conn f t) \<or> failed (conn f t) \<longrightarrow> excused f"
    using f by (simp add: relays_def excused_def all_sides)
  obtain p where nth: "copiers f ! reader s = \<lparr>to = other s, frm = s, stands = p\<rparr>"
    using copier_of [OF w] by blast
  then have p: "doing f s = p"
    by simp
  obtain c S where step: "copy_step n \<lparr>to = other s, frm = s, stands = doing f s\<rparr> (conn f) = (c, S)"
    by (cases "copy_step n \<lparr>to = other s, frm = s, stands = doing f s\<rparr> (conn f)") blast
  note out = copy_step_carries [OF step now bad]
  show ?thesis
  proof (rule relays_moved [OF f, where s = s and S = S and p = "stands c"])
    show "forward_step (Moves k n) f = f\<lparr>conn := S,
        copiers := (copiers f)[reader s := \<lparr>to = other s, frm = s, stands = stands c\<rparr>],
        dones := if doing f s \<noteq> Over \<and> stands c = Over then dones f + 1 else dones f\<rparr>"
      unfolding out(1) [symmetric] using True step [unfolded p] by (simp add: k nth)
  qed (simp_all add: out(2-5))
qed (use f in simp)

lemma relays_step: "relays f \<Longrightarrow> relays (forward_step e f)"
  by (cases e) (simp_all only: relays_sends relays_ends relays_fails relays_moves relays_returns)

lemma relays_run: "relays f \<Longrightarrow> relays (forward_run es f)"
  unfolding forward_run_def by (induction es arbitrary: f) (simp_all add: relays_step del: forward_step.simps)

text \<open>Four moves of a copy bring over all that its side has sent, and end the copy if the side has ended.\<close>

definition flush :: "forwarder \<Rightarrow> side \<Rightarrow> relay_event list" where
  "flush f s = (let m = Moves (reader s) (length (unread (conn f s))) in [m, m, m, m])"

lemma flush_delivers:
  fixes s
  assumes "relays f" "\<not> excused f"
  defines "f' \<equiv> forward_run (flush f s) f"
  shows "delivered (conn f' (other s)) = sent (conn f s)" (is ?all)
    and "delivered (conn f' s) = delivered (conn f s)" (is ?kept)
    and "\<And>t. sent (conn f' t) = sent (conn f t) \<and> ended (conn f' t) = ended (conn f t) \<and>
      failed (conn f' t) = failed (conn f t)" (is "\<And>t. ?same t")
    and "returned f' = returned f" (is ?open)
    and "ended (conn f s) \<Longrightarrow> doing f' s = Over" (is "_ \<Longrightarrow> ?over")
    and "doing f' (other s) = doing f (other s)" (is ?apart)
proof -
  obtain p q where "copiers f = [\<lparr>to = Target, frm = Src, stands = p\<rparr>, \<lparr>to = Src, frm = Target, stands = q\<rparr>]"
      "\<not> returned f"
    using assms(1,2) by (auto simp: relays_def wired_up_def excused_def)
  then obtain S d where f: "f = \<lparr>conn = S, copiers = [\<lparr>to = Target, frm = Src, stands = p\<rparr>,
      \<lparr>to = Src, frm = Target, stands = q\<rparr>], dones = d, returned = False\<rparr>"
    by (cases f) simp
  have now: "carries False (doing f s) (conn f s) (delivered (conn f (other s)))"
    using assms(1,2) by (simp add: relays_def carried_def)
  have free: "\<not> closed (S t)" "\<not> failed (S t)" for t
    using assms(1,2) by (cases t; simp add: relays_def excused_def f)+
  have "?all \<and> ?kept \<and> (\<forall>t. ?same t) \<and> ?open \<and> (ended (conn f s) \<longrightarrow> ?over) \<and> ?apart"
  proof (cases s)
    case Src
    show ?thesis
      using now free unfolding f'_def
      by (cases p; cases "unread (S Src) = []"; cases "ended (S Src)")
        (simp_all add: f Src forward_run_def flush_def copy_step_def Let_def max_def)
  next
    case Target
    show ?thesis
      using now free unfolding f'_def
      by (cases q; cases "unread (S Target) = []"; cases "ended (S Target)")
        (simp_all add: f Target forward_run_def flush_def copy_step_def Let_def max_def)
  qed
  then show ?all ?kept "\<And>t. ?same t" ?open "ended (conn f s) \<Longrightarrow> ?over" ?apart
    by blast+
qed

lemma flush_both:
  assumes f: "relays f" "\<not> excused f"
  defines "f1 \<equiv> forward_run (flush f Src) f"
  defines "f2 \<equiv> forward_run (flush f1 Target) f1"
  shows "\<And>s. delivered (conn f2 (other s)) = sent (conn f s)" and "\<not> returned f2"
    and "\<And>s. ended (conn f s) \<Longrightarrow> 0 < dones f2"
proof -
  have f1: "relays f1" "\<not> excused f1"
    using f flush_delivers(3,4) [OF f] relays_run [OF f(1)] unfolding f1_def by (simp_all add: excused_def)
  note one = flush_delivers [OF f, of Src, folded f1_def]
  note two = flush_delivers [OF f1, of Target, folded f2_def]
  show "delivered (conn f2 (other s)) = sent (conn f s)" for s
    using one two by (cases s) simp_all
  show on: "\<not> returned f2"
    using f one two by (simp add: excused_def)
  show "0 < dones f2" if "ended (conn f s)" for s
  proof -
    have "doing f2 s = Over"
      using that one two by (cases s) simp_all
    moreover have "relays f2"
      unfolding f2_def by (rule relays_run [OF f1(1)])
    ultimately show ?thesis
      using on by (cases s) (auto simp: relays_def)
  qed
qed

lemma flush_moves: "\<forall>m \<in> set (flush f s). \<exists>k n. m = Moves k n"
  by (simp add: flush_def Let_def)

lemma forward_run_append: "forward_run (xs @ ys) f = forward_run ys (forward_run xs f)"
  by (simp add: forward_run_def)

lemma forward_run_single: "forward_run [e] f = forward_step e f"
  by (simp add: forward_run_def)


section \<open>The property\<close>

text \<open>
  C20 (a relay carries both directions). Whatever the two ends send, end and break, and whenever
  the copies move: what either end was given is a beginning of what the other end has sent, in order
  and without a gap; the forwarder returns, which hangs up on both, only after a connection
  has failed or after everything an ended side had sent was given to the other, so a connection that is only
  silent stays open; and as long as it has not returned and nothing failed, the two copies alone can bring over
  everything that both sides have sent so far, after which the forwarder can return if
  one of the sides has ended.
\<close>

theorem forward_relays:
  "let f = forward_run es (forward (Inr ())) in
     (\<forall>s. prefix (delivered (conn f (other s))) (sent (conn f s))) \<and>
     (returned f \<longrightarrow>
        (\<exists>s. failed (conn f s) \<or> ended (conn f s) \<and> delivered (conn f (other s)) = sent (conn f s))) \<and>
     (\<not> returned f \<and> (\<forall>s. \<not> failed (conn f s)) \<longrightarrow>
        (\<exists>ms. (\<forall>m \<in> set ms. \<exists>k n. m = Moves k n) \<and>
          (\<forall>s. delivered (conn (forward_run ms f) (other s)) = sent (conn f s)) \<and>
          ((\<exists>s. ended (conn f s)) \<longrightarrow> returned (forward_run (ms @ [Returns]) f))))"
proof -
  define f where "f = forward_run es (forward (Inr ()))"
  have f: "relays f"
    unfolding f_def by (rule relays_run [OF relays_start])
  have "prefix (delivered (conn f (other s))) (sent (conn f s))" for s
    using f carries_prefix unfolding relays_def carried_def by blast
  moreover have "\<exists>s. failed (conn f s) \<or> drained f s" if "returned f"
    using f that by (simp add: relays_def)
  moreover have "\<exists>ms. (\<forall>m \<in> set ms. \<exists>k n. m = Moves k n) \<and>
      (\<forall>s. delivered (conn (forward_run ms f) (other s)) = sent (conn f s)) \<and>
      ((\<exists>s. ended (conn f s)) \<longrightarrow> returned (forward_run (ms @ [Returns]) f))"
    if "\<not> returned f" "\<forall>s. \<not> failed (conn f s)"
  proof -
    define ms where "ms = flush f Src @ flush (forward_run (flush f Src) f) Target"
    have "\<not> excused f"
      using that by (simp add: excused_def)
    note both = flush_both [OF f this, folded forward_run_append, folded ms_def]
    have "returned (forward_run (ms @ [Returns]) f)" if "ended (conn f s)" for s
      using both(2) both(3) [OF that] forward_run_append [of ms "[Returns]" f] by (simp add: forward_run_single)
    moreover have "\<forall>m \<in> set ms. \<exists>k n. m = Moves k n"
      using flush_moves unfolding ms_def by auto
    ultimately show ?thesis
      using both(1) by blast
  qed
  ultimately show ?thesis
    unfolding f_def [symmetric] drained_def by (simp add: Let_def)
qed

text \<open>A command and its answer, and a last answer that the buyer's hanging up cuts off.\<close>

definition session_events :: "relay_event list" where
  "session_events = [Sends Src ''ls'', Moves 0 9, Moves 0 0, Sends Target ''a b'', Moves 1 1, Moves 1 0, Ends Src]"

lemma forward_relays_witness:
  "let f = forward_run session_events (forward (Inr ()))
   in delivered (conn f Target) = ''ls'' \<and> delivered (conn f Src) = ''a'' \<and> \<not> returned f \<and>
     returned (forward_run [Moves 0 0, Returns] f) \<and> delivered (conn (forward_run [Moves 0 0, Returns] f) Src) = ''a'' \<and>
     (\<exists>ms. (\<forall>m \<in> set ms. \<exists>k n. m = Moves k n) \<and> delivered (conn (forward_run ms f) Src) = ''a b'' \<and>
       returned (forward_run (ms @ [Returns]) f))"
proof -
  have now: "delivered (conn (forward_run session_events (forward (Inr ()))) Target) = ''ls'' \<and>
      delivered (conn (forward_run session_events (forward (Inr ()))) Src) = ''a'' \<and>
      \<not> returned (forward_run session_events (forward (Inr ()))) \<and>
      returned (forward_run [Moves 0 0, Returns] (forward_run session_events (forward (Inr ())))) \<and>
      delivered (conn (forward_run [Moves 0 0, Returns] (forward_run session_events (forward (Inr ())))) Src) = ''a''"
    and ends: "sent (conn (forward_run session_events (forward (Inr ()))) Target) = ''a b''"
      "ended (conn (forward_run session_events (forward (Inr ()))) Src)"
      "\<forall>s. \<not> failed (conn (forward_run session_events (forward (Inr ()))) s)"
    unfolding all_sides by code_simp+
  show ?thesis
    using forward_relays [of session_events] now ends unfolding Let_def by (metis other.simps(2))
qed

end
