(* ===== verification/Attestation.thy ===== *)
theory Attestation
  imports Host Sha256
begin

text \<open>
  What a provider says of itself when it registers (\<open>internal/attestation/attest.go\<close>): the
  machine id and the hash of the running program.
\<close>

record attestation =
  MachineID :: string
  BinaryHash :: string

definition machineID :: "string \<Rightarrow> host \<Rightarrow> string result" where
  "machineID hostname H =
     (case ReadFile ''/etc/machine-id'' H of
        Inl e \<Rightarrow> Inr hostname
      | Inr b \<Rightarrow> Inr (trim_space b))"

definition selfHash :: "string result \<Rightarrow> host \<Rightarrow> string result" where
  "selfHash executable H =
     (case executable of
        Inl e \<Rightarrow> Inl e
      | Inr exe \<Rightarrow> (case ReadFile exe H of Inl e \<Rightarrow> Inl e | Inr b \<Rightarrow> Inr (hex_encode (sha256 b))))"

text \<open>With an error the caller gets the zero value too.\<close>

definition Collect :: "string \<Rightarrow> string result \<Rightarrow> host \<Rightarrow> attestation \<times> go_error option" where
  "Collect hostname executable H =
     (case machineID hostname H of
        Inl e \<Rightarrow> (\<lparr>MachineID = [], BinaryHash = []\<rparr>, Some (Errorf ''machine id: '' e []))
      | Inr mid \<Rightarrow>
          (case selfHash executable H of
             Inl e \<Rightarrow> (\<lparr>MachineID = [], BinaryHash = []\<rparr>, Some (Errorf ''self hash: '' e []))
           | Inr hash \<Rightarrow> (\<lparr>MachineID = mid, BinaryHash = hash\<rparr>, None)))"


definition is_hex :: "char \<Rightarrow> bool" where
  "is_hex c \<longleftrightarrow> c \<in> set ''0123456789abcdef''"


section \<open>Facts\<close>

lemma length_hex_encode [simp]: "length (hex_encode s) = 2 * length s"
  by (induction s) (simp_all add: hex_encode_def)

lemma hex_digit_char:
  assumes "0 \<le> n" and "n < 16"
  shows "is_hex (hex_digit n)"
proof -
  have "n \<in> set [0..15]" using assms by simp
  moreover have "list_all (\<lambda>n. is_hex (hex_digit n)) [0..15]" by code_simp
  ultimately show ?thesis unfolding list_all_iff by blast
qed

lemma hex_encode_chars: "list_all is_hex (hex_encode s)"
proof -
  have "is_hex (hex_digit (of_char c div 16)) \<and>
      is_hex (hex_digit (of_char c mod 16))" for c
  proof
    have "0 \<le> (of_char c :: int) div 16 \<and> (of_char c :: int) div 16 < 16"
      by (intro quotient_range) (use of_char_range [of c] in simp_all)
    then show "is_hex (hex_digit (of_char c div 16))" by (intro hex_digit_char) simp_all
  qed (intro hex_digit_char; simp)
  then show ?thesis by (auto simp: hex_encode_def list_all_iff)
qed


section \<open>Properties\<close>

text \<open>
  C38 (attestation). An attestation that is collected without an error carries a hash of 64
  lower case hexadecimal digits, and the id of the machine, or its host name where there is
  no such id; with an error it is empty, and only the hash can fail.
\<close>

theorem Collect_shape:
  assumes "Collect hostname executable H = (a, err)"
  shows "(err = None \<longrightarrow> length (BinaryHash a) = 64 \<and> list_all is_hex (BinaryHash a) \<and>
      (\<exists>exe b. executable = Inr exe \<and> ReadFile exe H = Inr b \<and> BinaryHash a = hex_encode (sha256 b)) \<and>
      MachineID a = (case ReadFile ''/etc/machine-id'' H of Inl _ \<Rightarrow> hostname | Inr b \<Rightarrow> trim_space b)) \<and>
    (err \<noteq> None \<longrightarrow> a = \<lparr>MachineID = [], BinaryHash = []\<rparr> \<and>
      (\<exists>e. selfHash executable H = Inl e \<and> err = Some (Errorf ''self hash: '' e [])))"
  using assms hex_encode_chars
  by (auto simp: Collect_def machineID_def selfHash_def split: sum.splits)

theorem Collect_shape_witness:
  "length (BinaryHash (fst (Collect ''h'' (Inr ''/x'') (plain_host\<lparr>files := [''/x'' \<mapsto> \<lparr>contents = [], mode = 0\<rparr>]\<rparr>)))) = 64 \<and>
   snd (Collect ''h'' (Inl (Plain ''e'')) plain_host) \<noteq> None"
proof -
  have "snd (Collect ''h'' (Inr ''/x'') (plain_host\<lparr>files := [''/x'' \<mapsto> \<lparr>contents = [], mode = 0\<rparr>]\<rparr>)) = None"
    by (simp add: Collect_def machineID_def selfHash_def ReadFile_def plain_host_def plain_machine_def)
  with Collect_shape [OF prod.collapse [symmetric], of "''h''" "Inr ''/x''"]
  have "length (BinaryHash (fst (Collect ''h'' (Inr ''/x'') (plain_host\<lparr>files := [''/x'' \<mapsto> \<lparr>contents = [], mode = 0\<rparr>]\<rparr>)))) = 64"
    by blast
  moreover have "snd (Collect ''h'' (Inl (Plain ''e'')) plain_host) \<noteq> None"
    by (simp add: Collect_def machineID_def selfHash_def ReadFile_def plain_host_def plain_machine_def)
  ultimately show ?thesis by blast
qed

end
