(* ===== verification/Sysinfo.thy ===== *)
theory Sysinfo
  imports Host
begin

text \<open>
  The resources a provider reports (\<open>internal/agent/sysinfo.go\<close>), read from \<open>/proc\<close>. An error
  anywhere gives zero. The number of processors and \<open>strconv.ParseFloat\<close> (the value it
  returns, errors ignored) belong to the runtime and are parameters.
\<close>

record resource_info =
  ri_CPUCores :: int
  ri_MemoryMB :: int
  ri_DiskGB :: int

text \<open>The two readers of \<open>/proc/meminfo\<close> differ in the name of the line only; a line with the
  name but without a number is passed over.\<close>

fun mem_lines :: "string \<Rightarrow> string list \<Rightarrow> int" where
  "mem_lines name [] = 0"
| "mem_lines name (l # ls) =
     (if has_prefix l name then
        (let f = words_of l in if 2 \<le> length f then atoi (f ! 1) sdiv 1024 else mem_lines name ls)
      else mem_lines name ls)"

definition totalMemMB :: "host \<Rightarrow> int" where
  "totalMemMB H =
     (case ReadFile ''/proc/meminfo'' H of
        Inl e \<Rightarrow> 0 | Inr b \<Rightarrow> mem_lines ''MemTotal:'' (split_on (CHR 0x0A) b))"

definition memFreeMB :: "host \<Rightarrow> int" where
  "memFreeMB H =
     (case ReadFile ''/proc/meminfo'' H of
        Inl e \<Rightarrow> 0 | Inr b \<Rightarrow> mem_lines ''MemAvailable:'' (split_on (CHR 0x0A) b))"

definition cpuLoad :: "(string \<Rightarrow> rat) \<Rightarrow> host \<Rightarrow> rat" where
  "cpuLoad parse H =
     (case ReadFile ''/proc/loadavg'' H of
        Inl e \<Rightarrow> 0 | Inr b \<Rightarrow> (case words_of b of [] \<Rightarrow> 0 | f # _ \<Rightarrow> parse f))"

definition availDiskGB :: int where
  "availDiskGB = 0"

definition resources :: "int \<Rightarrow> host \<Rightarrow> resource_info" where
  "resources numCPU H = \<lparr>ri_CPUCores = numCPU, ri_MemoryMB = totalMemMB H, ri_DiskGB = availDiskGB\<rparr>"


section \<open>Facts\<close>

lemma sdiv_1024_range: "- (2 ^ 53) \<le> n sdiv 1024 \<and> n sdiv 1024 < 2 ^ 53"
  if "- (2 ^ 63) \<le> n \<and> n < 2 ^ 63" for n :: int
proof (cases "0 \<le> n")
  case True
  then have "n sdiv 1024 = n div 1024" by (simp add: sdiv_nonneg)
  moreover have "0 \<le> n div 1024" "n div 1024 < 2 ^ 53" using that True by simp_all
  ultimately show ?thesis by simp
next
  case False
  then have "n sdiv 1024 = - ((- n) div 1024)" by (simp add: signed_divide_int_def)
  moreover have "0 \<le> (- n) div 1024" using False by simp
  moreover have "(- n) div 1024 \<le> 2 ^ 63 div 1024" using that by (intro zdiv_mono1) simp_all
  ultimately show ?thesis by simp
qed

lemma mem_lines_range: "- (2 ^ 53) \<le> mem_lines name ls \<and> mem_lines name ls < 2 ^ 53"
  by (induction ls) (use sdiv_1024_range [OF atoi_range] in \<open>simp_all add: Let_def\<close>)

lemma mem_lines_skip:
  "(\<And>l. l \<in> set ls \<Longrightarrow> \<not> has_prefix l name) \<Longrightarrow> mem_lines name (ls @ ms) = mem_lines name ms"
  by (induction ls) simp_all

text \<open>A line as the kernel prints it: name, blanks, number, unit.\<close>

lemma mem_lines_hit:
  assumes "name \<noteq> []" and "\<And>c. c \<in> set name \<Longrightarrow> \<not> is_space c" and "int n < 2 ^ 63"
  shows "mem_lines name ((name @ CHR '' '' # replicate k (CHR '' '') @ show_nat n @ '' kB'') # ls) = int n div 1024"
proof -
  let ?l = "name @ CHR '' '' # replicate k (CHR '' '') @ show_nat n @ '' kB''"
  have sp: "is_space (CHR '' '')" by (simp add: is_space_def)
  have d: "\<not> is_space c" if "c \<in> set (show_nat n)" for c
    using show_nat_chars [OF that] by (auto simp: is_space_def)
  have "show_nat n \<noteq> []" using is_digits_show_nat [of n] by (simp add: is_digits_def)
  then have "words_of (show_nat n @ '' kB'') = show_nat n # words_of '' kB''"
    using words_of_word [of "show_nat n" "CHR '' ''" "''kB''"] d sp by simp
  then have "words_of (CHR '' '' # replicate k (CHR '' '') @ show_nat n @ '' kB'') = show_nat n # words_of '' kB''"
    using words_of_spaces [of "CHR '' '' # replicate k (CHR '' '')" "show_nat n @ '' kB''"] sp by auto
  then have "words_of ?l = name # show_nat n # words_of '' kB''"
    using words_of_word [OF assms(1,2) sp] by simp
  moreover have "has_prefix ?l name" by simp
  ultimately show ?thesis
    using assms(3) by (simp add: atoi_show_nat sdiv_nonneg)
qed

lemma split_on_lines:
  "(\<And>l. l \<in> set ls \<Longrightarrow> c \<notin> set l) \<Longrightarrow> split_on c (concat (map (\<lambda>l. l @ [c]) ls)) = ls @ [[]]"
  by (induction ls) (simp_all add: split_on_append)


section \<open>Properties\<close>

text \<open>
  Result (free memory). For a \<open>/proc/meminfo\<close> as the kernel prints it, the heartbeat reports the
  available memory in whole megabytes, whatever lines come before and after. Whatever the file
  holds, the number fits a 54 bit integer, so the division has no overflow.
\<close>

theorem memFreeMB_reads:
  assumes "ReadFile ''/proc/meminfo'' H = Inr (concat (map (\<lambda>l. l @ [CHR 0x0A])
      (before @ [''MemAvailable:'' @ CHR '' '' # replicate k (CHR '' '') @ show_nat n @ '' kB''] @ later)))"
    and "\<And>l. l \<in> set (before @ later) \<Longrightarrow> CHR 0x0A \<notin> set l"
    and "\<And>l. l \<in> set before \<Longrightarrow> \<not> has_prefix l ''MemAvailable:''" and "int n < 2 ^ 63"
  shows "memFreeMB H = int n div 1024 \<and> 0 \<le> memFreeMB H \<and> memFreeMB H < 2 ^ 53"
proof -
  let ?l = "''MemAvailable:'' @ CHR '' '' # replicate k (CHR '' '') @ show_nat n @ '' kB''"
  have "CHR 0x0A \<notin> set (show_nat n)" using show_nat_chars [of "CHR 0x0A" n] by auto
  then have "CHR 0x0A \<notin> set ?l" by auto
  then have "\<And>l. l \<in> set (before @ [?l] @ later) \<Longrightarrow> CHR 0x0A \<notin> set l" using assms(2) by auto
  from split_on_lines [OF this]
  have "memFreeMB H = mem_lines ''MemAvailable:'' ((before @ [?l] @ later) @ [[]])"
    by (simp only: memFreeMB_def assms(1) sum.case)
  also have "\<dots> = mem_lines ''MemAvailable:'' (?l # later @ [[]])"
    using mem_lines_skip [OF assms(3), of before] by simp
  also have "\<dots> = int n div 1024"
    by (rule mem_lines_hit [OF _ _ assms(4)]) (auto simp: is_space_def)
  finally have "memFreeMB H = int n div 1024" .
  moreover have "int n div 1024 < 2 ^ 53" using assms(4) by simp
  ultimately show ?thesis by simp
qed

definition meminfo_host :: host where
  "meminfo_host = plain_host\<lparr>files := [''/proc/meminfo'' \<mapsto> \<lparr>contents =
     concat (map (\<lambda>l. l @ [CHR 0x0A]) ([''MemTotal:  8192 kB''] @
       [''MemAvailable:'' @ CHR '' '' # replicate 2 (CHR '' '') @ show_nat 4096 @ '' kB''] @ [''SwapFree: 0 kB''])),
     mode = 0x124\<rparr>]\<rparr>"

theorem memFreeMB_reads_witness: "memFreeMB meminfo_host = 4"
proof -
  have "ReadFile ''/proc/meminfo'' meminfo_host = Inr (concat (map (\<lambda>l. l @ [CHR 0x0A]) ([''MemTotal:  8192 kB''] @
       [''MemAvailable:'' @ CHR '' '' # replicate 2 (CHR '' '') @ show_nat 4096 @ '' kB''] @ [''SwapFree: 0 kB''])))"
    by (simp only: ReadFile_def meminfo_host_def plain_host_def plain_machine_def) simp
  moreover have "CHR 0x0A \<notin> set l" if "l \<in> set ([''MemTotal:  8192 kB''] @ [''SwapFree: 0 kB''])" for l
    using that by auto
  moreover have "\<not> has_prefix l ''MemAvailable:''" if "l \<in> set [''MemTotal:  8192 kB'']" for l
    using that by (simp add: has_prefix_def)
  ultimately have "memFreeMB meminfo_host = int 4096 div 1024"
    using memFreeMB_reads [of meminfo_host "[''MemTotal:  8192 kB'']" 2 4096 "[''SwapFree: 0 kB'']"] by simp
  then show ?thesis by simp
qed

end
