(* ===== verification/Prov_Wireguard.thy ===== *)
theory Prov_Wireguard
  imports Host Sha256 Redis_Store
begin

text \<open>
  The WireGuard client of a provider (\<open>internal/wireguard/wg.go\<close>): where its files live, its
  key pair, and the configuration it takes from the control plane.
\<close>

definition iface :: string where
  "iface = ''wg0''"

definition isTermux :: "host \<Rightarrow> bool" where
  "isTermux H \<longleftrightarrow> getenv (machine H) ''ANDROID_ROOT'' \<noteq> []"

definition paths :: "host \<Rightarrow> string \<times> string \<times> string" where
  "paths H =
     (if isTermux H then
        (let base = getenv (machine H) ''HOME'' @ ''/.dcp/wireguard''
         in (base @ ''/wg0.conf'', base @ ''/prov_private'', base @ ''/prov_public''))
      else (''/etc/wireguard/wg0.conf'', ''/etc/wireguard/prov_private'', ''/etc/wireguard/prov_public''))"

text \<open>\<open>p[:strings.LastIndex(p, "/")]\<close> of a path with a slash.\<close>

definition dir_of :: "string \<Rightarrow> string" where
  "dir_of p = rev (tl (dropWhile (\<lambda>c. c \<noteq> CHR ''/'') (rev p)))"

definition clamp :: "string \<Rightarrow> string" where
  "clamp priv = priv[0 := char_of ((of_char (priv ! 0) :: int) AND 248),
     31 := char_of (((of_char (priv ! 31) :: int) AND 127) OR 64)]"

text \<open>\<open>random\<close> is what \<open>rand.Read\<close> puts into 32 bytes. The results are named: a return in the
  middle gives what has been assigned so far.\<close>

definition GenerateKeypair :: "string result \<Rightarrow> host \<Rightarrow> (string \<times> string \<times> go_error option) \<times> host" where
  "GenerateKeypair random H =
     (let (cfgPath, privPath, pubPath) = paths H in
      case MkdirAll (dir_of cfgPath) H of
        Some e \<Rightarrow> (([], [], Some e), H)
      | None \<Rightarrow>
        (case ReadFile pubPath H of
           Inr existing \<Rightarrow>
             ((trim_space (case ReadFile privPath H of Inl _ \<Rightarrow> [] | Inr priv \<Rightarrow> priv),
               trim_space existing, None), H)
         | Inl _ \<Rightarrow>
           (case random of
              Inl e \<Rightarrow> (([], [], Some e), H)
            | Inr bytes \<Rightarrow>
              (let privKeyB64 = b64_std (clamp bytes) in
               case Output [''wg'', ''pubkey''] (privKeyB64 @ [CHR 0x0A]) H of
                 (Inl e, H1) \<Rightarrow> ((privKeyB64, [], Some (Errorf ''wg pubkey: '' e [])), H1)
               | (Inr out, H1) \<Rightarrow>
                   (let pubKeyB64 = trim_space out;
                        (err, H2) = then_do (WriteFile privPath (privKeyB64 @ [CHR 0x0A]) 0x180 H1)
                          (WriteFile pubPath (pubKeyB64 @ [CHR 0x0A]) 0x1A4)
                    in ((privKeyB64, pubKeyB64, err), H2))))))"

definition wg_isUp :: "host \<Rightarrow> bool \<times> host" where
  "wg_isUp H = (let (err, H') = Run [''ip'', ''link'', ''show'', iface] H in (err = None, H'))"

definition bringUpUserspace :: "string \<Rightarrow> host \<Rightarrow> go_error option \<times> host" where
  "bringUpUserspace cfgPath H =
     (let (_, H1) = Run [''pkill'', ''-f'', ''wireguard-go '' @ iface] H
      in then_do (exec_combined ''wireguard-go: '' [''wireguard-go'', iface] H1)
           (exec_combined ''wg setconf: '' [''wg'', ''setconf'', iface, cfgPath]))"

definition wg_bringUp :: "host \<Rightarrow> go_error option \<times> host" where
  "wg_bringUp H =
     (let (cfgPath, _, _) = paths H in
      if isTermux H then bringUpUserspace cfgPath H
      else (let (up, H1) = wg_isUp H in
            if up then exec_combined ''wg syncconf: '' [''wg'', ''syncconf'', iface, cfgPath] H1
            else exec_combined (''wg-quick up '' @ iface @ '': '') [''wg-quick'', ''up'', iface] H1))"

definition WriteConfig :: "string \<Rightarrow> host \<Rightarrow> go_error option \<times> host" where
  "WriteConfig conf H =
     (let (cfgPath, _, _) = paths H in
      case MkdirAll (dir_of cfgPath) H of
        Some e \<Rightarrow> (Some e, H)
      | None \<Rightarrow> then_do (wrap_err (''write '' @ cfgPath @ '': '') (WriteFile cfgPath conf 0x180 H)) wg_bringUp)"


section \<open>Facts\<close>

lemma paths_machine: "machine H' = machine H \<Longrightarrow> paths H' = paths H"
  by (simp add: paths_def isTermux_def)


lemma b64_std_chars:
  assumes "c \<in> set (b64_std s)"
  shows "\<not> is_space c"
proof -
  have "list_all (\<lambda>n. \<not> is_space (b64_char n)) [0..63]" by code_simp
  then have "\<not> is_space (b64_char n)" if "n \<in> set [0..63]" for n
    using that unfolding list_all_iff by blast
  then have e: "\<not> is_space d" if "d \<in> set (b64_encode s)" for d
    using that sextets_range [of s] by (fastforce simp: b64_encode_sextets)
  have "\<not> is_space (CHR ''+'') \<and> \<not> is_space (CHR ''/'') \<and> \<not> is_space (CHR ''='')" by code_simp
  with e assms show ?thesis by (auto simp: b64_std_def split: if_splits)
qed

lemma trim_space_b64_std [simp]: "trim_space (b64_std s @ [CHR 0x0A]) = b64_std s"
proof (rule trim_space_newline)
  show "b64_std s = [] \<or> \<not> is_space (hd (b64_std s)) \<and> \<not> is_space (last (b64_std s))"
    using b64_std_chars hd_in_set last_in_set by (cases "b64_std s = []") auto
qed

text \<open>The three bits below and the top two bits of a key are fixed (RFC 7748).\<close>

lemma clamp_bits:
  assumes "length bytes = 32"
  shows "length (clamp bytes) = 32" and "(of_char (clamp bytes ! 0) :: int) mod 8 = 0"
    and "(of_char (clamp bytes ! 31) :: int) \<in> {64..127}"
proof -
  have b: "(n AND 248) mod 8 = 0 \<and> (n AND 248) \<in> {0..<256} \<and> (n AND 127) OR 64 \<in> {64..127}"
    if "0 \<le> n" for n :: int
  proof (intro conjI)
    have "take_bit 3 (n AND 248) = take_bit 3 n AND take_bit 3 248" by (rule take_bit_and)
    also have "take_bit 3 (248 :: int) = 0" by (simp add: take_bit_eq_mod)
    finally show "(n AND 248) mod 8 = 0" by (simp add: take_bit_eq_mod)
    show "(n AND 248) \<in> {0..<256}" using AND_upper2 [of 248 n] by simp
    have "n AND 127 < 2 ^ 7" using AND_upper2 [of 127 n] by simp
    then have "(n AND 127) OR 64 < 2 ^ 7" using that by (intro OR_upper) simp_all
    moreover have "64 \<le> 64 OR (n AND 127)" by (rule or_greater_eq) simp
    ultimately show "(n AND 127) OR 64 \<in> {64..127}" by (simp add: or.commute)
  qed
  show "length (clamp bytes) = 32" by (simp add: clamp_def assms)
  show "(of_char (clamp bytes ! 0) :: int) mod 8 = 0"
    using b [of "of_char (bytes ! 0)"] of_char_range [of "bytes ! 0"] assms
    by (simp add: clamp_def nth_list_update of_char_of)
  show "(of_char (clamp bytes ! 31) :: int) \<in> {64..127}"
    using b [of "of_char (bytes ! 31)"] of_char_range [of "bytes ! 31"] assms
    by (simp add: clamp_def nth_list_update of_char_of)
qed

text \<open>A run that finds no key.\<close>

lemma GenerateKeypair_new:
  assumes "paths H = (cfgPath, privPath, pubPath)" and "files H pubPath = None"
    and "GenerateKeypair random H = ((priv, pub, None), H')"
  obtains bytes out H1 H2 where "random = Inr bytes" "priv = b64_std (clamp bytes)" "pub = trim_space out"
    "Output [''wg'', ''pubkey''] (priv @ [CHR 0x0A]) H = (Inr out, H1)"
    "WriteFile privPath (priv @ [CHR 0x0A]) 0x180 H1 = (None, H2)"
    "WriteFile pubPath (pub @ [CHR 0x0A]) 0x1A4 H2 = (None, H')"
proof -
  have "\<exists>e. ReadFile pubPath H = Inl e" using assms(2) by (simp add: ReadFile_def split: option.splits)
  with assms(1,3) that show thesis
    by (auto simp: GenerateKeypair_def Let_def then_do_None split: option.splits sum.splits prod.splits)
qed


lemma GenerateKeypair_known:
  assumes "paths H = (cfgPath, privPath, pubPath)" and "ReadFile pubPath H = Inr text"
    and "GenerateKeypair random H = ((priv, pub, None), H')"
  shows "H' = H \<and> (\<forall>random. GenerateKeypair random H = ((priv, pub, None), H))"
  using assms by (auto simp: GenerateKeypair_def Let_def split: option.splits)

lemma paths_differ: "paths H = (cfgPath, privPath, pubPath) \<Longrightarrow> privPath \<noteq> pubPath \<and> cfgPath \<noteq> privPath \<and> cfgPath \<noteq> pubPath"
  by (auto simp: paths_def Let_def split: if_splits)

lemma WriteFile_ok:
  "WriteFile p c m H = (None, H') \<Longrightarrow> H' = H\<lparr>files := (files H)(p \<mapsto>
     \<lparr>contents = c, mode = (case files H p of Some f \<Rightarrow> mode f | None \<Rightarrow> m)\<rparr>)\<rparr>"
  by (simp add: WriteFile_def split: option.splits)


section \<open>Properties\<close>

text \<open>
  C35 (identity of a provider). Once a key pair has been made, every later start, whatever
  the random source gives then, returns the same pair, runs no program and changes no file.
\<close>

theorem keypair_survives_restart:
  assumes "GenerateKeypair random H = ((priv, pub, None), H1)"
    and "\<And>fs. program_files (machine H) [''wg'', ''pubkey''] fs = fs" and "\<And>p. read_error (machine H) p = None"
  shows "GenerateKeypair random2 H1 = ((priv, pub, None), H1)"
proof -
  obtain cfgPath privPath pubPath where p: "paths H = (cfgPath, privPath, pubPath)" by (metis prod_cases3)
  show ?thesis
  proof (cases "files H pubPath")
    case (Some f)
    then have "ReadFile pubPath H = Inr (contents f)" using assms(3) by (simp add: ReadFile_def)
    from GenerateKeypair_known [OF p this assms(1)] show ?thesis by simp
  next
    case None
    then obtain bytes out H2 H3 where new: "priv = b64_std (clamp bytes)" "pub = trim_space out"
      "Output [''wg'', ''pubkey''] (priv @ [CHR 0x0A]) H = (Inr out, H2)"
      "WriteFile privPath (priv @ [CHR 0x0A]) 0x180 H2 = (None, H3)"
      "WriteFile pubPath (pub @ [CHR 0x0A]) 0x1A4 H3 = (None, H1)"
      using GenerateKeypair_new [OF p _ assms(1)] by metis
    have "machine H2 = machine H"
      using Output_sel(2) [of "[''wg'', ''pubkey'']" "priv @ [CHR 0x0A]" H] new(3) by simp
    then have m: "machine H1 = machine H"
      using WriteFile_ok [OF new(4)] WriteFile_ok [OF new(5)] by simp
    have r: "ReadFile pubPath H1 = Inr (pub @ [CHR 0x0A])" "ReadFile privPath H1 = Inr (priv @ [CHR 0x0A])"
      using paths_differ [OF p] assms(3) WriteFile_ok [OF new(4)] WriteFile_ok [OF new(5)] m
      by (simp_all add: ReadFile_def)
    have "mkdir_error (machine H) (dir_of cfgPath) = None"
      using assms(1) p by (simp add: GenerateKeypair_def MkdirAll_def split: option.splits)
    then show ?thesis
      using r new(1,2) m p paths_machine [OF m] by (simp add: GenerateKeypair_def MkdirAll_def)
  qed
qed

definition sample_bytes :: string where
  "sample_bytes = replicate 32 CHR 0xFF"

definition key_host :: host where
  "key_host = plain_host\<lparr>machine := plain_machine\<lparr>answer := (\<lambda>h a i. (''PUB'' @ [CHR 0x0A], None))\<rparr>\<rparr>"

lemma key_host_run:
  "fst (GenerateKeypair (Inr sample_bytes) key_host) = (b64_std (clamp sample_bytes), ''PUB'', None)"
  by (simp add: GenerateKeypair_def paths_def isTermux_def key_host_def plain_host_def plain_machine_def
      MkdirAll_def ReadFile_def Output_def Exec_def WriteFile_def trim_space_def is_space_def Let_def)

theorem keypair_survives_restart_witness:
  "\<exists>H1. GenerateKeypair (Inr sample_bytes) key_host = ((b64_std (clamp sample_bytes), ''PUB'', None), H1) \<and>
     GenerateKeypair (Inl (Plain ''no random'')) H1 = ((b64_std (clamp sample_bytes), ''PUB'', None), H1)"
proof -
  have run: "GenerateKeypair (Inr sample_bytes) key_host =
      ((b64_std (clamp sample_bytes), ''PUB'', None), snd (GenerateKeypair (Inr sample_bytes) key_host))"
    using key_host_run by (metis prod.collapse)
  have "program_files (machine key_host) [''wg'', ''pubkey''] fs = fs" "read_error (machine key_host) p = None" for fs p
    by (simp_all add: key_host_def plain_machine_def)
  from keypair_survives_restart [OF run this] run show ?thesis by blast
qed

text \<open>
  Result (new key). A new private key is 32 random bytes with the bits of a Curve25519 scalar set,
  in standard base 64; it is stored in a file that only its owner can read.
\<close>

theorem new_key_is_clamped:
  assumes "paths H = (cfgPath, privPath, pubPath)" and "files H pubPath = None" and "files H privPath = None"
    and "\<And>fs. program_files (machine H) [''wg'', ''pubkey''] fs = fs"
    and "length bytes = 32" and "GenerateKeypair (Inr bytes) H = ((priv, pub, None), H')"
  shows "\<exists>key. priv = b64_std key \<and> length key = 32 \<and> (of_char (key ! 0) :: int) mod 8 = 0 \<and>
      (of_char (key ! 31) :: int) \<in> {64..127} \<and>
      files H' privPath = Some \<lparr>contents = priv @ [CHR 0x0A], mode = 0x180\<rparr>"
proof -
  obtain out H1 H2 where new: "priv = b64_std (clamp bytes)"
    "Output [''wg'', ''pubkey''] (priv @ [CHR 0x0A]) H = (Inr out, H1)"
    "WriteFile privPath (priv @ [CHR 0x0A]) 0x180 H1 = (None, H2)"
    "WriteFile pubPath (pub @ [CHR 0x0A]) 0x1A4 H2 = (None, H')"
    using GenerateKeypair_new [OF assms(1,2,6)] by (metis sum.inject(2))
  have "files H1 = files H"
    using Output_sel(3) [of "[''wg'', ''pubkey'']" "priv @ [CHR 0x0A]" H] new(2) assms(4) by simp
  with WriteFile_ok [OF new(3)] WriteFile_ok [OF new(4)] assms(3) paths_differ [OF assms(1)]
  have "files H' privPath = Some \<lparr>contents = priv @ [CHR 0x0A], mode = 0x180\<rparr>" by simp
  with new(1) clamp_bits [OF assms(5)] show ?thesis by (intro exI [of _ "clamp bytes"]) simp
qed

theorem new_key_is_clamped_witness:
  "\<exists>key H'. GenerateKeypair (Inr sample_bytes) key_host = ((b64_std key, ''PUB'', None), H') \<and>
     (of_char (key ! 0) :: int) mod 8 = 0 \<and> (of_char (key ! 31) :: int) \<in> {64..127}"
proof -
  have run: "GenerateKeypair (Inr sample_bytes) key_host =
      ((b64_std (clamp sample_bytes), ''PUB'', None), snd (GenerateKeypair (Inr sample_bytes) key_host))"
    using key_host_run by (metis prod.collapse)
  have p: "paths key_host = (''/etc/wireguard/wg0.conf'', ''/etc/wireguard/prov_private'', ''/etc/wireguard/prov_public'')"
    by (simp add: paths_def isTermux_def key_host_def plain_machine_def)
  have "files key_host p = None" "program_files (machine key_host) [''wg'', ''pubkey''] fs = fs" for fs p
    by (simp_all add: key_host_def plain_machine_def plain_host_def)
  moreover have "length sample_bytes = 32" by (simp add: sample_bytes_def)
  ultimately obtain key where key: "b64_std (clamp sample_bytes) = b64_std key"
    "(of_char (key ! 0) :: int) mod 8 = 0" "(of_char (key ! 31) :: int) \<in> {64..127}"
    using new_key_is_clamped [OF p _ _ _ _ run] by metis
  show ?thesis by (rule exI [of _ key], rule exI) (use run key in simp)
qed

text \<open>
  Result (configuration is applied). When \<open>WriteConfig\<close> succeeds, the file holds exactly the
  text of the control plane, and the interface was reloaded from it: by \<open>wg syncconf\<close> if it was
  up, by \<open>wg-quick up\<close> if not, and through \<open>wireguard-go\<close> on Termux.
\<close>

theorem WriteConfig_applies:
  assumes "paths H = (cfgPath, privPath, pubPath)" and "\<And>argv fs. program_files (machine H) argv fs cfgPath = fs cfgPath"
    and "WriteConfig conf H = (None, H')"
  shows "(\<exists>f. files H' cfgPath = Some f \<and> contents f = conf) \<and>
    (\<exists>cs. ran H' = ran H @ cs \<and>
      cs \<in> (if isTermux H
        then {[[''pkill'', ''-f'', ''wireguard-go wg0''], [''wireguard-go'', ''wg0''], [''wg'', ''setconf'', ''wg0'', cfgPath]]}
        else {[[''ip'', ''link'', ''show'', ''wg0''], [''wg'', ''syncconf'', ''wg0'', cfgPath]],
          [[''ip'', ''link'', ''show'', ''wg0''], [''wg-quick'', ''up'', ''wg0'']]}))"
proof -
  obtain H1 where w: "WriteFile cfgPath conf 0x180 H = (None, H1)" and b: "wg_bringUp H1 = (None, H')"
    using assms(1,3) by (auto simp: WriteConfig_def Let_def then_do_None split: option.splits)
  have m: "machine H1 = machine H" "ran H1 = ran H" using WriteFile_ok [OF w] by simp_all
  have t: "isTermux H1 = isTermux H" "paths H1 = (cfgPath, privPath, pubPath)"
    using m(1) assms(1) paths_machine [OF m(1)] by (simp_all add: isTermux_def)
  have "files H' cfgPath = files H1 cfgPath \<and> (\<exists>cs. ran H' = ran H1 @ cs \<and>
      cs \<in> (if isTermux H
        then {[[''pkill'', ''-f'', ''wireguard-go wg0''], [''wireguard-go'', ''wg0''], [''wg'', ''setconf'', ''wg0'', cfgPath]]}
        else {[[''ip'', ''link'', ''show'', ''wg0''], [''wg'', ''syncconf'', ''wg0'', cfgPath]],
          [[''ip'', ''link'', ''show'', ''wg0''], [''wg-quick'', ''up'', ''wg0'']]}))"
  proof (cases "isTermux H")
    case True
    let ?R = "Run [''pkill'', ''-f'', ''wireguard-go '' @ iface] H1"
    from b True t obtain H2 where u: "exec_combined ''wireguard-go: '' [''wireguard-go'', iface] (snd ?R) = (None, H2)"
      "exec_combined ''wg setconf: '' [''wg'', ''setconf'', iface, cfgPath] H2 = (None, H')"
      by (auto simp: wg_bringUp_def bringUpUserspace_def Let_def split_def then_do_None)
    then have "H2 = snd (exec_combined ''wireguard-go: '' [''wireguard-go'', iface] (snd ?R))"
      "H' = snd (exec_combined ''wg setconf: '' [''wg'', ''setconf'', iface, cfgPath] H2)" by simp_all
    with True show ?thesis by (simp add: assms(2) m iface_def)
  next
    case False
    let ?R = "Run [''ip'', ''link'', ''show'', iface] H1"
    from b False t have "H' = snd (exec_combined ''wg syncconf: '' [''wg'', ''syncconf'', iface, cfgPath] (snd ?R)) \<or>
        H' = snd (exec_combined (''wg-quick up '' @ iface @ '': '') [''wg-quick'', ''up'', iface] (snd ?R))"
      by (auto simp: wg_bringUp_def wg_isUp_def Let_def split_def split: if_splits)
    with False show ?thesis by (elim disjE) (simp_all add: assms(2) m iface_def)
  qed
  with WriteFile_ok [OF w] m(2) show ?thesis by simp
qed

end
