(* ===== verification/Agent.thy ===== *)
theory Agent
  imports Firecracker Container Passthrough Tunnel Attestation Sysinfo Prov_Wireguard Client
begin

text \<open>
  The provider's agent (\<open>internal/agent/agent.go\<close>): its start-up, the loop that polls for jobs,
  the goroutine of each job and the heartbeats. What runs concurrently is a sequence of events
  on one state, in any order: a poll, a started job that is handled, a relay that starts to
  listen, a heartbeat, the signal to stop. The calls of \<open>net/http\<close> change the state of the
  network (\<open>nd_cp\<close>), which is a parameter.
\<close>

record agent_config =
  ag_ControlPlaneURL :: string
  ag_Token :: string
  ag_Location :: string
  ag_LogLevel :: string
  ag_Mode :: string
  ag_SSHPort :: int

text \<open>What the process finds on its machine besides the host: libraries, random bytes, names.\<close>

record ('n, 'k) agent_world =
  aw_http :: "'n http_lib"
  aw_keys :: "'k key_lib"
  aw_random :: "string result"
  aw_hostname :: string
  aw_executable :: "string result"
  aw_numCPU :: int
  aw_goos :: string
  aw_goarch :: string
  aw_float :: "string \<Rightarrow> rat"

text \<open>
  \<open>nd_started\<close> are the jobs whose goroutine has not run yet, \<open>nd_relays\<close> the relays that do not
  listen yet, \<open>nd_taken\<close> the jobs that polls returned and \<open>nd_reports\<close> the reports that were made
  (received or not) so far, and \<open>nd_slept\<close> the nanoseconds of sleep that the loop has begun after errors. A crash ends the process, and so
  does the end of the loop.
\<close>

record 'n node =
  nd_vms :: vm_state
  nd_net :: network
  nd_cp :: 'n
  nd_started :: "deploy_job list"
  nd_relays :: "(string \<times> int \<times> string) list"
  nd_taken :: "deploy_job list"
  nd_reports :: "vm_report list"
  nd_slept :: int
  nd_stopping :: bool
  nd_ended :: "go_error option option"

abbreviation nd_host :: "'n node \<Rightarrow> host" where
  "nd_host N \<equiv> vm_host (nd_vms N)"

definition set_host :: "host \<Rightarrow> 'n node \<Rightarrow> 'n node" where
  "set_host H N = N\<lparr>nd_vms := (nd_vms N)\<lparr>vm_host := H\<rparr>\<rparr>"


section \<open>Start-up\<close>

definition isAndroid :: "host \<Rightarrow> bool" where
  "isAndroid H \<longleftrightarrow> getenv (machine H) ''ANDROID_ROOT'' \<noteq> []"

definition resolve_mode :: "string \<Rightarrow> host \<Rightarrow> string" where
  "resolve_mode m H =
     (if m = ''auto'' \<or> m = [] then
        (if KVMAvailable H then ''firecracker'' else if isAndroid H then ''ssh'' else ''container'')
      else m)"

definition registration :: "('n, 'k) agent_world \<Rightarrow> agent_config \<Rightarrow> string \<Rightarrow> string \<Rightarrow> attestation \<Rightarrow> host \<Rightarrow>
    register_message" where
  "registration W cfg md pubKey attest H =
     (let r = resources (aw_numCPU W) H in
      \<lparr>cr_Token = ag_Token cfg, cr_PublicKey = pubKey,
       cr_Resources = \<lparr>ci_CPUCores = ri_CPUCores r, ci_MemoryMB = ri_MemoryMB r, ci_DiskGB = ri_DiskGB r\<rparr>,
       cr_Location = ag_Location cfg, cr_Mode = md,
       cr_Meta = [(''machine_id'', MachineID attest), (''binary_hash'', BinaryHash attest),
         (''os'', aw_goos W), (''arch'', aw_goarch W)]\<rparr>)"

text \<open>What the rest of the agent works with.\<close>

record session =
  ss_client :: client
  ss_mode :: string
  ss_tunnelPort :: int
  ss_sshPort :: int
  ss_wgIP :: string

text \<open>\<open>Run\<close> up to the heartbeats and the loop; a failed attestation is only logged.\<close>

definition Startup :: "('n, 'k) agent_world \<Rightarrow> agent_config \<Rightarrow> 'n node \<Rightarrow> session result \<times> 'n node" where
  "Startup W cfg N =
     (let md = resolve_mode (ag_Mode cfg) (nd_host N) in
      case GenerateKeypair (aw_random W) (nd_host N) of
        ((privKey, pubKey, Some e), H) \<Rightarrow> (Inl e, set_host H N)
      | ((privKey, pubKey, None), H) \<Rightarrow>
         (let N1 = set_host H N;
              (attest, err) = Collect (aw_hostname W) (aw_executable W) H;
              cl = NewClient (ag_ControlPlaneURL cfg) (ag_Token cfg)
          in case Register_call (aw_http W) cl (registration W cfg md pubKey attest H) (nd_cp N1) of
               (Inl e, cp) \<Rightarrow> (Inl e, N1\<lparr>nd_cp := cp\<rparr>)
             | (Inr resp, cp) \<Rightarrow>
                 (case WriteConfig (ca_WGConfig resp) H of
                    (Some e, H2) \<Rightarrow> (Inl e, set_host H2 (N1\<lparr>nd_cp := cp\<rparr>))
                  | (None, H2) \<Rightarrow>
                      (Inr \<lparr>ss_client = SetProviderID (ca_ProviderID resp) cl, ss_mode = md,
                         ss_tunnelPort = ca_TunnelPort resp, ss_sshPort = ag_SSHPort cfg, ss_wgIP = ca_WGIP resp\<rparr>,
                       set_host H2 (N1\<lparr>nd_cp := cp\<rparr>)))))"


section \<open>Jobs\<close>

text \<open>The switch of \<open>handleJob\<close>: address and port of what was started. A mode that is none of the
  three starts nothing and is no error.\<close>

definition start_machine :: "('n, 'k) agent_world \<Rightarrow> vm_world \<Rightarrow> session \<Rightarrow> deploy_job \<Rightarrow> vm_state \<Rightarrow>
    (string \<times> int) result \<times> vm_state" where
  "start_machine W V s job S =
     (if ss_mode s = ''firecracker'' then
        (case Spawn V \<lparr>sp_JobID = dj_JobID job, sp_ImagePath = dj_ImageURL job, sp_CPUCores = dj_CPUCores job,
             sp_MemoryMB = dj_MemoryMB job, sp_SSHPubKey = dj_SSHPubKey job\<rparr> S of
           (Inl e, S1) \<Rightarrow> (Inl e, S1)
         | (Inr v, S1) \<Rightarrow> (Inr (fv_vmIP v, ss_tunnelPort s), S1))
      else if ss_mode s = ''container'' then
        (case SpawnContainer \<lparr>cc_JobID = dj_JobID job, cc_ImageRef = dj_ImageURL job, cc_CPUCores = dj_CPUCores job,
             cc_MemoryMB = dj_MemoryMB job, cc_SSHPubKey = dj_SSHPubKey job\<rparr> (vm_host S) of
           (Inl e, H) \<Rightarrow> (Inl e, S\<lparr>vm_host := H\<rparr>)
         | (Inr v, H) \<Rightarrow> (Inr (ct_ip v, ss_tunnelPort s), S\<lparr>vm_host := H\<rparr>))
      else if ss_mode s = ''ssh'' then
        (case SpawnSSH (aw_keys W) \<lparr>sc_JobID = dj_JobID job, sc_WireGuardIP = ss_wgIP s, sc_SSHPort = ss_sshPort s,
             sc_SSHPubKey = dj_SSHPubKey job\<rparr> (vm_host S) of
           (Inl e, H) \<Rightarrow> (Inl e, S\<lparr>vm_host := H\<rparr>)
         | (Inr v, H) \<Rightarrow> (Inr (pt_ip v, pt_port v), S\<lparr>vm_host := H\<rparr>))
      else (Inr ([], 0), S))"

definition job_report :: "session \<Rightarrow> deploy_job \<Rightarrow> (string \<times> int) result \<Rightarrow> vm_report" where
  "job_report s job r =
     (case r of
        Inl e \<Rightarrow> \<lparr>vr_JobID = dj_JobID job, vr_ProviderID = ProviderID (ss_client s), vr_VMIP = [], vr_Port = 0,
          vr_Status = ''failed'', vr_Error = Error e\<rparr>
      | Inr (ip, port) \<Rightarrow> \<lparr>vr_JobID = dj_JobID job, vr_ProviderID = ProviderID (ss_client s), vr_VMIP = ip, vr_Port = port,
          vr_Status = ''running'', vr_Error = []\<rparr>)"

text \<open>A relay is started in a goroutine of its own; an error of the report is only logged. A panic
  is not recovered and ends the process. A job is handled in one event, so two machines take their
  addresses one after the other; what overlapping goroutines get is in \<open>tap_addresses\<close>.\<close>

definition handleJob :: "('n, 'k) agent_world \<Rightarrow> vm_world \<Rightarrow> session \<Rightarrow> deploy_job \<Rightarrow> 'n node \<Rightarrow> 'n node" where
  "handleJob W V s job N =
     (let (r, S) = start_machine W V s job (nd_vms N); N1 = N\<lparr>nd_vms := S\<rparr>; rep = job_report s job r in
      if \<not> isl r \<or> \<not> is_panic (projl r) then
        (let N2 = (if \<not> isl r \<and> ss_mode s \<noteq> ''ssh''
             then N1\<lparr>nd_relays := nd_relays N1 @ [(ss_wgIP s, ss_tunnelPort s, fst (projr r))]\<rparr> else N1)
         in N2\<lparr>nd_cp := snd (ReportVM (aw_http W) (ss_client s) rep (nd_cp N2)), nd_reports := nd_reports N2 @ [rep]\<rparr>)
      else N1\<lparr>nd_ended := Some (Some (projl r))\<rparr>)"

definition heartbeat_message_of :: "('n, 'k) agent_world \<Rightarrow> session \<Rightarrow> host \<Rightarrow> heartbeat_message" where
  "heartbeat_message_of W s H =
     \<lparr>ch_ProviderID = ProviderID (ss_client s), ch_ActiveVMs = 0, ch_CPULoad = cpuLoad (aw_float W) H,
      ch_MemFreeMB = memFreeMB H\<rparr>"


section \<open>Running\<close>

datatype agent_event = Poll | Handle nat vm_world | Relay nat | Beat | Stop

definition drop_nth :: "nat \<Rightarrow> 'a list \<Rightarrow> 'a list" where
  "drop_nth k xs = take k xs @ drop (Suc k) xs"

text \<open>One round of the loop of \<open>Run\<close>.\<close>

definition poll_round :: "('n, 'k) agent_world \<Rightarrow> session \<Rightarrow> 'n node \<Rightarrow> 'n node" where
  "poll_round W s N =
     (if nd_stopping N then N\<lparr>nd_ended := Some None\<rparr>
      else (case PollJobs (aw_http W) (ss_client s) (nd_cp N) of
          (Inl e, cp) \<Rightarrow> N\<lparr>nd_cp := cp, nd_slept := nd_slept N + 5 * 1000000000\<rparr>
        | (Inr None, cp) \<Rightarrow> N\<lparr>nd_cp := cp\<rparr>
        | (Inr (Some job), cp) \<Rightarrow> N\<lparr>nd_cp := cp, nd_taken := nd_taken N @ [job], nd_started := nd_started N @ [job]\<rparr>))"

text \<open>A relay that listens goes on for ever: an error of \<open>Accept\<close>, after which \<open>Proxy\<close> returns and its
  listener is left to the garbage collector, is not among the events of the agent.\<close>

definition relay_up :: "string \<times> int \<times> string \<Rightarrow> 'n node \<Rightarrow> 'n node" where
  "relay_up = (\<lambda>(bindIP, port, ip) N.
     N\<lparr>nd_net := snd (Proxy bindIP port ip ([] :: (go_error + unit) list) (nd_net N))\<rparr>)"

definition beat :: "('n, 'k) agent_world \<Rightarrow> session \<Rightarrow> 'n node \<Rightarrow> 'n node" where
  "beat W s N =
     (if nd_stopping N then N
      else N\<lparr>nd_cp := snd (Heartbeat_call (aw_http W) (ss_client s) (heartbeat_message_of W s (nd_host N)) (nd_cp N))\<rparr>)"

fun agent_step :: "('n, 'k) agent_world \<Rightarrow> session \<Rightarrow> agent_event \<Rightarrow> 'n node \<Rightarrow> 'n node" where
  "agent_step W s Poll N = poll_round W s N"
| "agent_step W s (Handle k V) N =
     (if k < length (nd_started N)
      then handleJob W V s (nd_started N ! k) (N\<lparr>nd_started := drop_nth k (nd_started N)\<rparr>) else N)"
| "agent_step W s (Relay k) N =
     (if k < length (nd_relays N) then relay_up (nd_relays N ! k) (N\<lparr>nd_relays := drop_nth k (nd_relays N)\<rparr>) else N)"
| "agent_step W s Beat N = beat W s N"
| "agent_step W s Stop N = N\<lparr>nd_stopping := True\<rparr>"

text \<open>Nothing happens any more once the process has ended.\<close>

fun agent_run :: "('n, 'k) agent_world \<Rightarrow> session \<Rightarrow> agent_event list \<Rightarrow> 'n node \<Rightarrow> 'n node" where
  "agent_run W s [] N = N"
| "agent_run W s (e # es) N =
     (if nd_ended N = None then agent_run W s es (agent_step W s e N) else N)"

definition Run_agent :: "('n, 'k) agent_world \<Rightarrow> agent_config \<Rightarrow> agent_event list \<Rightarrow> 'n node \<Rightarrow> 'n node" where
  "Run_agent W cfg es N =
     (case Startup W cfg N of
        (Inl e, N1) \<Rightarrow> N1\<lparr>nd_ended := Some (Some e)\<rparr>
      | (Inr s, N1) \<Rightarrow> agent_run W s es N1)"


section \<open>Facts\<close>

definition job_failed :: "(string \<times> int) result \<Rightarrow> bool" where
  "job_failed r \<longleftrightarrow> isl r \<and> is_panic (projl r)"

lemma handleJob_sel:
  assumes "start_machine W V s job (nd_vms N) = (r, S)"
  shows "nd_taken (handleJob W V s job N) = nd_taken N" "nd_started (handleJob W V s job N) = nd_started N"
    "nd_net (handleJob W V s job N) = nd_net N" "nd_vms (handleJob W V s job N) = S"
    "nd_reports (handleJob W V s job N) = nd_reports N @ (if job_failed r then [] else [job_report s job r])"
    "nd_relays (handleJob W V s job N) = nd_relays N @
       (if \<not> isl r \<and> ss_mode s \<noteq> ''ssh'' then [(ss_wgIP s, ss_tunnelPort s, fst (projr r))] else [])"
    "nd_ended (handleJob W V s job N) = (if job_failed r then Some (Some (projl r)) else nd_ended N)"
  by (auto simp: handleJob_def assms Let_def job_failed_def)

lemma poll_round_sel [simp]:
  "nd_net (poll_round W s N) = nd_net N" "nd_reports (poll_round W s N) = nd_reports N"
  "nd_relays (poll_round W s N) = nd_relays N" "nd_vms (poll_round W s N) = nd_vms N"
  by (auto simp: poll_round_def split: prod.splits sum.splits option.splits)

lemma relay_up_sel [simp]:
  "nd_taken (relay_up x N) = nd_taken N" "nd_started (relay_up x N) = nd_started N"
  "nd_reports (relay_up x N) = nd_reports N" "nd_relays (relay_up x N) = nd_relays N"
  "nd_ended (relay_up x N) = nd_ended N"
  by (simp_all add: relay_up_def split: prod.splits)

lemma beat_sel [simp]:
  "nd_taken (beat W s N) = nd_taken N" "nd_started (beat W s N) = nd_started N" "nd_net (beat W s N) = nd_net N"
  "nd_reports (beat W s N) = nd_reports N" "nd_relays (beat W s N) = nd_relays N" "nd_ended (beat W s N) = nd_ended N"
  by (simp_all add: beat_def)

lemma mset_drop_nth: "k < length xs \<Longrightarrow> mset xs = add_mset (xs ! k) (mset (drop_nth k xs))"
  by (metis drop_nth_def add_mset_add_single append_take_drop_id Cons_nth_drop_Suc mset_append mset.simps(2) union_mset_add_mset_right)

lemma set_drop_nth: "set (drop_nth k xs) \<subseteq> set xs"
  by (auto simp: drop_nth_def dest: in_set_takeD in_set_dropD)

lemma agent_run_append:
  "agent_run W s (es @ fs) N = agent_run W s fs (agent_run W s es N)"
proof (induction es arbitrary: N)
  case (Cons e es)
  then show ?case by (cases fs) auto
qed simp

text \<open>Rule induction over a run, event by event.\<close>

lemma agent_run_induct:
  assumes "P N" and "\<And>M e. nd_ended M = None \<Longrightarrow> P M \<Longrightarrow> P (agent_step W s e M)"
  shows "P (agent_run W s es N)"
  using assms(1) by (induction es arbitrary: N) (auto simp: assms(2))

text \<open>Where the jobs are.\<close>

definition job_ids :: "'n node \<Rightarrow> string multiset" where
  "job_ids N = mset (map dj_JobID (nd_started N)) + mset (map vr_JobID (nd_reports N))"

definition panicked :: "'n node \<Rightarrow> bool" where
  "panicked N \<longleftrightarrow> (\<exists>e. nd_ended N = Some (Some e))"

definition jobs_kept :: "'n node \<Rightarrow> bool" where
  "jobs_kept N \<longleftrightarrow> (if panicked N then job_ids N \<subseteq># mset (map dj_JobID (nd_taken N))
     else job_ids N = mset (map dj_JobID (nd_taken N)))"

lemma job_report_id [simp]: "vr_JobID (job_report s job r) = dj_JobID job"
  by (cases r) (auto simp: job_report_def split: prod.splits)

lemma handle_kept:
  assumes "k < length (nd_started M)" and "nd_ended M = None" and "jobs_kept M"
  shows "jobs_kept (handleJob W V s (nd_started M ! k) (M\<lparr>nd_started := drop_nth k (nd_started M)\<rparr>))"
proof -
  let ?M = "M\<lparr>nd_started := drop_nth k (nd_started M)\<rparr>" and ?job = "nd_started M ! k"
  obtain r S where r: "start_machine W V s ?job (nd_vms ?M) = (r, S)" by fastforce
  have m: "mset (map dj_JobID (nd_started M)) = add_mset (dj_JobID ?job) (mset (map dj_JobID (drop_nth k (nd_started M))))"
    using mset_drop_nth [OF assms(1)] by simp
  from assms(2,3) have e: "job_ids M = mset (map dj_JobID (nd_taken M))" by (simp add: jobs_kept_def panicked_def)
  show ?thesis
  proof (cases "job_failed r")
    case True
    then have "job_ids (handleJob W V s ?job ?M) + {#dj_JobID ?job#} = mset (map dj_JobID (nd_taken M))"
      using m e by (simp add: job_ids_def handleJob_sel [OF r])
    then have "job_ids (handleJob W V s ?job ?M) \<subseteq># mset (map dj_JobID (nd_taken M))"
      by (metis mset_subset_eq_add_left)
    with True show ?thesis by (simp add: jobs_kept_def panicked_def handleJob_sel [OF r])
  next
    case False
    then show ?thesis using m e assms(2) by (simp add: jobs_kept_def panicked_def job_ids_def handleJob_sel [OF r])
  qed
qed

lemma step_kept:
  assumes "nd_ended M = None" and "jobs_kept M"
  shows "jobs_kept (agent_step W s e M)"
proof (cases e)
  case Poll
  with assms show ?thesis
    by (auto simp: jobs_kept_def panicked_def job_ids_def poll_round_def split: prod.splits sum.splits option.splits)
next
  case (Handle k V)
  with assms show ?thesis by (simp add: handle_kept)
qed (use assms in \<open>auto simp: jobs_kept_def panicked_def job_ids_def\<close>)

text \<open>The relays of a session all want the same address.\<close>

definition relay_address :: "session \<Rightarrow> string" where
  "relay_address s = listen_addr (ss_wgIP s) (ss_tunnelPort s)"

definition same_port :: "session \<Rightarrow> 'n node \<Rightarrow> bool" where
  "same_port s N \<longleftrightarrow> (\<forall>x \<in> set (nd_relays N). fst x = ss_wgIP s \<and> fst (snd x) = ss_tunnelPort s) \<and>
     (\<forall>r \<in> set (nd_reports N). vr_Status r = ''running'' \<longrightarrow> vr_Port r = ss_tunnelPort s)"

lemma start_machine_port:
  assumes "start_machine W V s job S = (Inr (ip, port), S')" and "ss_mode s \<in> {''firecracker'', ''container''}"
  shows "port = ss_tunnelPort s"
  using assms by (auto simp: start_machine_def split: prod.splits sum.splits if_splits)

lemma job_report_port:
  assumes "start_machine W V s job S = (r, S')" and "ss_mode s \<in> {''firecracker'', ''container''}"
    and "vr_Status (job_report s job r) = ''running''"
  shows "vr_Port (job_report s job r) = ss_tunnelPort s"
  using assms start_machine_port [OF _ assms(2)]
  by (cases r) (auto simp: job_report_def split: prod.splits)

lemma handle_same_port:
  assumes "ss_mode s \<in> {''firecracker'', ''container''}" and "same_port s N"
  shows "same_port s (handleJob W V s job N)"
proof -
  obtain r S where r: "start_machine W V s job (nd_vms N) = (r, S)" by fastforce
  show ?thesis
    using assms(2) job_report_port [OF r assms(1)] by (auto simp: same_port_def handleJob_sel [OF r])
qed

lemma step_same_port:
  assumes "ss_mode s \<in> {''firecracker'', ''container''}" and "same_port s N"
  shows "same_port s (agent_step W s e N)"
proof (cases e)
  case (Handle k V)
  have "same_port s (N\<lparr>nd_started := x\<rparr>)" for x using assms(2) by (simp add: same_port_def)
  with Handle assms show ?thesis by (simp add: handle_same_port)
next
  case (Relay k)
  with assms set_drop_nth [of k "nd_relays N"] show ?thesis by (auto simp: same_port_def)
qed (use assms(2) in \<open>auto simp: same_port_def\<close>)

lemma Proxy_listeners:
  "listeners (snd (Proxy b p ip xs N)) = (let a = listen_addr b p in
     if listeners N a \<noteq> None \<or> listen_error N a \<noteq> None then listeners N else (listeners N)(a \<mapsto> ip @ '':22''))"
  by (auto simp: Proxy_def Listen_def Let_def split: option.splits prod.splits)

text \<open>A bound address stays bound to what it was bound to.\<close>

lemma step_listeners:
  assumes "listeners (nd_net N) a = Some d"
  shows "listeners (nd_net (agent_step W s e N)) a = Some d"
proof (cases e)
  case (Handle k V)
  obtain r S where r: "start_machine W V s (nd_started N ! k) (nd_vms (N\<lparr>nd_started := drop_nth k (nd_started N)\<rparr>)) = (r, S)"
    by fastforce
  from Handle assms show ?thesis by (simp add: handleJob_sel [OF r])
next
  case (Relay k)
  with assms show ?thesis by (auto simp: relay_up_def Proxy_listeners Let_def split: prod.splits)
qed (use assms in auto)

lemma run_listeners:
  assumes "listeners (nd_net N) a = Some d"
  shows "listeners (nd_net (agent_run W s es N)) a = Some d"
  by (rule agent_run_induct [where P = "\<lambda>N. listeners (nd_net N) a = Some d"]) (auto simp: assms step_listeners)

lemma run_same_port:
  assumes "ss_mode s \<in> {''firecracker'', ''container''}" and "same_port s N"
  shows "same_port s (agent_run W s es N)"
  by (rule agent_run_induct, rule assms(2), rule step_same_port [OF assms(1)])


section \<open>Properties\<close>

text \<open>
  Result (jobs of the agent). In whatever order polls, jobs, relays and heartbeats interleave, a job
  that a poll returned either waits for its goroutine or has been reported, as often as it was
  returned; no report is made for anything else, and none is missing unless a panic ended the
  process.
\<close>

theorem agent_keeps_jobs:
  assumes "nd_taken N = []" and "nd_started N = []" and "nd_reports N = []"
    and "agent_run W s es N = M"
  shows "mset (map dj_JobID (nd_started M)) + mset (map vr_JobID (nd_reports M)) \<subseteq># mset (map dj_JobID (nd_taken M)) \<and>
    (\<not> panicked M \<longrightarrow>
      mset (map dj_JobID (nd_started M)) + mset (map vr_JobID (nd_reports M)) = mset (map dj_JobID (nd_taken M)))"
proof -
  have "jobs_kept N" using assms(1-3) by (simp add: jobs_kept_def job_ids_def)
  then have "jobs_kept (agent_run W s es N)" by (rule agent_run_induct) (rule step_kept)
  then show ?thesis
    unfolding assms(4) jobs_kept_def job_ids_def by (cases "panicked M") auto
qed

text \<open>A control plane that has one job to give, and hears no report.\<close>

definition job_text :: string where
  "job_text = ''{'' @ [CHR 0x22] @ ''job_id'' @ [CHR 0x22] @ '':'' @ [CHR 0x22] @ ''01234567'' @ [CHR 0x22] @ ''}''"

definition job_http :: "nat http_lib" where
  "job_http = \<lparr>bad_url = (\<lambda>u. if u = ''http://cp/api/v1/vms/report'' then Some (Plain ''down'') else None),
     Do = (\<lambda>t m n. (Inr (if hm_method m = ''GET'' \<and> n = 0 then (200, job_text) else (204, [])), Suc n)),
     client_runtime = exact_runtime, float_text = (\<lambda>x. [])\<rparr>"

definition job_world :: "(nat, string) agent_world" where
  "job_world = \<lparr>aw_http = job_http, aw_keys = plain_keys, aw_random = Inr [], aw_hostname = ''h'', aw_executable = Inr ''/x'',
     aw_numCPU = 1, aw_goos = ''linux'', aw_goarch = ''amd64'', aw_float = (\<lambda>s. 0)\<rparr>"

definition sample_session :: "string \<Rightarrow> session" where
  "sample_session md = \<lparr>ss_client = NewClient ''http://cp'' ''t'', ss_mode = md, ss_tunnelPort = 9, ss_sshPort = 0,
     ss_wgIP = ''10.99.1.1''\<rparr>"

definition sample_node :: "deploy_job list \<Rightarrow> nat node" where
  "sample_node js = \<lparr>nd_vms = sample_vms, nd_net = \<lparr>listeners = (\<lambda>a. None), listen_error = (\<lambda>a. None)\<rparr>, nd_cp = 0,
     nd_started = js, nd_relays = [], nd_taken = [], nd_reports = [], nd_slept = 0, nd_stopping = False, nd_ended = None\<rparr>"

theorem agent_keeps_jobs_witness:
  "(let M = agent_run job_world (sample_session ''firecracker'') [Poll, Poll, Handle 0 sample_world] (sample_node []) in
     map dj_JobID (nd_taken M) = [''01234567''] \<and> mset (map vr_JobID (nd_reports M)) = {#''01234567''#})"
proof -
  let ?N = "sample_node []"
  let ?M = "agent_run job_world (sample_session ''firecracker'') [Poll, Poll, Handle 0 sample_world] ?N"
  have n: "nd_taken ?N = []" "nd_started ?N = []" "nd_reports ?N = []" by (simp_all add: sample_node_def)
  have t: "map dj_JobID (nd_taken ?M) = [''01234567'']" "nd_started ?M = []" "nd_ended ?M = None" by code_simp+
  from agent_keeps_jobs [OF n refl, of job_world "sample_session ''firecracker''" "[Poll, Poll, Handle 0 sample_world]"]
  have "mset (map vr_JobID (nd_reports ?M)) = mset (map dj_JobID (nd_taken ?M))"
    using t(2,3) by (simp add: panicked_def)
  with t(1) show ?thesis unfolding Let_def by simp
qed

text \<open>A report whose address and port lead to the machine it reports.\<close>

definition reachable :: "session \<Rightarrow> 'n node \<Rightarrow> vm_report \<Rightarrow> bool" where
  "reachable s N r \<longleftrightarrow> listeners (nd_net N) (listen_addr (ss_wgIP s) (vr_Port r)) = Some (vr_VMIP r @ '':22'')"

text \<open>
  C14 (one machine per provider). All machines of a session are reported as running on the one
  tunnel port the provider was given, but only one of them is ever relayed there: the first
  relay keeps the address for good, later ones fail, and their buyers are connected to the
  machine of the first. (Errors of \<open>Accept\<close>, which end a relay, are not among the events.)
\<close>

theorem one_machine_per_port:
  assumes "ss_mode s \<in> {''firecracker'', ''container''}" and "nd_relays N = []" and "nd_reports N = []"
    and "agent_run W s es N = M"
  shows "(\<forall>r \<in> set (nd_reports M). vr_Status r = ''running'' \<longrightarrow> vr_Port r = ss_tunnelPort s) \<and>
    (\<forall>r1 \<in> set (nd_reports M). \<forall>r2 \<in> set (nd_reports M).
       vr_Status r1 = ''running'' \<and> vr_Status r2 = ''running'' \<and> vr_VMIP r1 \<noteq> vr_VMIP r2 \<and> reachable s M r1 \<longrightarrow>
       (\<forall>fs. \<not> reachable s (agent_run W s fs M) r2))"
proof -
  have "same_port s N" using assms(2,3) by (simp add: same_port_def)
  from run_same_port [OF assms(1) this, of W es] have p: "same_port s M" by (simp add: assms(4))
  then have port: "vr_Port r = ss_tunnelPort s" if "r \<in> set (nd_reports M)" "vr_Status r = ''running''" for r
    using that by (simp add: same_port_def)
  have "\<not> reachable s (agent_run W s fs M) r2"
    if r: "r1 \<in> set (nd_reports M)" "r2 \<in> set (nd_reports M)" "vr_Status r1 = ''running''" "vr_Status r2 = ''running''"
      "vr_VMIP r1 \<noteq> vr_VMIP r2" "reachable s M r1" for r1 r2 fs
  proof -
    from r(6) have "listeners (nd_net M) (relay_address s) = Some (vr_VMIP r1 @ '':22'')"
      by (simp add: reachable_def relay_address_def port [OF r(1,3)])
    from run_listeners [OF this, of W s fs] show ?thesis
      using r(5) by (simp add: reachable_def port [OF r(2,4)] relay_address_def)
  qed
  with port show ?thesis by blast
qed

definition sample_deploy_job :: "string \<Rightarrow> deploy_job" where
  "sample_deploy_job i = empty_job\<lparr>dj_JobID := i, dj_ImageURL := ''/i'', dj_CPUCores := 1, dj_MemoryMB := 64\<rparr>"

text \<open>A Docker that gives two containers two addresses.\<close>

definition two_containers :: host where
  "two_containers = plain_host\<lparr>machine := plain_machine\<lparr>answer := (\<lambda>h a i.
     (if a ! 1 = ''run'' then (if h = [] then ''aaaaaaaaaaaa'' else ''bbbbbbbbbbbb'')
      else if last a = ''aaaaaaaaaaaa'' then ''10.0.0.2'' else ''10.0.0.3'', None))\<rparr>\<rparr>"

definition two_jobs :: "nat node" where
  "two_jobs = set_host two_containers (sample_node [sample_deploy_job ''j1'', sample_deploy_job ''j2''])"

theorem one_machine_per_port_witness:
  "\<exists>M r1 r2. agent_run job_world (sample_session ''container'') [Handle 0 sample_world, Handle 0 sample_world, Relay 0, Relay 0]
       two_jobs = M \<and>
     nd_reports M = [r1, r2] \<and> vr_Status r2 = ''running'' \<and> vr_Port r2 = vr_Port r1 \<and> reachable (sample_session ''container'') M r1 \<and>
     \<not> reachable (sample_session ''container'') M r2"
proof -
  let ?s = "sample_session ''container''" and ?j1 = "sample_deploy_job ''j1''" and ?j2 = "sample_deploy_job ''j2''"
  let ?es = "[Handle 0 sample_world, Handle 0 sample_world, Relay 0, Relay 0]"
  let ?R1 = "start_machine job_world sample_world ?s ?j1 (nd_vms two_jobs)"
  let ?R2 = "start_machine job_world sample_world ?s ?j2 (snd ?R1)"
  have n: "ss_mode ?s \<in> {''firecracker'', ''container''}" "nd_relays two_jobs = []" "nd_reports two_jobs = []"
    "nd_started two_jobs = [?j1, ?j2]" "nd_ended two_jobs = None" "listeners (nd_net two_jobs) = (\<lambda>a. None)"
    "listen_error (nd_net two_jobs) = (\<lambda>a. None)"
    by (simp_all add: sample_session_def sample_node_def two_jobs_def set_host_def)
  have s: "ss_mode ?s = ''container''" "ss_wgIP ?s = ''10.99.1.1''" "ss_tunnelPort ?s = 9"
    by (simp_all add: sample_session_def)
  have "fst ?R1 = Inr (''10.0.0.2'', 9)" "fst ?R2 = Inr (''10.0.0.3'', 9)" by code_simp+
  then have r1: "?R1 = (Inr (''10.0.0.2'', 9), snd ?R1)" and r2: "?R2 = (Inr (''10.0.0.3'', 9), snd ?R2)"
    by (metis prod.collapse)+
  define M1 where "M1 = handleJob job_world sample_world ?s ?j1 (two_jobs\<lparr>nd_started := [?j2]\<rparr>)"
  define M2 where "M2 = handleJob job_world sample_world ?s ?j2 (M1\<lparr>nd_started := []\<rparr>)"
  define M where "M = agent_run job_world ?s ?es two_jobs"
  have r1': "start_machine job_world sample_world ?s ?j1 (nd_vms (two_jobs\<lparr>nd_started := [?j2]\<rparr>)) =
      (Inr (''10.0.0.2'', 9), snd ?R1)" using r1 by simp
  note h1 = handleJob_sel [OF r1', folded M1_def]
  have r2': "start_machine job_world sample_world ?s ?j2 (nd_vms (M1\<lparr>nd_started := []\<rparr>)) =
      (Inr (''10.0.0.3'', 9), snd ?R2)" using r2 h1(4) by simp
  note h2 = handleJob_sel [OF r2', folded M2_def]
  have e1: "agent_step job_world ?s (Handle 0 sample_world) two_jobs = M1"
    unfolding M1_def by (simp add: n(4) drop_nth_def)
  have f1: "nd_started M1 = [?j2]" "nd_ended M1 = None" "nd_relays M1 = [(''10.99.1.1'', 9, ''10.0.0.2'')]"
    using h1 n s by (simp_all add: job_failed_def)
  have e2: "agent_step job_world ?s (Handle 0 sample_world) M1 = M2"
    unfolding M2_def by (simp add: f1 drop_nth_def)
  have f2: "nd_ended M2 = None" "nd_relays M2 = [(''10.99.1.1'', 9, ''10.0.0.2''), (''10.99.1.1'', 9, ''10.0.0.3'')]"
    using h2 f1 s by (simp_all add: job_failed_def)
  have "M = relay_up (''10.99.1.1'', 9, ''10.0.0.3'') (relay_up (''10.99.1.1'', 9, ''10.0.0.2'')
      (M2\<lparr>nd_relays := [(''10.99.1.1'', 9, ''10.0.0.3'')]\<rparr>)\<lparr>nd_relays := []\<rparr>)"
    unfolding M_def agent_run.simps e1 n(5) if_P [OF refl] e2 f1(2) by (simp add: f2 drop_nth_def)
  then have m: "nd_reports M = [job_report ?s ?j1 (Inr (''10.0.0.2'', 9)), job_report ?s ?j2 (Inr (''10.0.0.3'', 9))]"
    "listeners (nd_net M) (listen_addr ''10.99.1.1'' 9) = Some ''10.0.0.2:22''"
    using h1 h2 n by (simp_all add: job_failed_def relay_up_def Proxy_listeners Let_def)
  let ?r1 = "job_report ?s ?j1 (Inr (''10.0.0.2'', 9))" and ?r2 = "job_report ?s ?j2 (Inr (''10.0.0.3'', 9))"
  have v: "vr_Status ?r1 = ''running''" "vr_Status ?r2 = ''running''" "vr_VMIP ?r1 \<noteq> vr_VMIP ?r2"
    "vr_Port ?r1 = 9" "vr_Port ?r2 = 9" "vr_VMIP ?r1 = ''10.0.0.2''"
    by (simp_all add: job_report_def)
  then have x: "reachable ?s M ?r1" using m(2) s(2) by (simp add: reachable_def)
  from one_machine_per_port [OF n(1-3) M_def [symmetric], THEN conjunct2]
  have "\<not> reachable ?s (agent_run job_world ?s [] M) ?r2"
    unfolding m(1) using v(1-3) x by (meson list.set_intros)
  then show ?thesis
    using m(1) v x by (intro exI [of _ M] exI [of _ ?r1] exI [of _ ?r2]) (simp add: M_def)
qed

text \<open>
  Result (unknown mode). A mode that is neither of the three is not refused: every job is reported as
  running, without address and on port 0, though nothing was started, and the tunnel port of the
  provider is relayed to \<open>:22\<close>, which is the provider itself.
\<close>

theorem unknown_mode_reports_running:
  assumes "ss_mode s \<notin> {''firecracker'', ''container'', ''ssh''}" and "handleJob W V s job N = M"
  shows "nd_vms M = nd_vms N \<and>
    nd_reports M = nd_reports N @ [\<lparr>vr_JobID = dj_JobID job, vr_ProviderID = ProviderID (ss_client s), vr_VMIP = [],
      vr_Port = 0, vr_Status = ''running'', vr_Error = []\<rparr>] \<and>
    nd_relays M = nd_relays N @ [(ss_wgIP s, ss_tunnelPort s, [])] \<and> nd_ended M = nd_ended N \<and>
    (listeners (nd_net M) (relay_address s) = None \<longrightarrow> listen_error (nd_net M) (relay_address s) = None \<longrightarrow>
      listeners (nd_net (relay_up (ss_wgIP s, ss_tunnelPort s, []) M)) (relay_address s) = Some '':22'')"
proof -
  have r: "start_machine W V s job (nd_vms N) = (Inr ([], 0), nd_vms N)"
    using assms(1) by (simp add: start_machine_def)
  show ?thesis
    using assms(1) unfolding assms(2) [symmetric] handleJob_sel [OF r]
    by (auto simp: job_report_def job_failed_def relay_up_def Proxy_listeners Let_def relay_address_def handleJob_sel [OF r])
qed

theorem unknown_mode_reports_running_witness:
  "resolve_mode ''docker'' plain_host = ''docker'' \<and>
   nd_relays (handleJob job_world sample_world (sample_session ''docker'') (sample_deploy_job ''j1'') (sample_node [])) =
     [(''10.99.1.1'', 9, [])]"
proof -
  have "ss_mode (sample_session ''docker'') \<notin> {''firecracker'', ''container'', ''ssh''}" by (simp add: sample_session_def)
  from unknown_mode_reports_running [OF this refl, of job_world sample_world "sample_deploy_job ''j1''" "sample_node []"]
  show ?thesis by (simp add: sample_node_def sample_session_def resolve_mode_def)
qed

text \<open>
  Result (environment and disk). What the agent does with a job depends neither on its environment
  variables nor on the disk it asks for.
\<close>

theorem job_env_is_ignored:
  "handleJob W V s (job\<lparr>dj_Env := env, dj_DiskGB := disk\<rparr>) N = handleJob W V s job N"
proof -
  have "start_machine W V s (job\<lparr>dj_Env := env, dj_DiskGB := disk\<rparr>) S = start_machine W V s job S" for S
    by (simp add: start_machine_def)
  moreover have "job_report s (job\<lparr>dj_Env := env, dj_DiskGB := disk\<rparr>) r = job_report s job r" for r
    by (simp add: job_report_def split: sum.splits)
  ultimately show ?thesis unfolding handleJob_def by simp
qed

text \<open>
  Result (end of the process). A container without an address whose id Docker prints with fewer than
  12 bytes ends the whole process: all other jobs that wait are never handled, and nothing more
  is reported.
\<close>

theorem panic_ends_agent:
  assumes "start_machine W V s (nd_started N ! k) (nd_vms N) = (Inl (Panic m), S)" and "k < length (nd_started N)"
    and "nd_ended N = None" and "agent_run W s (Handle k V # es) N = M"
  shows "nd_ended M = Some (Some (Panic m)) \<and> nd_reports M = nd_reports N \<and> nd_started M = drop_nth k (nd_started N)"
proof -
  let ?N = "N\<lparr>nd_started := drop_nth k (nd_started N)\<rparr>"
  have r: "start_machine W V s (nd_started N ! k) (nd_vms ?N) = (Inl (Panic m), S)" using assms(1) by simp
  have p: "job_failed (Inl (Panic m) :: (string \<times> int) result)" by (simp add: job_failed_def is_panic_def)
  have "agent_step W s (Handle k V) N = handleJob W V s (nd_started N ! k) ?N" using assms(2) by simp
  moreover have "nd_ended (handleJob W V s (nd_started N ! k) ?N) = Some (Some (Panic m))"
    using handleJob_sel(7) [OF r] p by simp
  ultimately have "M = handleJob W V s (nd_started N ! k) ?N"
    using assms(3,4) by (cases es) simp_all
  then show ?thesis using handleJob_sel [OF r] p by simp
qed

definition short_id :: host where
  "short_id = plain_host\<lparr>machine := plain_machine\<lparr>answer := (\<lambda>h a i. (if h = [] then ''abc'' else [], None))\<rparr>\<rparr>"

theorem panic_ends_agent_witness:
  "\<exists>M. agent_run job_world (sample_session ''container'') [Handle 0 sample_world, Handle 0 sample_world]
       (set_host short_id (sample_node [sample_deploy_job ''j1'', sample_deploy_job ''j2''])) = M \<and>
     nd_reports M = [] \<and> nd_started M = [sample_deploy_job ''j2'']"
proof -
  let ?N = "set_host short_id (sample_node [sample_deploy_job ''j1'', sample_deploy_job ''j2''])"
  let ?s = "sample_session ''container''"
  have n: "nd_started ?N = [sample_deploy_job ''j1'', sample_deploy_job ''j2'']" "nd_ended ?N = None" "nd_reports ?N = []"
    by (simp_all add: sample_node_def set_host_def)
  let ?R = "start_machine job_world sample_world ?s (sample_deploy_job ''j1'') (nd_vms ?N)"
  have "fst ?R = Inl (Panic ''slice bounds out of range'')" by code_simp
  then have "start_machine job_world sample_world ?s (nd_started ?N ! 0) (nd_vms ?N) = (Inl (Panic ''slice bounds out of range''), snd ?R)"
    unfolding n(1) nth_Cons_0 by (metis prod.collapse)
  from panic_ends_agent [OF this _ n(2) refl, of "[Handle 0 sample_world]"] n show ?thesis
    by (simp add: drop_nth_def)
qed

end
