(* ===== verification/Platform.thy ===== *)
theory Platform
  imports End_To_End Agent
begin

text \<open>
  The two programs together: an agent whose calls reach the control plane as text, and a control
  plane that serves other providers, buyers and its operator in between. What holds of every
  run links the jobs of the agent with the rows of the database.
\<close>


section \<open>Runs\<close>

text \<open>An agent's step goes over the wire, with any inputs of the handler and taking any time; anything
  else that happens to the control plane is an event of its own.\<close>

inductive platform :: "('k, 's, 'c) api \<Rightarrow> ('r control, 'l) agent_world \<Rightarrow> session \<Rightarrow> 'r control node \<Rightarrow>
    'r control node \<Rightarrow> bool"
  for A :: "('k, 's, 'c) api" and W :: "('r control, 'l) agent_world" and s :: session and N0 :: "'r control node" where
  boot: "platform A W s N0 N0"
| agent: "platform A W s N0 N \<Longrightarrow> nd_ended N = None \<Longrightarrow>
    platform A W s N0 (agent_step (W\<lparr>aw_http := wired A i took (cl_baseURL (ss_client s)) ft rt\<rparr>) s e N)"
| plane: "platform A W s N0 N \<Longrightarrow> platform A W s N0 (N\<lparr>nd_cp := after A ev (nd_cp N)\<rparr>)"



section \<open>Calls as events\<close>

declare fold_name.simps [simp del] to_utf8.simps [simp del] to_utf8.simps(1) [simp]

lemma exchange_after: "snd (exchange A i took base ft t m C) = after A (Request i (to_request base m)) C"
  by (simp add: exchange_def split_def Let_def)

lemma post_after: "\<exists>rq. snd (post (wired A i took base ft rt) c path body C) = after A (Request i rq) C"
proof -
  let ?m = "setHeaders c (new_request ''POST'' (cl_baseURL c @ path) (print_json ft body))"
  have "snd (post (wired A i took base ft rt) c path body C) = snd (exchange A i took base ft (cl_timeout c) ?m C)"
    by (auto simp: post_def Let_def split: prod.splits sum.splits)
  then show ?thesis by (auto simp: exchange_after)
qed

lemma report_after: "\<exists>rq. snd (ReportVM (wired A i took base ft rt) c r C) = after A (Request i rq) C"
  and heartbeat_after: "\<exists>rq. snd (Heartbeat_call (wired A i took base ft rt) c h C) = after A (Request i rq) C"
proof -
  have "snd (ReportVM L c r C) = snd (post L c ''/api/v1/vms/report'' (vm_report_json r) C)" for L
    by (auto simp: ReportVM_def split: prod.splits sum.splits)
  then show "\<exists>rq. snd (ReportVM (wired A i took base ft rt) c r C) = after A (Request i rq) C" using post_after by metis
  have "snd (Heartbeat_call L c h C) = snd (post L c ''/api/v1/providers/heartbeat'' (heartbeat_message_json h) C)" for L
    by (auto simp: Heartbeat_call_def split: prod.splits sum.splits)
  then show "\<exists>rq. snd (Heartbeat_call (wired A i took base ft rt) c h C) = after A (Request i rq) C" using post_after by metis
qed

text \<open>Whatever else the text of a job brings, its id is the id of the row.\<close>

lemma decode_body_text:
  assumes "readable 0 j" and "decode_body rt specs zero (print_json ft j @ [CHR 0x0A]) = Inr a"
  shows "into_struct specs j zero = Some a"
  using assms first_value_print [of j "[CHR 0x0A]" ft] by (auto simp: decode_body_def split: option.splits)

lemma job_text_id:
  assumes "decode_body rt deploy_job_fields empty_job (print_json ft (job_json j) @ [CHR 0x0A]) = Inr d"
  shows "dj_JobID d = to_utf8 (j_id j)"
proof -
  have "readable 0 (job_json j)" by (auto simp: job_json_def env_json_def list_all_iff split: option.splits)
  from decode_body_text [OF this assms] have d: "into_struct deploy_job_fields (job_json j) empty_job = Some d" .
  note defs = into_struct_def job_json_def env_json_def deploy_job_fields_def empty_job_def str_field_def int_field_def
    map_field_def jstr_def
  show ?thesis
  proof (cases "int64 (j_cpu_cores j) \<and> int64 (j_memory_mb j) \<and> int64 (j_disk_gb j)")
    case True
    then show ?thesis using d by (cases "j_env j") (auto simp: defs split: option.splits)
  next
    case False
    then have "into_struct deploy_job_fields (job_json j) empty_job = None"
      by (auto simp: defs split: option.splits)
    with d show ?thesis by simp
  qed
qed

lemma poll_job:
  assumes "stores_ok (core C)" and "plain_segment pid"
    and "PollJobs (wired A i took base ft rt) (client_of base tok pid) C = (r, C')"
  shows "(\<exists>rq. C' = after A (Request i rq) C) \<and>
    (\<forall>d. r = Inr (Some d) \<longrightarrow> (\<exists>x. dj_JobID d = to_utf8 x \<and> abs_jobs (tabs (db (core C))) x = Some (Scheduled, pid) \<and>
      abs_jobs (tabs (db (core C'))) x = Some (Running, pid)))"
proof
  let ?m = "setHeaders (client_of base tok pid) (new_request ''GET'' (base @ ''/api/v1/providers/'' @ pid @ ''/jobs?wait=25'') [])"
  obtain resp C1 where s: "Serve A i (to_request base ?m) C = (resp, C1)" by fastforce
  from PollJobs_wired [OF this refl] assms(3) have "C' = C1" by simp
  with s show "\<exists>rq. C' = after A (Request i rq) C" by (metis after.simps(1) snd_conv)
  obtain jo err S' where p: "PollForProvider (locked_jobs i) pid 25 (core C) = ((jo, err), S')" by (metis prod.collapse)
  have run: "(r, C') = (if took \<ge> limit then Inl timed_out
     else if err \<noteq> None then Inl (Plain ''poll jobs: HTTP 500'')
     else (case jo of None \<Rightarrow> Inr None
       | Some j \<Rightarrow> map_sum id Some (decode_body rt deploy_job_fields empty_job (print_json ft (job_json j) @ [CHR 0x0A]))),
     C\<lparr>core := S'\<rparr>)"
    using poll_exchange [OF assms(2) p, of A took base ft rt tok] assms(3) by simp
  show "\<forall>d. r = Inr (Some d) \<longrightarrow> (\<exists>x. dj_JobID d = to_utf8 x \<and> abs_jobs (tabs (db (core C))) x = Some (Scheduled, pid) \<and>
      abs_jobs (tabs (db (core C'))) x = Some (Running, pid))"
  proof (intro allI impI)
    fix d assume "r = Inr (Some d)"
    with run obtain j where j: "jo = Some j" "err = None" "C' = C\<lparr>core := S'\<rparr>"
      "decode_body rt deploy_job_fields empty_job (print_json ft (job_json j) @ [CHR 0x0A]) = Inr d"
      by (auto split: if_splits option.splits simp: map_sum_def split: sum.splits)
    from assms(1) p have "abs_jobs (tabs (db (core C))) (j_id j) = Some (Scheduled, pid)"
    proof (cases rule: PollForProvider_cases)
      case woken
      with j delivery_claims(1) [of "db (core C)" "locked_jobs i" pid j] assms(1) show ?thesis
        by (simp add: stores_ok_def)
    qed (use j in simp_all)
    moreover have "abs_jobs (tabs (db S')) (j_id j) = Some (Running, pid)"
      using poll_claims [OF assms(1)] p j by simp
    ultimately show "\<exists>x. dj_JobID d = to_utf8 x \<and> abs_jobs (tabs (db (core C))) x = Some (Scheduled, pid) \<and>
        abs_jobs (tabs (db (core C'))) x = Some (Running, pid)"
      using job_text_id [OF j(4)] j(3) by auto
  qed
qed


section \<open>Jobs on both sides\<close>

definition jobs_match :: "string \<Rightarrow> 'r control node \<Rightarrow> string list \<Rightarrow> bool" where
  "jobs_match pid N xs \<longleftrightarrow> stores_ok (core (nd_cp N)) \<and> map dj_JobID (nd_taken N) = map to_utf8 xs \<and> distinct xs \<and>
     (\<forall>x \<in> set xs. abs_jobs (tabs (db (core (nd_cp N)))) x = Some (Running, pid))"

lemma match_after:
  "jobs_match pid N xs \<Longrightarrow> nd_taken M = nd_taken N \<Longrightarrow> nd_cp M \<in> insert (nd_cp N) {after A ev (nd_cp N) |ev. True} \<Longrightarrow>
     jobs_match pid M xs"
  using after_ok [of "nd_cp N" A] after_running [of "nd_cp N" _ pid A] by (auto simp: jobs_match_def)

lemma match_poll:
  assumes "jobs_match pid N xs" and "plain_segment pid" and "ss_client s = client_of base tok pid"
    and "aw_http W = wired A i took base ft rt"
  shows "\<exists>ys. jobs_match pid (poll_round W s N) ys"
proof -
  from assms(1) have ok: "stores_ok (core (nd_cp N))" by (simp add: jobs_match_def)
  obtain r C' where p: "PollJobs (wired A i took base ft rt) (client_of base tok pid) (nd_cp N) = (r, C')" by fastforce
  obtain ev where c: "C' = after A ev (nd_cp N)" using poll_job [OF ok assms(2) p] by blast
  have eq: "poll_round W s N = (if nd_stopping N then N\<lparr>nd_ended := Some None\<rparr>
      else (case r of Inl e \<Rightarrow> N\<lparr>nd_cp := C', nd_slept := nd_slept N + 5 * 1000000000\<rparr>
        | Inr None \<Rightarrow> N\<lparr>nd_cp := C'\<rparr>
        | Inr (Some job) \<Rightarrow> N\<lparr>nd_cp := C', nd_taken := nd_taken N @ [job], nd_started := nd_started N @ [job]\<rparr>))"
    using p assms(3,4) by (simp add: poll_round_def split: sum.splits option.splits)
  show ?thesis
  proof (cases "\<not> nd_stopping N \<and> (\<exists>d. r = Inr (Some d))")
    case False
    then have "nd_taken (poll_round W s N) = nd_taken N" "nd_cp (poll_round W s N) \<in> {nd_cp N, C'}"
      by (auto simp: eq split: sum.splits option.splits)
    then show ?thesis using match_after [OF assms(1), of "poll_round W s N" A] c by auto
  next
    case True
    then obtain d where d: "r = Inr (Some d)" "\<not> nd_stopping N" by blast
    with poll_job [OF ok assms(2) p] obtain x where x: "dj_JobID d = to_utf8 x"
      "abs_jobs (tabs (db (core (nd_cp N)))) x = Some (Scheduled, pid)" "abs_jobs (tabs (db (core C'))) x = Some (Running, pid)"
      by blast
    have "jobs_match pid (N\<lparr>nd_cp := C'\<rparr>) xs" using match_after [OF assms(1), of "N\<lparr>nd_cp := C'\<rparr>" A] c by auto
    moreover have "x \<notin> set xs" using assms(1) x(2) by (auto simp: jobs_match_def)
    ultimately have "jobs_match pid (poll_round W s N) (xs @ [x])"
      using x d by (simp add: jobs_match_def eq)
    then show ?thesis by blast
  qed
qed

lemma handleJob_cp: "nd_cp (handleJob W V s job N) \<in> {nd_cp N, snd (ReportVM (aw_http W) (ss_client s)
    (job_report s job (fst (start_machine W V s job (nd_vms N)))) (nd_cp N))}"
  by (auto simp: handleJob_def Let_def split: prod.splits)

text \<open>The control plane under a step of the agent.\<close>

lemma agent_cp:
  assumes "aw_http W = wired A i took base ft rt" and "ss_client s = client_of base tok pid" and "plain_segment pid"
    and "stores_ok (core (nd_cp N))"
  shows "nd_cp (agent_step W s e N) \<in> insert (nd_cp N) {after A ev (nd_cp N) |ev. True}"
proof (cases e)
  case Poll
  obtain r C' where p: "PollJobs (wired A i took base ft rt) (client_of base tok pid) (nd_cp N) = (r, C')" by fastforce
  obtain rq where "C' = after A (Request i rq) (nd_cp N)" using poll_job [OF assms(4,3) p] by blast
  moreover have "nd_cp (poll_round W s N) \<in> {nd_cp N, C'}"
    using p assms(1,2) by (simp add: poll_round_def split: sum.splits option.splits)
  ultimately show ?thesis using Poll by (auto simp del: after.simps)
next
  case (Handle k V)
  show ?thesis
  proof (cases "k < length (nd_started N)")
    case True
    let ?job = "nd_started N ! k" and ?M = "N\<lparr>nd_started := drop_nth k (nd_started N)\<rparr>"
    obtain rq where rq: "snd (ReportVM (aw_http W) (ss_client s)
        (job_report s ?job (fst (start_machine W V s ?job (nd_vms ?M)))) (nd_cp ?M)) = after A (Request i rq) (nd_cp ?M)"
      unfolding assms(1) using report_after by blast
    have "nd_cp (handleJob W V s ?job ?M) \<in> {nd_cp ?M, after A (Request i rq) (nd_cp ?M)}"
      using handleJob_cp [of W V s ?job ?M] unfolding rq .
    then show ?thesis using Handle True by (auto simp del: after.simps)
  qed (use Handle in simp)
next
  case (Relay k)
  have "nd_cp (relay_up x M) = nd_cp M" for x and M :: "'a control node" by (simp add: relay_up_def split: prod.splits)
  with Relay show ?thesis by simp
next
  case Beat
  then show ?thesis
    using heartbeat_after [of A i took base ft rt "ss_client s" "heartbeat_message_of W s (nd_host N)" "nd_cp N"] assms(1)
    by (auto simp: beat_def simp del: after.simps)
qed simp

lemma steps_taken: "e \<noteq> Poll \<Longrightarrow> nd_taken (agent_step W s e N) = nd_taken N"
proof (cases e)
  case (Handle k V)
  have "nd_taken (handleJob W V s job M) = nd_taken M" for job and M :: "'a node"
    using handleJob_sel(1) [OF prod.collapse [symmetric]] .
  with Handle show ?thesis by simp
next
  case (Relay k)
  have "nd_taken (relay_up x M) = nd_taken M" for x and M :: "'a node" by (simp add: relay_up_def split: prod.splits)
  with Relay show ?thesis by simp
qed (simp_all add: beat_def)

lemma match_step:
  assumes "jobs_match pid N xs" and "plain_segment pid" and "ss_client s = client_of base tok pid"
    and "aw_http W = wired A i took base ft rt"
  shows "\<exists>ys. jobs_match pid (agent_step W s e N) ys"
proof (cases "e = Poll")
  case True
  with match_poll [OF assms] show ?thesis by simp
next
  case False
  from assms(1) have "stores_ok (core (nd_cp N))" by (simp add: jobs_match_def)
  from match_after [OF assms(1) steps_taken [OF False] agent_cp [OF assms(4,3,2) this]] show ?thesis by blast
qed

lemma kept_cp: "jobs_kept N \<Longrightarrow> jobs_kept (N\<lparr>nd_cp := C\<rparr>)"
proof -
  have "job_ids (N\<lparr>nd_cp := C\<rparr>) = job_ids N" by (simp add: job_ids_def)
  then show "jobs_kept N \<Longrightarrow> jobs_kept (N\<lparr>nd_cp := C\<rparr>)" by (simp add: jobs_kept_def panicked_def split: if_splits)
qed

lemma platform_match:
  assumes "platform A W s N0 N" and "jobs_match pid N0 []" and "plain_segment pid" and "ss_client s = client_of base tok pid"
  shows "\<exists>xs. jobs_match pid N xs"
  using assms(1)
proof induction
  case boot
  with assms(2) show ?case by blast
next
  case (agent N i took ft rt e)
  then obtain xs where "jobs_match pid N xs" by blast
  from match_step [OF this assms(3,4), of "W\<lparr>aw_http := wired A i took base ft rt\<rparr>" A i took ft rt e] assms(4)
  show ?case by simp
next
  case (plane N ev)
  then obtain xs where "jobs_match pid N xs" by blast
  from match_after [OF this, of "N\<lparr>nd_cp := after A ev (nd_cp N)\<rparr>" A] show ?case by auto
qed

lemma platform_kept:
  assumes "platform A W s N0 N" and "jobs_kept N0"
  shows "jobs_kept N"
  using assms(1)
proof induction
  case boot
  show ?case by (rule assms(2))
next
  case (agent N i took ft rt e)
  then show ?case by (simp add: step_kept)
next
  case (plane N ev)
  then show ?case by (simp add: kept_cp)
qed


section \<open>Properties\<close>

text \<open>
  Result (jobs of the platform). In every run of an agent with its control plane, which serves anything
  else in between and answers late or not, each job that the agent has taken is running in the
  database under this provider, and it took each of them once; unless a panic ended it, each of them
  waits for its goroutine or was reported, and was reported once.
\<close>

theorem platform_jobs:
  assumes "stores_ok (core (nd_cp N0))" and "nd_taken N0 = []" and "nd_started N0 = []" and "nd_reports N0 = []"
    and "ss_client s = client_of base tok pid" and "plain_segment pid" and "platform A W s N0 N"
  shows "\<exists>xs. map dj_JobID (nd_taken N) = map to_utf8 xs \<and> distinct xs \<and>
    (\<forall>x \<in> set xs. abs_jobs (tabs (db (core (nd_cp N)))) x = Some (Running, pid)) \<and>
    mset (map dj_JobID (nd_started N)) + mset (map vr_JobID (nd_reports N)) \<subseteq># mset (map to_utf8 xs) \<and>
    (\<not> panicked N \<longrightarrow> mset (map dj_JobID (nd_started N)) + mset (map vr_JobID (nd_reports N)) = mset (map to_utf8 xs))"
proof -
  have "jobs_match pid N0 []" "jobs_kept N0" using assms(1-4) by (simp_all add: jobs_match_def jobs_kept_def job_ids_def)
  from platform_match [OF assms(7) this(1) assms(6,5)] platform_kept [OF assms(7) this(2)]
  obtain xs where m: "jobs_match pid N xs" and k: "jobs_kept N" by blast
  from k have "job_ids N \<subseteq># mset (map dj_JobID (nd_taken N))" "\<not> panicked N \<longrightarrow> job_ids N = mset (map dj_JobID (nd_taken N))"
    by (auto simp: jobs_kept_def split: if_splits)
  with m show ?thesis by (intro exI [of _ xs]) (simp add: jobs_match_def job_ids_def)
qed

definition joined_session :: session where
  "joined_session = (sample_session ''container'')\<lparr>ss_client := client_of ''http://cp'' ''t'' ''b''\<rparr>"

definition joined_node :: "redis_keys control node" where
  "joined_node = \<lparr>nd_vms = sample_vms, nd_net = \<lparr>listeners = (\<lambda>a. None), listen_error = (\<lambda>a. None)\<rparr>,
     nd_cp = sample_control\<lparr>core := announced_stores\<rparr>,
     nd_started = [], nd_relays = [], nd_taken = [], nd_reports = [], nd_slept = 0, nd_stopping = False, nd_ended = None\<rparr>"

definition joined_world :: "(redis_keys control, string) agent_world" where
  "joined_world = \<lparr>aw_http = wired sample_api sample_inputs 0 ''http://cp'' (\<lambda>x. []) exact_runtime, aw_keys = plain_keys,
     aw_random = Inr [], aw_hostname = ''h'', aw_executable = Inr ''/x'',
     aw_numCPU = 1, aw_goos = ''linux'', aw_goarch = ''amd64'', aw_float = (\<lambda>s. 0)\<rparr>"

abbreviation joined_wire :: "(redis_keys control, string) agent_world" where
  "joined_wire \<equiv> joined_world\<lparr>aw_http :=
     wired sample_api sample_inputs 0 (cl_baseURL (ss_client joined_session)) (\<lambda>x. []) exact_runtime\<rparr>"

lemma joined_poll:
  "map dj_JobID (nd_taken (agent_step joined_wire joined_session Poll joined_node)) = [''j1''] \<and>
   map dj_JobID (nd_started (agent_step joined_wire joined_session Poll joined_node)) = [''j1'']"
proof -
  let ?C = "sample_control\<lparr>core := announced_stores\<rparr>" and ?j = "sample_job ''j1'' [] []"
  let ?N = "agent_step joined_wire joined_session Poll joined_node"
  have p: "plain_segment ''b''" by (simp add: plain_segment_def)
  have s: "ss_client joined_session = client_of ''http://cp'' ''t'' ''b''" by (simp add: joined_session_def)
  let ?P = "PollForProvider (locked_jobs sample_inputs) ''b'' 25 (core ?C)"
  have "fst ?P = (Some ?j, None)" by code_simp
  then have "?P = ((Some ?j, None), snd ?P)" by (metis prod.collapse)
  from poll_exchange [OF p this, of sample_api 0 "''http://cp''" "\<lambda>x. []" exact_runtime "''t''"]
    job_is_read [of ?j exact_runtime "\<lambda>x. []"]
  have "PollJobs (aw_http joined_wire) (ss_client joined_session) (nd_cp joined_node) =
      (Inr (Some (job_sent ?j)), ?C\<lparr>core := snd ?P\<rparr>)"
    by (simp add: s limit_def sendable_def sample_job_def joined_node_def)
  then have "nd_taken ?N = [job_sent ?j]" "nd_started ?N = [job_sent ?j]"
    by (simp_all add: poll_round_def joined_node_def)
  moreover have "dj_JobID (job_sent ?j) = ''j1''" by code_simp
  ultimately show ?thesis by simp
qed

lemma joined_start:
  "stores_ok (core (nd_cp joined_node))" "nd_taken joined_node = []" "nd_started joined_node = []"
  "nd_reports joined_node = []" "ss_client joined_session = client_of ''http://cp'' ''t'' ''b''" "plain_segment ''b''"
  "nd_ended joined_node = None"
  using announced_stores_ok by (simp_all add: joined_node_def joined_session_def plain_segment_def)

theorem platform_jobs_witness:
  "\<exists>N x. platform sample_api joined_world joined_session joined_node N \<and> map dj_JobID (nd_taken N) = [''j1''] \<and>
     map dj_JobID (nd_started N) = [''j1''] \<and> to_utf8 x = ''j1'' \<and>
     abs_jobs (tabs (db (core (nd_cp N)))) x = Some (Running, ''b'')"
proof -
  let ?N = "agent_step joined_wire joined_session Poll joined_node"
  have run: "platform sample_api joined_world joined_session joined_node ?N"
    by (rule platform.agent [OF platform.boot joined_start(7)])
  from platform_jobs [OF joined_start(1-6) run] obtain xs where x: "map dj_JobID (nd_taken ?N) = map to_utf8 xs"
    "\<forall>x \<in> set xs. abs_jobs (tabs (db (core (nd_cp ?N)))) x = Some (Running, ''b'')" by blast
  with joined_poll obtain y where "xs = [y]" "to_utf8 y = ''j1''" by auto
  with x(2) run joined_poll show ?thesis by auto
qed

text \<open>The start of the agent.\<close>

lemma registration_sendable:
  assumes "int64 (aw_numCPU W)"
  shows "int64s (cr_Resources (registration W cfg md pub att H))" and "clean_keys (cr_Meta (registration W cfg md pub att H))"
proof -
  have "int64 (totalMemMB H)"
  proof (cases "ReadFile ''/proc/meminfo'' H")
    case (Inr b)
    with mem_lines_range [of "''MemTotal:''" "split_on CHR 0x0A b"] show ?thesis by (simp add: totalMemMB_def)
  qed (simp add: totalMemMB_def)
  with assms show "int64s (cr_Resources (registration W cfg md pub att H))"
    by (simp add: int64s_def registration_def resources_def availDiskGB_def Let_def)
  have "distinct (map to_utf8 [''machine_id'', ''binary_hash'', ''os'', ''arch''])" by code_simp
  then show "clean_keys (cr_Meta (registration W cfg md pub att H))" by (simp add: clean_keys_def registration_def Let_def)
qed

lemma Startup_Inr:
  assumes "Startup W cfg N = (Inr s, M)"
  obtains priv pub H att a where "GenerateKeypair (aw_random W) (nd_host N) = ((priv, pub, None), H)"
    "Register_call (aw_http W) (NewClient (ag_ControlPlaneURL cfg) (ag_Token cfg))
       (registration W cfg (resolve_mode (ag_Mode cfg) (nd_host N)) pub att H) (nd_cp N) = (Inr a, nd_cp M)"
    "s = \<lparr>ss_client = SetProviderID (ca_ProviderID a) (NewClient (ag_ControlPlaneURL cfg) (ag_Token cfg)),
       ss_mode = resolve_mode (ag_Mode cfg) (nd_host N), ss_tunnelPort = ca_TunnelPort a,
       ss_sshPort = ag_SSHPort cfg, ss_wgIP = ca_WGIP a\<rparr>"
    "nd_taken M = nd_taken N" "nd_started M = nd_started N" "nd_reports M = nd_reports N"
  using assms by (auto simp: Startup_def Let_def set_host_def split: prod.splits option.splits sum.splits)

text \<open>
  C8 (start of an agent). An agent that comes up over the wire has one new row, at the end of the
  table and online, with its token, its key, its mode and its memory, and works with the id, the
  address and the port of this row. This holds for each start: a provider that starts again with
  the same key is a further row, and its old one stays.
\<close>

theorem startup_joins:
  assumes "stores_ok (core (nd_cp N))" and "new_uuid i \<notin> p_id ` set (providers (tabs (db (core (nd_cp N)))))"
    and "to_utf8 (new_uuid i) = new_uuid i" and "int64 (aw_numCPU W)"
    and "aw_http W = wired A i took (ag_ControlPlaneURL cfg) ft rt" and "Startup W cfg N = (Inr s, M)"
  shows "took < limit \<and> ss_client s = client_of (ag_ControlPlaneURL cfg) (ag_Token cfg) (new_uuid i) \<and>
    nd_taken M = nd_taken N \<and> nd_started M = nd_started N \<and> nd_reports M = nd_reports N \<and>
    (\<exists>row priv pub H. GenerateKeypair (aw_random W) (nd_host N) = ((priv, pub, None), H) \<and>
      providers (tabs (db (core (nd_cp M)))) = providers (tabs (db (core (nd_cp N)))) @ [row] \<and>
      p_id row = new_uuid i \<and> p_wg_ip row = ss_wgIP s \<and> p_tunnel_port row = ss_tunnelPort s \<and>
      p_token row = to_utf8 (ag_Token cfg) \<and> p_wg_pubkey row = to_utf8 pub \<and> p_mode row = to_utf8 (ss_mode s) \<and>
      p_memory_mb row = totalMemMB H \<and> p_status row = ProviderOnline)"
proof -
  let ?url = "ag_ControlPlaneURL cfg" and ?md = "resolve_mode (ag_Mode cfg) (nd_host N)"
  from assms(6) obtain priv pub H att a where g: "GenerateKeypair (aw_random W) (nd_host N) = ((priv, pub, None), H)"
    and reg: "Register_call (aw_http W) (NewClient ?url (ag_Token cfg)) (registration W cfg ?md pub att H) (nd_cp N) = (Inr a, nd_cp M)"
    and s: "s = \<lparr>ss_client = SetProviderID (ca_ProviderID a) (NewClient ?url (ag_Token cfg)), ss_mode = ?md,
      ss_tunnelPort = ca_TunnelPort a, ss_sshPort = ag_SSHPort cfg, ss_wgIP = ca_WGIP a\<rparr>"
    and M: "nd_taken M = nd_taken N" "nd_started M = nd_started N" "nd_reports M = nd_reports N"
    by (rule Startup_Inr)
  let ?req = "registration W cfg ?md pub att H"
  have cl: "NewClient ?url (ag_Token cfg) = client_of ?url (ag_Token cfg) []"
    by (simp add: client_of_def SetProviderID_def NewClient_def)
  from registered_row [OF assms(1-3) registration_sendable [OF assms(4)] reg [unfolded cl assms(5)]] obtain row where row:
    "took < limit" "providers (tabs (db (core (nd_cp M)))) = providers (tabs (db (core (nd_cp N)))) @ [row]"
    "ca_ProviderID a = p_id row" "ca_WGIP a = p_wg_ip row" "ca_TunnelPort a = p_tunnel_port row"
    "p_wg_pubkey row = to_utf8 (cr_PublicKey ?req)" "p_token row = to_utf8 (cr_Token ?req)" "p_status row = ProviderOnline"
    "p_mode row = to_utf8 (cr_Mode ?req)" "p_memory_mb row = ci_MemoryMB (cr_Resources ?req)"
    "p_id row = new_uuid i" by (auto simp: not_le)
  have q: "cr_PublicKey ?req = pub" "cr_Token ?req = ag_Token cfg" "cr_Mode ?req = ?md" "ci_MemoryMB (cr_Resources ?req) = totalMemMB H"
    by (simp_all add: registration_def resources_def Let_def)
  have "ss_client s = client_of ?url (ag_Token cfg) (new_uuid i)"
    using row(3,11) by (simp add: s client_of_def SetProviderID_def)
  moreover have "p_wg_ip row = ss_wgIP s" "p_tunnel_port row = ss_tunnelPort s" "ss_mode s = ?md"
    using row(4,5) by (simp_all add: s)
  ultimately show ?thesis
    using row(1,2,8,11) row(6,7,9,10) [unfolded q] g M
    by (intro conjI) (assumption | rule exI [of _ row], rule exI [of _ priv], rule exI [of _ pub], rule exI [of _ H], simp)+
qed


text \<open>A node that comes up in a control plane that has issued its token.\<close>

definition fresh_node :: "redis_keys control node" where
  "fresh_node = joined_node\<lparr>nd_cp := sample_control, nd_vms := (nd_vms joined_node)\<lparr>vm_host := key_host\<rparr>\<rparr>"

definition fresh_config :: agent_config where
  "fresh_config = \<lparr>ag_ControlPlaneURL = ''http://cp'', ag_Token = ''t'', ag_Location = ''eu'', ag_LogLevel = ''info'',
     ag_Mode = ''ssh'', ag_SSHPort = 0\<rparr>"

definition fresh_world :: "(redis_keys control, string) agent_world" where
  "fresh_world = joined_world\<lparr>aw_random := Inr sample_bytes\<rparr>"

definition fresh_registration :: register_message where
  "fresh_registration = \<lparr>cr_Token = ''t'', cr_PublicKey = ''PUB'',
     cr_Resources = \<lparr>ci_CPUCores = 1, ci_MemoryMB = 0, ci_DiskGB = 0\<rparr>, cr_Location = ''eu'', cr_Mode = ''ssh'',
     cr_Meta = [(''machine_id'', []), (''binary_hash'', []), (''os'', ''linux''), (''arch'', ''amd64'')]\<rparr>"

lemma WriteConfig_works:
  assumes "\<And>h a i. snd (answer (machine H) h a i) = None" and "write_error (machine H) = (\<lambda>p. None)"
    and "mkdir_error (machine H) = (\<lambda>p. None)"
  shows "fst (WriteConfig conf H) = None"
proof -
  have e: "exec_combined pre argv K = (None, snd (Exec argv [] K))" if "machine K = machine H" for pre argv K
    using assms(1) that by (auto simp: exec_combined_def Exec_def split: prod.splits option.splits) (metis option.distinct(1) snd_conv)+
  have b: "fst (wg_bringUp K) = None" if m: "machine K = machine H" for K
    by (auto simp: wg_bringUp_def bringUpUserspace_def wg_isUp_def Let_def split_def e m)
  show ?thesis
    using assms(2,3) by (auto simp: WriteConfig_def MkdirAll_def WriteFile_def b split: prod.splits)
qed

lemma fresh_startup: "\<not> isl (fst (Startup fresh_world fresh_config fresh_node))"
proof -
  let ?G = "GenerateKeypair (Inr sample_bytes) key_host" and ?C = sample_control
  let ?H = "snd ?G"
  have g: "?G = ((b64_std (clamp sample_bytes), ''PUB'', None), ?H)" using key_host_run by (metis prod.collapse)
  have H: "machine ?H = machine key_host" "files ?H ''/etc/machine-id'' = None" "files ?H ''/x'' = None"
      "files ?H ''/proc/meminfo'' = None"
    by (simp_all add: GenerateKeypair_def paths_def isTermux_def key_host_def plain_host_def plain_machine_def
      MkdirAll_def ReadFile_def Output_def Exec_def WriteFile_def Let_def)
  have c: "Collect ''h'' (Inr ''/x'') ?H = (\<lparr>MachineID = [], BinaryHash = []\<rparr>, Some (Errorf ''self hash: '' (no_such_file ''/x'') []))"
    using H by (simp add: Collect_def machineID_def selfHash_def ReadFile_def key_host_def plain_machine_def)
  have q: "registration fresh_world fresh_config ''ssh'' ''PUB'' \<lparr>MachineID = [], BinaryHash = []\<rparr> ?H = fresh_registration"
    using H by (simp add: registration_def fresh_world_def joined_world_def fresh_config_def fresh_registration_def
      resources_def totalMemMB_def availDiskGB_def ReadFile_def key_host_def plain_machine_def)
  let ?R = "Register (reg sample_api) (new_uuid sample_inputs) (micros (reading sample_inputs 0)) (request_of fresh_registration)
    (core ?C)"
  have "\<not> isl (fst ?R)" "rs_TunnelPort (projr (fst ?R)) = 40001" by code_simp+
  then obtain res where r: "?R = (Inr res, snd ?R)" "rs_TunnelPort res = 40001" by (metis prod.collapse sum.collapse(2))
  have m: "int64s (cr_Resources fresh_registration)" "clean_keys (cr_Meta fresh_registration)" by code_simp+
  have "\<forall>x. Inr res = (Inr x :: register_result result) \<longrightarrow> int64 (rs_TunnelPort x)" using r(2) by simp
  from Register_call_wired [OF m r(1) this, of 0 "''http://cp''" "\<lambda>x. []" exact_runtime "''t''" "[]"]
  obtain a C' where "Register_call (aw_http fresh_world) (NewClient ''http://cp'' ''t'') fresh_registration ?C = (Inr a, C')"
    by (auto simp: limit_def fresh_world_def joined_world_def client_of_def SetProviderID_def NewClient_def)
  moreover have "fst (WriteConfig (ca_WGConfig a) ?H) = None"
    by (rule WriteConfig_works; unfold H(1); simp add: key_host_def plain_machine_def)
  ultimately show ?thesis
    using g c q by (auto simp: Startup_def Let_def fresh_node_def fresh_world_def joined_world_def joined_node_def
      fresh_config_def resolve_mode_def set_host_def sample_vms_def split: prod.splits option.splits)
qed

theorem startup_joins_witness:
  "\<exists>s M row. Startup fresh_world fresh_config fresh_node = (Inr s, M) \<and>
     providers (tabs (db (core (nd_cp M)))) = providers (tabs (db (core (nd_cp fresh_node)))) @ [row] \<and>
     p_id row = new_uuid sample_inputs \<and> p_wg_ip row = ss_wgIP s"
proof -
  let ?R = "Startup fresh_world fresh_config fresh_node"
  obtain s M where r: "?R = (Inr s, M)" using fresh_startup by (metis prod.collapse sum.collapse(2))
  have c: "nd_cp fresh_node = sample_control" by (simp add: fresh_node_def)
  have "new_uuid sample_inputs \<notin> p_id ` set (providers (tabs (db (core (nd_cp fresh_node)))))" 
    "to_utf8 (new_uuid sample_inputs) = new_uuid sample_inputs" unfolding c by code_simp+
  moreover have "int64 (aw_numCPU fresh_world)" by (simp add: fresh_world_def joined_world_def)
  moreover have "aw_http fresh_world = wired sample_api sample_inputs 0 (ag_ControlPlaneURL fresh_config) (\<lambda>x. []) exact_runtime"
    by (simp add: fresh_world_def joined_world_def fresh_config_def)
  moreover have "stores_ok (core (nd_cp fresh_node))" using sample_control_ok by (simp add: c)
  ultimately show ?thesis using startup_joins [OF _ _ _ _ _ r] r by blast
qed

end
