(* ===== verification/Concurrent.thy ===== *)
theory Concurrent
  imports Platform
begin

text \<open>
  Requests at the same time. \<open>net/http\<close> serves each request in a goroutine of its own, so the
  handlers interleave. What is atomic is one request to a store (for \<open>NextPendingJob\<close> its
  transaction) and one command on the machine: a handler is taken apart into stages with one
  such request each. Run one after the other the stages are the handler; run in any order with
  those of other requests they keep what the control plane promises.
\<close>


section \<open>Stages of the handlers\<close>

datatype register_stage = Check_Token | Take_Address | Take_Port string | Write_Row string int
  | Set_Peer register_result | Save_Peers register_result

datatype deploy_stage = Place | Insert_Row provider | Assign_Row provider | Announce provider

datatype poll_stage = Wait | Claim_Row

datatype task = Registering inputs register_body register_stage | Deploying inputs deploy_body deploy_stage
  | Polling inputs string poll_stage | Beating heartbeat_body | Reporting inputs report_body | Listing

text \<open>A stage ends the request with an answer or leads to the next one.\<close>

fun onward :: "(go_error \<Rightarrow> response) \<Rightarrow> 'a result \<times> 's \<Rightarrow> ('a \<Rightarrow> response + 't) \<Rightarrow> (response + 't) \<times> 's" where
  "onward refuse (Inl e, s) k = (Inl (refuse e), s)"
| "onward refuse (Inr x, s) k = (k x, s)"

definition register_refused :: "go_error \<Rightarrow> response" where
  "register_refused err =
     (if errors_Is err ErrInvalidToken then httpErr ''invalid registration token'' 401 else httpErr (Error err) 400)"

fun register_step :: "('k, 's, 'c) api \<Rightarrow> inputs \<Rightarrow> register_body \<Rightarrow> register_stage \<Rightarrow> 'r control \<Rightarrow>
    (response + register_stage) \<times> 'r control" where
  "register_step A i b Check_Token C =
     onward (\<lambda>e. register_refused (Errorf ''validate token: '' e [])) (on_core (on_redis (TokenValid (rb_token b))) C)
       (\<lambda>valid. if valid then Inr Take_Address else Inl (register_refused ErrInvalidToken))"
| "register_step A i b Take_Address C =
     onward (\<lambda>e. register_refused (Errorf ''alloc wg ip: '' e [])) (on_core (on_redis AllocWGIP) C) (\<lambda>ip. Inr (Take_Port ip))"
| "register_step A i b (Take_Port wgIP) C =
     onward (\<lambda>e. register_refused (Errorf ''alloc port: '' e [])) (on_core (on_redis AllocPort) C)
       (\<lambda>port. Inr (Write_Row wgIP port))"
| "register_step A i b (Write_Row wgIP tunnelPort) C =
     onward (\<lambda>e. register_refused (Errorf ''upsert provider: '' e []))
       (on_core (on_pg (UpsertProvider (new_provider (new_uuid i) (micros (reading i 0)) wgIP tunnelPort (to_register_request b)))) C)
       (\<lambda>_. Inr (Set_Peer \<lparr>rs_ProviderID = new_uuid i,
          rs_WGConfig = buildWGConfig (rb_wg_pubkey b) wgIP (g_wgPub (reg A)) (g_cpEndpoint (reg A)),
          rs_TunnelPort = tunnelPort, rs_WGIP = wgIP\<rparr>))"
| "register_step A i b (Set_Peer result) C =
     (let (err, H) = exec_combined ''wg set peer: ''
        [''wg'', ''set'', ''wg0'', ''peer'', rb_wg_pubkey b, ''allowed-ips'', rs_WGIP result @ ''/32''] (box C)
      in (if err = None then Inr (Save_Peers result) else Inl (respond (register_json result)), C\<lparr>box := H\<rparr>))"
| "register_step A i b (Save_Peers result) C =
     (Inl (respond (register_json result)), C\<lparr>box := snd (Run [''wg-quick'', ''save'', ''wg0''] (box C))\<rparr>)"

fun deploy_step :: "inputs \<Rightarrow> deploy_body \<Rightarrow> deploy_stage \<Rightarrow> 'r control \<Rightarrow> (response + deploy_stage) \<times> 'r control" where
  "deploy_step i b Place C =
     onward (\<lambda>e. httpErr (Error (if e = ErrNoRows then no_provider (to_deploy_request b) else Errorf ''find provider: '' e [])) 503)
       (on_core (on_pg (BestProvider (db_cpu_cores b) (db_memory_mb b))) C) (\<lambda>pr. Inr (Insert_Row pr))"
| "deploy_step i b (Insert_Row pr) C =
     onward (\<lambda>e. httpErr (Error (Errorf ''insert job: '' e [])) 503)
       (on_core (on_pg (InsertJob (new_job (new_uuid i) (p_id pr) (to_deploy_request b)))) C) (\<lambda>_. Inr (Assign_Row pr))"
| "deploy_step i b (Assign_Row pr) C =
     onward (\<lambda>e. httpErr (Error (Errorf ''assign job: '' e [])) 503)
       (on_core (on_pg (AssignJob (new_uuid i) (p_id pr))) C) (\<lambda>_. Inr (Announce pr))"
| "deploy_step i b (Announce pr) C =
     onward (\<lambda>e. httpErr (Error (Errorf ''push job to redis: '' e [])) 503)
       (on_core (on_redis (PushJob (p_id pr) (new_uuid i))) C)
       (\<lambda>_. Inl (respond (deploy_json \<lparr>ds_JobID = new_uuid i, ds_ProviderID = p_id pr\<rparr>)))"

fun poll_step :: "inputs \<Rightarrow> string \<Rightarrow> poll_stage \<Rightarrow> 'r control \<Rightarrow> (response + poll_stage) \<times> 'r control" where
  "poll_step i pid Wait C =
     onward (\<lambda>e. httpErr (Error e) 500) (on_core (on_redis (PopJob pid 25)) C)
       (\<lambda>jobID. if jobID = '''' then Inl no_content else Inr Claim_Row)"
| "poll_step i pid Claim_Row C =
     (case on_core (on_pg (NextPendingJob (locked_jobs i) pid)) C of
        ((job, Some err), C1) \<Rightarrow> (Inl (httpErr (Error err) 500), C1)
      | ((None, None), C1) \<Rightarrow> (Inl no_content, C1)
      | ((Some j, None), C1) \<Rightarrow> (Inl (respond (job_json j)), C1))"

fun advance :: "('k, 's, 'c) api \<Rightarrow> task \<Rightarrow> 'r control \<Rightarrow> (response + task) \<times> 'r control" where
  "advance A (Registering i b st) C = map_prod (map_sum id (Registering i b)) id (register_step A i b st C)"
| "advance A (Deploying i b st) C = map_prod (map_sum id (Deploying i b)) id (deploy_step i b st C)"
| "advance A (Polling i pid st) C = map_prod (map_sum id (Polling i pid)) id (poll_step i pid st C)"
| "advance A (Beating b) C = onward (\<lambda>e. httpErr (Error e) 500)
     (on_core (Heartbeat (hb_provider_id b) (hb_active_vms b) (hb_cpu_load b) (hb_mem_free_mb b)) C) (\<lambda>_. Inl no_content)"
| "advance A (Reporting i b) C = onward (\<lambda>e. httpErr (Error e) 500)
     (on_core (on_pg (UpsertVM (to_vm b (micros (reading i 0))))) C) (\<lambda>_. Inl no_content)"
| "advance A Listing C = onward (\<lambda>e. httpErr (Error e) 500) (on_core (on_pg ListProviders) C)
     (\<lambda>ps. Inl (respond (if ps = [] then JNull else JArr (map (provider_json A) ps))))"


section \<open>Arrival of a request\<close>

text \<open>Routing, the token check and the body come before the first request to a store. A certificate
  needs no store at all.\<close>

definition decoded :: "response + 'a \<Rightarrow> ('a \<Rightarrow> response + task) \<Rightarrow> response + task" where
  "decoded d k = (case d of Inl resp \<Rightarrow> Inl resp | Inr b \<Rightarrow> k b)"

definition allowed :: "string list \<Rightarrow> http_request \<Rightarrow> response + task \<Rightarrow> response + task" where
  "allowed methods rq x = (if rq_method rq \<in> set methods then x
     else Inl \<lparr>status = 405, payload = Text (line ''Method Not Allowed'')\<rparr>)"

definition bearer :: "('k, 's, 'c) api \<Rightarrow> inputs \<Rightarrow> http_request \<Rightarrow> response + task \<Rightarrow> response + task" where
  "bearer A i rq x =
     (if \<not> has_prefix (rq_auth rq) ''Bearer '' then Inl (httpErr ''missing bearer token'' 401)
      else if \<not> validateJWT (runtime A) (unix_of (reading i 0)) (unix_of (reading i 1))
         (trim_prefix (rq_auth rq) ''Bearer '') (JWTSecret A) then Inl (httpErr ''invalid token'' 401)
      else x)"

definition certified :: "('k, 's, 'c) api \<Rightarrow> inputs \<Rightarrow> cert_body \<Rightarrow> response" where
  "certified A i b =
     (case IssueCert (ssh A) (ca A) (reading i 2) (reading i 3) (reading i 4) (to_sign_request b) of
        Inl err \<Rightarrow> httpErr (Error err) 400
      | Inr cert \<Rightarrow> respond (JObj [(''certificate'', jstr cert)]))"

definition arrive :: "('k, 's, 'c) api \<Rightarrow> inputs \<Rightarrow> http_request \<Rightarrow> response + task" where
  "arrive A i rq =
     (let p = rq_path rq; rt = runtime A; body = rq_body rq in
      if p = v1 [''providers'', ''register''] then allowed POST rq
        (decoded (decode rt register_fields empty_register body) (\<lambda>b. Inr (Registering i b Check_Token)))
      else if p = v1 [''providers'', ''heartbeat''] then allowed POST rq
        (decoded (decode rt (heartbeat_fields rt) empty_heartbeat body) (\<lambda>b. Inr (Beating b)))
      else if length p = 5 \<and> p = v1 [''providers'', p ! 3, ''jobs''] then allowed GET rq (Inr (Polling i (p ! 3) Wait))
      else if p = v1 [''vms'', ''report''] then allowed POST rq
        (decoded (decode rt report_fields empty_report body) (\<lambda>b. Inr (Reporting i b)))
      else if p = v1 [''deploy''] then allowed POST rq
        (bearer A i rq (decoded (decode rt deploy_fields empty_deploy body) (\<lambda>b. Inr (Deploying i b Place))))
      else if p = v1 [''ssh-cert''] then allowed POST rq
        (bearer A i rq (decoded (decode rt cert_fields empty_cert body) (\<lambda>b. Inl (certified A i b))))
      else if p = v1 [''providers''] then allowed GET rq (bearer A i rq (Inr Listing))
      else if p = [''healthz''] then allowed GET rq (Inl \<lparr>status = 200, payload = Text ''ok''\<rparr>)
      else Inl \<lparr>status = 404, payload = Text (line ''404 page not found'')\<rparr>)"

text \<open>A request on its own: at most \<open>n\<close> stages, one after the other.\<close>

fun alone :: "('k, 's, 'c) api \<Rightarrow> nat \<Rightarrow> (response + task) \<times> 'r control \<Rightarrow> (response + task) \<times> 'r control" where
  "alone A 0 xC = xC"
| "alone A (Suc n) (Inl resp, C) = (Inl resp, C)"
| "alone A (Suc n) (Inr t, C) = alone A n (advance A t C)"


section \<open>The stages of one request are its handler\<close>

definition answered :: "response \<times> 'r control \<Rightarrow> (response + task) \<times> 'r control" where
  "answered = map_prod Inl id"

lemma alone_done [simp]: "alone A n (Inl resp, C) = (Inl resp, C)"
  by (cases n) simp_all

lemma onward_on:
  "onward refuse (on_core f C) k = (case f (core C) of
     (Inl e, S) \<Rightarrow> (Inl (refuse e), C\<lparr>core := S\<rparr>) | (Inr x, S) \<Rightarrow> (k x, C\<lparr>core := S\<rparr>))"
  by (cases "f (core C)"; cases "fst (f (core C))") (auto simp: on_core_eq)

lemma registering_alone:
  "alone A 6 (Inr (Registering i b Check_Token), C) =
     answered (case on_core (Register (reg A) (new_uuid i) (micros (reading i 0)) (to_register_request b)) C of
       (Inl err, C1) \<Rightarrow>
         if errors_Is err ErrInvalidToken then (httpErr ''invalid registration token'' 401, C1)
         else (httpErr (Error err) 400, C1)
     | (Inr result, C1) \<Rightarrow>
         (let (err, H) = AddPeer (rb_wg_pubkey b) (rs_WGIP result) (box C1)
          in (respond (register_json result), C1\<lparr>box := H\<rparr>)))"
proof -
  let ?req = "to_register_request b"
  obtain v R1 where t: "TokenValid (rb_token b) (cache (core C)) = (v, R1)" by fastforce
  obtain a R2 where a: "AllocWGIP R1 = (a, R2)" by fastforce
  obtain q R3 where q: "AllocPort R2 = (q, R3)" by fastforce
  have tok: "rq_Token ?req = rb_token b" "rq_WGPubKey ?req = rb_wg_pubkey b" by (simp_all add: to_register_request_def)
  note steps = answered_def onward_on Register_def on_core_eq on_redis_def on_pg_def t a q tok register_refused_def numeral_nat
  show ?thesis
  proof (cases v)
    case v: (Inr valid)
    show ?thesis
    proof (cases "\<exists>wgIP tp. valid \<and> a = Inr wgIP \<and> q = Inr tp")
      case True
      then obtain wgIP tp where w: "valid" "a = Inr wgIP" "q = Inr tp" by blast
      obtain u p where u: "UpsertProvider (new_provider (new_uuid i) (micros (reading i 0)) wgIP tp ?req) (db (core C)) = (u, p)"
        by fastforce
      obtain x H where x: "exec_combined ''wg set peer: '' [''wg'', ''set'', ''wg0'', ''peer'', rb_wg_pubkey b, ''allowed-ips'',
          wgIP @ ''/32''] (box C) = (x, H)" by fastforce
      show ?thesis
        by (cases u; cases x) (simp_all add: steps v w u x AddPeer_def Let_def split_def)
    next
      case False
      then show ?thesis using v by (cases valid; cases a; cases q) (simp_all add: steps)
    qed
  qed (simp add: steps)
qed

lemma deploying_alone:
  "alone A 4 (Inr (Deploying i b Place), C) =
     answered (case on_core (Submit (new_uuid i) (to_deploy_request b)) C of
       (Inl err, C1) \<Rightarrow> (httpErr (Error err) 503, C1)
     | (Inr result, C1) \<Rightarrow> (respond (deploy_json result), C1))"
proof -
  let ?req = "to_deploy_request b"
  have dq: "dq_CPUCores ?req = db_cpu_cores b" "dq_MemoryMB ?req = db_memory_mb b" by (simp_all add: to_deploy_request_def)
  obtain u P where u: "BestProvider (db_cpu_cores b) (db_memory_mb b) (db (core C)) = (u, P)" by fastforce
  note steps = answered_def onward_on Submit_def on_core_eq on_redis_def on_pg_def dq u numeral_nat
  show ?thesis
  proof (cases u)
    case (Inr pr)
    obtain v Q where v: "InsertJob (new_job (new_uuid i) (p_id pr) ?req) P = (v, Q)" by fastforce
    obtain w T where w: "AssignJob (new_uuid i) (p_id pr) Q = (w, T)" by fastforce
    obtain x R where x: "PushJob (p_id pr) (new_uuid i) (cache (core C)) = (x, R)" by fastforce
    show ?thesis using Inr by (cases v; cases w; cases x) (simp_all add: steps v w x)
  qed (simp add: steps)
qed

lemma polling_alone: "alone A 2 (Inr (Polling i pid Wait), C) = answered (handle_poll i pid C)"
proof -
  obtain u R where u: "PopJob pid 25 (cache (core C)) = (u, R)" by fastforce
  note steps = answered_def onward_on handle_poll_def PollForProvider_def on_core_eq on_redis_def on_pg_def u numeral_nat
  show ?thesis
  proof (cases u)
    case (Inr jobID)
    obtain jo err P where n: "NextPendingJob (locked_jobs i) pid (db (core C)) = ((jo, err), P)" by (metis prod.collapse)
    show ?thesis using Inr by (cases jo; cases err) (simp_all add: steps n)
  qed (simp add: steps)
qed

lemma alone_add: "alone A (m + n) xC = alone A n (alone A m xC)"
proof (induction m arbitrary: xC)
  case (Suc m)
  obtain x C where xC: "xC = (x, C)" by fastforce
  show ?case
  proof (cases x)
    case (Inr t)
    then show ?thesis using Suc.IH by (simp add: xC)
  qed (simp add: xC)
qed simp

text \<open>More stages than needed do no harm.\<close>

lemma alone_enough: "alone A m xC = answered y \<Longrightarrow> m \<le> n \<Longrightarrow> alone A n xC = answered y"
  using alone_add [of A m "n - m" xC] by (cases y) (simp add: answered_def)

lemma answered_Pair [simp]: "answered (resp, C) = (Inl resp, C)"
  by (simp add: answered_def)

lemma allowed_alone:
  "alone A n (x, C) = answered resp \<Longrightarrow> alone A n (allowed ms rq x, C) = answered (only ms rq resp C)"
  by (simp add: allowed_def only_def)

lemma bearer_alone: "alone A n (x, C) = answered (k C) \<Longrightarrow> alone A n (bearer A i rq x, C) = answered (withJWT A i rq k C)"
  by (simp add: bearer_def withJWT_def)

lemma register_alone:
  "alone A 6 (decoded (decode (runtime A) register_fields empty_register body) (\<lambda>b. Inr (Registering i b Check_Token)), C) =
     answered (handle_register A i body C)"
  by (cases "decode (runtime A) register_fields empty_register body")
    (simp_all add: decoded_def handle_register_def registering_alone)

lemma deploy_alone:
  "alone A 6 (decoded (decode (runtime A) deploy_fields empty_deploy body) (\<lambda>b. Inr (Deploying i b Place)), C) =
     answered (handle_deploy A i body C)"
  by (cases "decode (runtime A) deploy_fields empty_deploy body")
    (simp_all add: decoded_def handle_deploy_def alone_enough [OF deploying_alone])

lemma one_stage_alone:
  "alone A 6 (decoded (decode (runtime A) (heartbeat_fields (runtime A)) empty_heartbeat body) (\<lambda>b. Inr (Beating b)), C) =
     answered (handle_heartbeat A body C)" (is ?b)
  "alone A 6 (decoded (decode (runtime A) report_fields empty_report body) (\<lambda>b. Inr (Reporting i b)), C) =
     answered (handle_report A i body C)" (is ?r)
  "alone A 6 (decoded (decode (runtime A) cert_fields empty_cert body) (\<lambda>b. Inl (certified A i b)), C) =
     answered (handle_cert A i body C)" (is ?c)
  "alone A 6 (Inr Listing, C) = answered (handle_list A C)" (is ?l)
proof -
  show ?b by (cases "decode (runtime A) (heartbeat_fields (runtime A)) empty_heartbeat body")
    (auto simp: decoded_def handle_heartbeat_def onward_on on_core_eq numeral_nat split: sum.splits prod.splits)
  show ?r by (cases "decode (runtime A) report_fields empty_report body")
    (auto simp: decoded_def handle_report_def onward_on on_core_eq numeral_nat split: sum.splits prod.splits)
  show ?c by (cases "decode (runtime A) cert_fields empty_cert body")
    (auto simp: decoded_def handle_cert_def certified_def split: sum.splits)
  show ?l by (auto simp: handle_list_def onward_on on_core_eq numeral_nat split: sum.splits prod.splits)
qed

lemma routed:
  "alone A n (x, C) = answered r \<Longrightarrow> alone A n (y, C) = answered s \<Longrightarrow>
     alone A n (if b then x else y, C) = answered (if b then r else s)"
  by simp

text \<open>
  Result (requests in stages). A request whose stages run one after the other ends within six of them,
  and answers and acts as its handler does in one go: the two readings of the handlers agree.
\<close>

theorem serve_in_stages:
  "alone A 6 (arrive A i rq, C) = map_prod Inl id (Serve A i rq C)"
proof -
  have "alone A 6 (arrive A i rq, C) = answered (Serve A i rq C)"
    unfolding arrive_def Serve_def Let_def
    by (intro routed allowed_alone bearer_alone register_alone deploy_alone one_stage_alone
        alone_enough [OF polling_alone]) simp_all
  then show ?thesis by (simp add: answered_def)
qed


section \<open>Many requests at a time\<close>

text \<open>The control plane with the handlers that are under way and the jobs that were handed out.\<close>

record 'r site =
  st_plane :: "'r control"
  st_tasks :: "task list"
  st_handed :: "string list"

text \<open>The job that a stage hands out.\<close>

definition claims :: "task \<Rightarrow> 'r control \<Rightarrow> string list" where
  "claims t C =
     (case t of Polling i pid Claim_Row \<Rightarrow>
        (case fst (NextPendingJob (locked_jobs i) pid (db (core C))) of (Some j, None) \<Rightarrow> [j_id j] | _ \<Rightarrow> [])
      | _ \<Rightarrow> [])"

text \<open>A request arrives, a handler moves on, something else happens (a tick of the sweeper, a command of
  the operator, time, or a request served in one go), or the process ends with its handlers.\<close>

datatype traffic = Arrive inputs http_request | Advance nat | Meanwhile event | Crash

fun site_step :: "('k, 's, 'c) api \<Rightarrow> traffic \<Rightarrow> 'r site \<Rightarrow> 'r site" where
  "site_step A (Arrive i rq) S =
     (case arrive A i rq of Inl resp \<Rightarrow> S | Inr t \<Rightarrow> S\<lparr>st_tasks := st_tasks S @ [t]\<rparr>)"
| "site_step A (Advance k) S =
     (if k < length (st_tasks S) then
        (let t = st_tasks S ! k; (x, C) = advance A t (st_plane S) in
         \<lparr>st_plane = C,
          st_tasks = take k (st_tasks S) @ (case x of Inl resp \<Rightarrow> [] | Inr t' \<Rightarrow> [t']) @ drop (Suc k) (st_tasks S),
          st_handed = st_handed S @ claims t (st_plane S)\<rparr>)
      else S)"
| "site_step A (Meanwhile e) S =
     S\<lparr>st_plane := after A e (st_plane S), st_handed := st_handed S @ handed_out e (st_plane S)\<rparr>"
| "site_step A Crash S = S\<lparr>st_tasks := []\<rparr>"

definition site_run :: "('k, 's, 'c) api \<Rightarrow> traffic list \<Rightarrow> 'r site \<Rightarrow> 'r site" where
  "site_run A ts = fold (site_step A) ts"

lemma site_run_induct:
  assumes "P S" and "\<And>M e. e \<in> set ts \<Longrightarrow> P M \<Longrightarrow> P (site_step A e M)"
  shows "P (site_run A ts S)"
  using assms unfolding site_run_def by (induction ts arbitrary: S) simp_all

text \<open>An advance replaces one handler by what is left of it.\<close>

lemma advance_step:
  assumes "k < length (st_tasks S)"
  obtains us t vs x C where "st_tasks S = us @ t # vs" "advance A t (st_plane S) = (x, C)"
    "site_step A (Advance k) S = \<lparr>st_plane = C, st_tasks = us @ (case x of Inl resp \<Rightarrow> [] | Inr t' \<Rightarrow> [t']) @ vs,
       st_handed = st_handed S @ claims t (st_plane S)\<rparr>"
proof -
  let ?t = "st_tasks S ! k"
  obtain x C where x: "advance A ?t (st_plane S) = (x, C)" by fastforce
  have "st_tasks S = take k (st_tasks S) @ ?t # drop (Suc k) (st_tasks S)" by (rule id_take_nth_drop [OF assms])
  with that [OF _ x] x assms show thesis by simp
qed


section \<open>What a stage does to the stores\<close>

lemma snd_onward [simp]: "snd (onward refuse m k) = snd m"
  by (cases "(refuse, m, k)" rule: onward.cases) auto

text \<open>The calls of a stage; only one stage assigns a job.\<close>

fun stage_calls :: "task \<Rightarrow> pg_call set" where
  "stage_calls (Registering i b (Write_Row ip port)) = range CallUpsertProvider"
| "stage_calls (Deploying i b (Assign_Row pr)) = {CallAssignJob (new_uuid i) (p_id pr)}"
| "stage_calls (Deploying i b st) = {c. (\<exists>n m. c = CallBestProvider n m) \<or> (\<exists>j. c = CallInsertJob j)}"
| "stage_calls (Polling i pid st) = {CallNextPendingJob (locked_jobs i) pid}"
| "stage_calls (Beating b) = {c. \<exists>i a l m. c = CallHeartbeat i a l m}"
| "stage_calls (Reporting i b) = range CallUpsertVM"
| "stage_calls Listing = {CallListProviders}"
| "stage_calls (Registering i b st) = {}"

lemma advance_through: "through (stage_calls t) (core C) (core (snd (advance A t C)))"
proof (cases t)
  case (Registering i b st)
  then show ?thesis by (cases st) (auto simp: Let_def split_def intro!: through_calls through_on_redis)
next
  case (Deploying i b st)
  then show ?thesis by (cases st) (auto intro!: through_calls through_on_redis)
next
  case (Polling i pid st)
  have "core (snd (poll_step i pid Claim_Row C)) = snd (on_pg (NextPendingJob (locked_jobs i) pid) (core C))"
    by (simp add: on_core_eq split: prod.splits option.splits)
  with Polling show ?thesis by (cases st) (auto intro!: through_calls through_on_redis)
qed (auto simp: Heartbeat_def intro!: through_calls)



section \<open>Jobs under interleaving\<close>

lemma run_calls_pending:
  assumes "wf_tables (tabs p)" and "pg_ok (pg_env p)"
    and "abs_jobs (tabs p) i = Some (Pending, pid)" and "\<And>pid'. CallAssignJob i pid' \<notin> set cs"
  shows "abs_jobs (tabs (run_calls cs p)) i = Some (Pending, pid)"
  using assms
proof (induction cs arbitrary: p)
  case (Cons c cs)
  have "action_of c p \<noteq> Some (Assign i pid')" for pid'
    using Cons.prems(4) by (cases c) (auto simp: action_of_def)
  with run_call_refines [OF Cons.prems(1,2), of c] Cons.prems(3)
  have "abs_jobs (tabs (run_call c p)) i = Some (Pending, pid)"
    by (cases rule: lifecycle.cases) (auto split: if_splits)
  from Cons.IH [OF run_call_wf [OF Cons.prems(1)] _ this] Cons.prems show ?case by (simp add: run_calls_def)
qed (simp add: run_calls_def)

text \<open>What is pending or running stays so for as long as it is not assigned.\<close>

definition settled :: "job_phase \<Rightarrow> bool" where
  "settled ph \<longleftrightarrow> ph = Pending \<or> ph = Running"

lemma settled_calls:
  assumes "stores_ok S" and "db S' = run_calls cs (db S)" and "\<And>pid'. CallAssignJob i pid' \<notin> set cs"
    and "abs_jobs (tabs (db S)) i = Some (ph, pid)" and "settled ph"
  shows "abs_jobs (tabs (db S')) i = Some (ph, pid)"
proof (cases ph)
  case Pending
  with assms run_calls_pending [of "db S" i pid cs] show ?thesis by (simp add: stores_ok_def)
next
  case Running
  with assms run_calls_phase [of "db S" i Running pid cs] show ?thesis by (auto simp: stores_ok_def Running_only)
qed (use assms(5) in \<open>simp add: settled_def\<close>)

lemma after_settled:
  assumes "stores_ok (core C)" and "abs_jobs (tabs (db (core C))) i = Some (ph, pid)" and "settled ph"
  shows "abs_jobs (tabs (db (core (after A e C)))) i = Some (ph, pid)"
  using after_calls [OF abs_jobs_known [OF assms(2)], of A e] settled_calls [OF assms(1) _ _ assms(2,3)] by blast

lemma advance_settled:
  assumes "stores_ok (core C)" and "abs_jobs (tabs (db (core C))) i = Some (ph, pid)" and "settled ph"
    and "\<And>pid'. CallAssignJob i pid' \<notin> stage_calls t"
  shows "abs_jobs (tabs (db (core (snd (advance A t C))))) i = Some (ph, pid)"
proof -
  obtain cs where "set cs \<subseteq> stage_calls t" "db (core (snd (advance A t C))) = run_calls cs (db (core C))"
    using advance_through [of t C A] by (auto simp: through_def)
  then show ?thesis using settled_calls [OF assms(1) _ _ assms(2,3)] assms(4) by blast
qed

text \<open>The job a handler has inserted and is about to assign.\<close>

fun assigning :: "task \<Rightarrow> string list" where
  "assigning (Deploying i b (Assign_Row pr)) = [new_uuid i]"
| "assigning t = []"

lemma assigning_calls: "CallAssignJob x pid \<in> stage_calls t \<Longrightarrow> assigning t = [x]"
  by (cases t rule: stage_calls.cases) auto

definition phase_ids :: "'r control \<Rightarrow> job_phase \<Rightarrow> string set" where
  "phase_ids C ph = {i. \<exists>pid. abs_jobs (tabs (db (core C))) i = Some (ph, pid)}"

lemma phase_ids_disjoint: "ph \<noteq> ph' \<Longrightarrow> phase_ids C ph \<inter> phase_ids C ph' = {}"
  by (auto simp: phase_ids_def)

definition jobs_inv :: "'r site \<Rightarrow> bool" where
  "jobs_inv S \<longleftrightarrow> stores_ok (core (st_plane S)) \<and>
     distinct (concat (map assigning (st_tasks S))) \<and> set (concat (map assigning (st_tasks S))) \<subseteq> phase_ids (st_plane S) Pending \<and>
     distinct (st_handed S) \<and> set (st_handed S) \<subseteq> phase_ids (st_plane S) Running"

lemma mapped_idle:
  "map_prod (map_sum id (Registering i b)) id y = (Inr t', C') \<Longrightarrow> assigning t' = []"
  "map_prod (map_sum id (Polling i pid)) id z = (Inr t', C') \<Longrightarrow> assigning t' = []"
  by (cases y; cases "fst y"; auto) (cases z; cases "fst z"; auto)

text \<open>What one stage does to the jobs: others are left alone, a new one is inserted, or one is claimed.\<close>

lemma advance_jobs:
  assumes "stores_ok (core C)" and "advance A t C = (x, C')"
  defines "a \<equiv> (case x of Inl resp \<Rightarrow> [] | Inr t' \<Rightarrow> assigning t')"
  shows "stores_ok (core C')"
    and "settled ph \<Longrightarrow> phase_ids C ph - set (assigning t) \<subseteq> phase_ids C' ph"
    and "a = [] \<or> (\<exists>i. a = [i] \<and> assigning t = [] \<and> i \<notin> phase_ids C Pending \<and> i \<notin> phase_ids C Running \<and> i \<in> phase_ids C' Pending)"
    and "claims t C = [] \<or> (\<exists>i. claims t C = [i] \<and> assigning t = [] \<and> a = [] \<and> i \<in> phase_ids C Scheduled \<and> i \<in> phase_ids C' Running)"
proof -
  have C': "C' = snd (advance A t C)" using assms(2) by simp
  show "stores_ok (core C')" unfolding C' by (rule through_ok [OF advance_through assms(1)])
  show "phase_ids C ph - set (assigning t) \<subseteq> phase_ids C' ph" if "settled ph"
    using advance_settled [OF assms(1) _ that, of _ _ t A] assigning_calls [of _ _ t] unfolding C' phase_ids_def by fastforce
  show "a = [] \<or> (\<exists>i. a = [i] \<and> assigning t = [] \<and> i \<notin> phase_ids C Pending \<and> i \<notin> phase_ids C Running \<and> i \<in> phase_ids C' Pending)"
  proof (cases t)
    case (Deploying i b st)
    show ?thesis
    proof (cases st)
      case (Insert_Row pr)
      let ?j = "new_job (new_uuid i) (p_id pr) (to_deploy_request b)"
      obtain u p where u: "InsertJob ?j (db (core C)) = (u, p)" by fastforce
      have j: "j_id ?j = new_uuid i" by (simp add: new_job_def)
      note step = assms(2) [unfolded Deploying Insert_Row, simplified, unfolded onward_on on_pg_def u, simplified]
      show ?thesis
      proof (cases u)
        case (Inr y)
        with step have x: "x = Inr (Deploying i b (Assign_Row pr))" "db (core C') = p" by auto
        note ins = InsertJob_Inr [OF u [unfolded Inr], unfolded j]
        have "new_uuid i \<notin> phase_ids C ph" for ph using ins(1) abs_jobs_known by (fastforce simp: phase_ids_def)
        moreover have "new_uuid i \<in> phase_ids C' Pending"
          using abs_jobs_insert [of ?j "tabs (db (core C))"] ins j by (simp add: phase_ids_def x)
        ultimately show ?thesis by (simp add: a_def x Deploying Insert_Row)
      qed (use step in \<open>auto simp: a_def\<close>)
    qed (use assms(2) Deploying in \<open>auto simp: a_def onward_on split: sum.splits prod.splits\<close>)
  next
    case (Registering i b st)
    show ?thesis
    proof (cases x)
      case (Inr t')
      with assms(2) Registering mapped_idle(1) have "assigning t' = []" by (metis advance.simps(1))
      with Inr show ?thesis by (simp add: a_def)
    qed (simp add: a_def)
  next
    case (Polling i pid st)
    show ?thesis
    proof (cases x)
      case (Inr t')
      with assms(2) Polling mapped_idle(2) have "assigning t' = []" by (metis advance.simps(3))
      with Inr show ?thesis by (simp add: a_def)
    qed (simp add: a_def)
  qed (use assms(2) in \<open>auto simp: a_def onward_on split: sum.splits prod.splits\<close>)
  show "claims t C = [] \<or> (\<exists>i. claims t C = [i] \<and> assigning t = [] \<and> a = [] \<and> i \<in> phase_ids C Scheduled \<and> i \<in> phase_ids C' Running)"
  proof (cases "claims t C")
    case (Cons y ys)
    then obtain i pid where t: "t = Polling i pid Claim_Row"
      by (auto simp: claims_def split: task.splits poll_stage.splits)
    obtain jo err p where n: "NextPendingJob (locked_jobs i) pid (db (core C)) = ((jo, err), p)" by (metis prod.collapse)
    with Cons t obtain j where j: "jo = Some j" "err = None" "claims t C = [j_id j]"
      by (auto simp: claims_def split: option.splits)
    have c: "db (core C') = p" "a = []" using assms(2) n j by (auto simp: t on_core_eq on_pg_def a_def)
    have "fst (NextPendingJob (locked_jobs i) pid (db (core C))) = (Some j, None)" by (simp add: n j)
    from delivery_claims [OF _ _ this] assms(1) n
    have "j_id j \<in> phase_ids C Scheduled" "j_id j \<in> phase_ids C' Running"
      by (auto simp: stores_ok_def phase_ids_def c)
    with j c t show ?thesis by simp
  qed simp
qed


lemma jobs_inv_advance:
  assumes "jobs_inv S" and "st_tasks S = us @ t # vs" and "advance A t (st_plane S) = (x, C')"
  shows "jobs_inv \<lparr>st_plane = C', st_tasks = us @ (case x of Inl resp \<Rightarrow> [] | Inr t' \<Rightarrow> [t']) @ vs,
    st_handed = st_handed S @ claims t (st_plane S)\<rparr>"
proof -
  let ?C = "st_plane S" and ?old = "concat (map assigning us) @ concat (map assigning vs)"
  let ?a = "case x of Inl resp \<Rightarrow> [] | Inr t' \<Rightarrow> assigning t'"
  have ok: "stores_ok (core ?C)" and d: "distinct (assigning t @ ?old)" and p: "set (assigning t @ ?old) \<subseteq> phase_ids ?C Pending"
    and h: "distinct (st_handed S)" "set (st_handed S) \<subseteq> phase_ids ?C Running"
    using assms(1,2) by (auto simp: jobs_inv_def)
  have a: "concat (map assigning (case x of Inl resp \<Rightarrow> [] | Inr t' \<Rightarrow> [t'])) = ?a" by (simp split: sum.splits)
  note job = advance_jobs [OF ok assms(3)]
  have "set ?old \<subseteq> phase_ids ?C Pending - set (assigning t)" using d p by auto
  then have p': "set ?old \<subseteq> phase_ids C' Pending" using job(2) [of Pending] by (auto simp: settled_def)
  have "set (st_handed S) \<subseteq> phase_ids ?C Running - set (assigning t)"
    using h(2) p phase_ids_disjoint [of Pending Running ?C] by auto
  then have h': "set (st_handed S) \<subseteq> phase_ids C' Running" using job(2) [of Running] by (auto simp: settled_def)
  have "distinct (?a @ ?old) \<and> set (?a @ ?old) \<subseteq> phase_ids C' Pending" using job(3) d p p' by auto
  moreover have "distinct (st_handed S @ claims t ?C) \<and> set (st_handed S @ claims t ?C) \<subseteq> phase_ids C' Running"
    using job(4) h h' phase_ids_disjoint [of Scheduled Running ?C] by auto
  ultimately show ?thesis using job(1) by (auto simp: jobs_inv_def a)
qed

lemma arrive_idle: "arrive A i rq = Inr t \<Longrightarrow> assigning t = []"
  by (auto simp: arrive_def Let_def allowed_def bearer_def decoded_def certified_def split: if_splits sum.splits)

lemma jobs_inv_step: "jobs_inv S \<Longrightarrow> jobs_inv (site_step A e S)"
proof (cases e)
  case (Arrive i rq)
  assume "jobs_inv S"
  then show ?thesis using arrive_idle [of A i rq] by (auto simp: Arrive jobs_inv_def split: sum.splits)
next
  case (Advance k)
  assume inv: "jobs_inv S"
  show ?thesis
  proof (cases "k < length (st_tasks S)")
    case True
    show ?thesis by (rule advance_step [OF True, of A]) (simp only: Advance jobs_inv_advance [OF inv])
  qed (use inv Advance in simp)
next
  case (Meanwhile ev)
  let ?C = "st_plane S" and ?C' = "after A ev (st_plane S)"
  assume inv: "jobs_inv S"
  then have ok: "stores_ok (core ?C)" by (simp add: jobs_inv_def)
  have sub: "phase_ids ?C ph \<subseteq> phase_ids ?C' ph" if "settled ph" for ph
    using after_settled [OF ok _ that, of _ _ A ev] by (fastforce simp: phase_ids_def)
  have "handed_out ev ?C = [] \<or> (\<exists>i. handed_out ev ?C = [i] \<and> i \<in> phase_ids ?C Scheduled \<and> i \<in> phase_ids ?C' Running)"
  proof (cases "handed_out ev ?C")
    case (Cons i ids)
    with handed_out_claims [OF ok, of i ev A] show ?thesis by (fastforce simp: phase_ids_def simp del: after.simps)
  qed simp
  moreover have "set (concat (map assigning (st_tasks S))) \<subseteq> phase_ids ?C' Pending" "set (st_handed S) \<subseteq> phase_ids ?C' Running"
    using inv sub [of Pending] sub [of Running] by (auto simp: jobs_inv_def settled_def simp del: after.simps)
  moreover have "stores_ok (core ?C')" by (rule after_ok [OF ok])
  ultimately show ?thesis using inv phase_ids_disjoint [of Scheduled Running ?C]
    by (auto simp: Meanwhile jobs_inv_def simp del: after.simps)
next
  case Crash
  assume "jobs_inv S"
  then show ?thesis by (simp add: Crash jobs_inv_def)
qed

lemma jobs_inv_run: "jobs_inv S \<Longrightarrow> jobs_inv (site_run A ts S)"
  by (erule site_run_induct) (rule jobs_inv_step)

text \<open>
  C1 (delivery under interleaving). However the handlers of any requests interleave, with requests to
  the stores that fail, and whenever the process ends: no job is handed to two polls, and a
  job that was handed out is running.
\<close>

theorem concurrent_delivers_once:
  assumes "stores_ok (core (st_plane S0))" and "st_tasks S0 = []" and "st_handed S0 = []"
  shows "distinct (st_handed (site_run A ts S0)) \<and> (\<forall>i \<in> set (st_handed (site_run A ts S0)).
    \<exists>pid. abs_jobs (tabs (db (core (st_plane (site_run A ts S0))))) i = Some (Running, pid))"
proof -
  have "jobs_inv (site_run A ts S0)" by (rule jobs_inv_run) (use assms in \<open>simp add: jobs_inv_def\<close>)
  then show ?thesis by (auto simp: jobs_inv_def phase_ids_def)
qed


text \<open>What is counted as handed out is what the answer holds.\<close>

lemma claims_answer:
  "claims t C = [x] \<Longrightarrow> \<exists>j. j_id j = x \<and> fst (advance A t C) = Inl (respond (job_json j))"
  "claims (Polling i pid st) C = [] \<Longrightarrow> fst (advance A (Polling i pid st) C) \<noteq> Inl (respond (job_json j))"
proof -
  have claim: "claims (Polling i pid Claim_Row) C = [y] \<longrightarrow>
      (\<exists>j. j_id j = y \<and> fst (advance A (Polling i pid Claim_Row) C) = Inl (respond (job_json j)))"
    "claims (Polling i pid Claim_Row) C = [] \<longrightarrow> fst (advance A (Polling i pid Claim_Row) C) \<noteq> Inl (respond (job_json j))"
    for i pid y j
  proof -
    obtain jo err p where n: "NextPendingJob (locked_jobs i) pid (db (core C)) = ((jo, err), p)" by (metis prod.collapse)
    show "claims (Polling i pid Claim_Row) C = [y] \<longrightarrow>
        (\<exists>j. j_id j = y \<and> fst (advance A (Polling i pid Claim_Row) C) = Inl (respond (job_json j)))"
      and "claims (Polling i pid Claim_Row) C = [] \<longrightarrow> fst (advance A (Polling i pid Claim_Row) C) \<noteq> Inl (respond (job_json j))"
      by (cases jo; cases err; fastforce simp: n claims_def on_core_eq on_pg_def no_content_def respond_def httpErr_def)+
  qed
  show "\<exists>j. j_id j = x \<and> fst (advance A t C) = Inl (respond (job_json j))" if "claims t C = [x]"
    using that claim(1) [of _ _ x] by (auto simp: claims_def split: task.splits poll_stage.splits)
  show "fst (advance A (Polling i pid st) C) \<noteq> Inl (respond (job_json j))" if "claims (Polling i pid st) C = []"
  proof (cases st)
    case Wait
    then show ?thesis
      by (auto simp: onward_on no_content_def respond_def httpErr_def split: prod.splits sum.splits)
  qed (use that claim(2) in simp)
qed


section \<open>Addresses and tokens under interleaving\<close>

text \<open>The address and the token that a registration will write, and the token it has checked.\<close>

fun held :: "task \<Rightarrow> (string \<times> string) list" where
  "held (Registering i b (Take_Port ip)) = [(ip, rb_token b)]"
| "held (Registering i b (Write_Row ip port)) = [(ip, rb_token b)]"
| "held t = []"

fun checked :: "task \<Rightarrow> string set" where
  "checked (Registering i b Check_Token) = {}"
| "checked (Registering i b st) = {rb_token b}"
| "checked t = {}"

lemma mapped_task:
  "map_prod (map_sum id f) id y = (x, C') \<longleftrightarrow> C' = snd y \<and> x = map_sum id f (fst y)"
  by (cases y) auto

text \<open>What a stage of a registration does to the rows, the counter and the tokens.\<close>

lemma register_step_creds:
  assumes "stores_ok (core C)" and "register_step A i b st C = (y, C')"
  defines "x \<equiv> map_sum id (Registering i b) y"
  defines "a \<equiv> (case x of Inl resp \<Rightarrow> [] | Inr t' \<Rightarrow> held t')"
    and "v \<equiv> (case x of Inl resp \<Rightarrow> {} | Inr t' \<Rightarrow> checked t')"
  defines "t \<equiv> Registering i b st" and "n \<equiv> ips_used (cache (core C))"
  shows "tokens_of (cache (core C')) = tokens_of (cache (core C)) \<and> v \<subseteq> checked t \<union> tokens_of (cache (core C)) \<and>
     (all_creds (core C') = all_creds (core C) \<and> ips_used (cache (core C')) \<in> {n, n + 1} \<and> (a = [] \<or> a = held t) \<or>
      all_creds (core C') = all_creds (core C) \<and> ips_used (cache (core C')) = n + 1 \<and> n + 1 < 2 ^ 63 \<and> held t = [] \<and>
        a = [(wg_ip_of (n + 1), rb_token b)] \<or>
      all_creds (core C') = all_creds (core C) @ held t \<and> ips_used (cache (core C')) = n \<and> a = [])"
proof -
  have ready: "ready_redis (cache (core C))" using assms(1) by (simp add: stores_ok_def)
  note defs = x_def a_def v_def t_def n_def
  show ?thesis
  proof (cases st)
    case Check_Token
    obtain r R where r: "TokenValid (rb_token b) (cache (core C)) = (r, R)" by fastforce
    from TokenValid_effect [OF ready r] assms(2) show ?thesis
      by (cases r) (auto simp: defs Check_Token onward_on on_redis_def r tokens_of_def ips_used_def split: if_splits)
  next
    case Take_Address
    obtain r R where r: "AllocWGIP (cache (core C)) = (r, R)" by fastforce
    from AllocWGIP_effect [OF ready r] assms(2) show ?thesis
      by (cases r) (auto simp: defs Take_Address onward_on on_redis_def r tokens_of_def ips_used_def effect_def tokenSetKey_def)
  next
    case (Take_Port ip)
    obtain r R where r: "AllocPort (cache (core C)) = (r, R)" by fastforce
    from AllocPort_effect(1) [OF ready r] assms(2) show ?thesis
      by (cases r) (auto simp: defs Take_Port onward_on on_redis_def r tokens_of_def ips_used_def effect_def)
  next
    case (Write_Row ip port)
    let ?p = "new_provider (new_uuid i) (micros (reading i 0)) ip port (to_register_request b)"
    obtain r P where r: "UpsertProvider ?p (db (core C)) = (r, P)" by fastforce
    have "creds ?p = (ip, rb_token b)" by (simp add: creds_def new_provider_def to_register_request_def)
    with UpsertProvider_creds [of ?p "db (core C)"] assms(2) show ?thesis
      by (cases r) (auto simp: defs Write_Row onward_on on_pg_def r)
  qed (use assms(2) in \<open>auto simp: defs Let_def split_def split: if_splits\<close>)
qed


lemma quiet_stage:
  assumes "stores_ok (core C)" and "advance A t C = (x, C')" and "\<nexists>i b st. t = Registering i b st"
  shows "all_creds (core C') = all_creds (core C)" and "ips_used (cache (core C')) = ips_used (cache (core C))"
    and "tokens_of (cache (core C')) = tokens_of (cache (core C))"
    and "x = Inr t' \<Longrightarrow> held t' = [] \<and> checked t' = {}" and "held t = []"
proof -
  have C': "C' = snd (advance A t C)" using assms(2) by simp
  have ready: "ready_redis (cache (core C))" using assms(1) by (simp add: stores_ok_def)
  show "held t = []" using assms(3) by (cases t) auto
  show "all_creds (core C') = all_creds (core C)"
    unfolding C' by (rule through_creds [OF advance_through]) (use assms(3) in \<open>cases t rule: stage_calls.cases; auto\<close>)
  have "ips_used (cache (core C')) = ips_used (cache (core C)) \<and> tokens_of (cache (core C')) = tokens_of (cache (core C))"
  proof (cases t)
    case (Deploying i b st)
    have "ips_used (snd (PushJob p j (cache (core C)))) = ips_used (cache (core C)) \<and>
        tokens_of (snd (PushJob p j (cache (core C)))) = tokens_of (cache (core C))" for p j
      using PushJob_effect [OF ready prod.collapse [symmetric], of p j]
      by (auto simp: effect_def ips_used_def tokens_of_def split: sum.splits if_splits)
    then show ?thesis unfolding C' Deploying
      by (cases st) (auto simp: on_core_eq on_redis_def on_pg_def split_def Let_def split: prod.splits)
  next
    case (Polling i pid st)
    have "ips_used (snd (PopJob pid 25 (cache (core C)))) = ips_used (cache (core C)) \<and>
        tokens_of (snd (PopJob pid 25 (cache (core C)))) = tokens_of (cache (core C))"
      using PopJob_effect [OF ready prod.collapse [symmetric], of pid 25]
      by (auto simp: effect_def ips_used_def tokens_of_def split: sum.splits if_splits)
    moreover have "core (snd (poll_step i pid Claim_Row C)) = snd (on_pg (NextPendingJob (locked_jobs i) pid) (core C))"
      by (simp add: on_core_eq split: prod.splits option.splits)
    ultimately show ?thesis unfolding C' Polling
      by (cases st) (simp_all add: on_core_eq on_redis_def on_pg_def split_def Let_def)
  qed (use assms(3) in \<open>auto simp: C' on_core_eq on_pg_def Heartbeat_def split: prod.splits\<close>)
  then show "ips_used (cache (core C')) = ips_used (cache (core C))"
    "tokens_of (cache (core C')) = tokens_of (cache (core C))" by simp_all
  show "held t' = [] \<and> checked t' = {}" if "x = Inr t'"
  proof (cases t)
    case (Deploying i b st)
    then have "map_sum id (Deploying i b) (fst (deploy_step i b st C)) = Inr t'"
      using assms(2) that by (simp only: advance.simps mapped_task)
    then show ?thesis by (cases "fst (deploy_step i b st C)") auto
  next
    case (Polling i pid st)
    then have "map_sum id (Polling i pid) (fst (poll_step i pid st C)) = Inr t'"
      using assms(2) that by (simp only: advance.simps mapped_task)
    then show ?thesis by (cases "fst (poll_step i pid st C)") auto
  qed (use assms(2,3) that in \<open>auto simp: onward_on split: sum.splits prod.splits\<close>)
qed

text \<open>Every stage, on rows, counter and tokens.\<close>

lemma advance_creds:
  assumes "stores_ok (core C)" and "advance A t C = (x, C')"
  defines "a \<equiv> (case x of Inl resp \<Rightarrow> [] | Inr t' \<Rightarrow> held t')"
    and "v \<equiv> (case x of Inl resp \<Rightarrow> {} | Inr t' \<Rightarrow> checked t')" and "n \<equiv> ips_used (cache (core C))"
  shows "tokens_of (cache (core C')) = tokens_of (cache (core C)) \<and> v \<subseteq> checked t \<union> tokens_of (cache (core C)) \<and>
     (all_creds (core C') = all_creds (core C) \<and> ips_used (cache (core C')) \<in> {n, n + 1} \<and> (a = [] \<or> a = held t) \<or>
      all_creds (core C') = all_creds (core C) \<and> ips_used (cache (core C')) = n + 1 \<and> n + 1 < 2 ^ 63 \<and> held t = [] \<and>
        (\<exists>tok. a = [(wg_ip_of (n + 1), tok)]) \<or>
      all_creds (core C') = all_creds (core C) @ held t \<and> ips_used (cache (core C')) = n \<and> a = [])"
proof (cases "\<exists>i b st. t = Registering i b st")
  case True
  then obtain i b st where t: "t = Registering i b st" by blast
  obtain y where y: "register_step A i b st C = (y, C')" "x = map_sum id (Registering i b) y"
    using assms(2) by (metis t advance.simps(1) mapped_task prod.collapse)
  from register_step_creds [OF assms(1) y(1)] show ?thesis unfolding a_def v_def n_def t y(2) by blast
next
  case False
  from quiet_stage [OF assms(1,2) False] show ?thesis by (auto simp: a_def v_def n_def split: sum.splits)
qed

lemma checked_held: "snd ` set (held t) \<subseteq> checked t"
  by (cases t rule: checked.cases; cases t rule: held.cases) auto


text \<open>The addresses that the counter has given so far.\<close>

definition given :: "int \<Rightarrow> string set" where
  "given n = wg_ip_of ` ({0<..n} \<inter> {..<2 ^ 63})"

lemma given_mono: "n \<le> m \<Longrightarrow> given n \<subseteq> given m"
  by (auto simp: given_def)

lemma given_next:
  assumes "0 \<le> n" and "n + 1 < 2 ^ 63"
  shows "wg_ip_of (n + 1) \<in> given (n + 1)" and "wg_ip_of (n + 1) \<notin> given n"
proof -
  show "wg_ip_of (n + 1) \<in> given (n + 1)" using assms by (auto simp: given_def)
  show "wg_ip_of (n + 1) \<notin> given n"
  proof
    assume "wg_ip_of (n + 1) \<in> given n"
    then obtain m where "0 < m" "m \<le> n" "m < 2 ^ 63" "wg_ip_of (n + 1) = wg_ip_of m" by (auto simp: given_def)
    with inj_onD [OF wg_ip_inj, of "n + 1" m] assms show False by simp
  qed
qed

definition addresses :: "'r site \<Rightarrow> string list" where
  "addresses S = map fst (all_creds (core (st_plane S))) @ map fst (concat (map held (st_tasks S)))"

definition addressed_site :: "'r site \<Rightarrow> bool" where
  "addressed_site S \<longleftrightarrow> stores_ok (core (st_plane S)) \<and> 0 \<le> ips_used (cache (core (st_plane S))) \<and>
     distinct (addresses S) \<and> set (addresses S) \<subseteq> given (ips_used (cache (core (st_plane S))))"

text \<open>Rows, then what the others hold, then what the stage holds: one of the three grows.\<close>

lemma addresses_grow:
  assumes "distinct (R @ U @ H @ V)" and "set (R @ U @ H @ V) \<subseteq> given n" and "0 \<le> n"
    and "R' = R \<and> n' \<in> {n, n + 1} \<and> (H' = [] \<or> H' = H) \<or>
      R' = R \<and> n' = n + 1 \<and> n + 1 < 2 ^ 63 \<and> H = [] \<and> H' = [wg_ip_of (n + 1)] \<or> R' = R @ H \<and> n' = n \<and> H' = [] \<or>
      R' = R @ [wg_ip_of (n + 1)] \<and> n' = n + 1 \<and> n + 1 < 2 ^ 63 \<and> H' = H"
  shows "0 \<le> n' \<and> distinct (R' @ U @ H' @ V) \<and> set (R' @ U @ H' @ V) \<subseteq> given n'"
proof -
  have n': "0 \<le> n'" "given n \<subseteq> given n'" using assms(3,4) by (auto intro!: given_mono)
  then have sub: "set (R @ U @ H @ V) \<subseteq> given n'" using assms(2) by blast
  from assms(4) consider "R' = R" "H' = [] \<or> H' = H"
    | "R' = R" "H = []" "H' = [wg_ip_of (n + 1)]" "n' = n + 1" "n + 1 < 2 ^ 63" | "R' = R @ H" "H' = []"
    | "R' = R @ [wg_ip_of (n + 1)]" "n' = n + 1" "n + 1 < 2 ^ 63" "H' = H" by blast
  then show ?thesis
  proof cases
    case 1
    with n' sub assms(1) show ?thesis by auto
  next
    case 2
    with given_next [OF assms(3)] n' sub assms(1,2) show ?thesis by auto
  next
    case 3
    with n' sub assms(1) show ?thesis by auto
  next
    case 4
    with given_next [OF assms(3)] n' sub assms(1,2) show ?thesis by auto
  qed
qed

lemma addresses_step:
  assumes "addressed_site S"
  shows "addressed_site (site_step A e S)"
proof (cases e)
  case (Arrive i rq)
  have "held t = []" if "arrive A i rq = Inr t" for t
    using that by (auto simp: arrive_def Let_def allowed_def bearer_def decoded_def split: if_splits sum.splits)
  then show ?thesis using assms by (auto simp: Arrive addressed_site_def addresses_def split: sum.splits)
next
  case (Advance k)
  show ?thesis
  proof (cases "k < length (st_tasks S)")
    case True
    obtain us t vs x C where S: "st_tasks S = us @ t # vs" and a: "advance A t (st_plane S) = (x, C)"
      and st: "site_step A (Advance k) S = \<lparr>st_plane = C, st_tasks = us @ (case x of Inl resp \<Rightarrow> [] | Inr t' \<Rightarrow> [t']) @ vs,
        st_handed = st_handed S @ claims t (st_plane S)\<rparr>" by (rule advance_step [OF True, of A])
    let ?C = "st_plane S" and ?U = "map fst (concat (map held us))" and ?V = "map fst (concat (map held vs))"
    let ?H = "map fst (held t)" and ?H' = "map fst (case x of Inl resp \<Rightarrow> [] | Inr t' \<Rightarrow> held t')"
    from assms have ok: "stores_ok (core ?C)" and n: "0 \<le> ips_used (cache (core ?C))"
      and d: "distinct (map fst (all_creds (core ?C)) @ ?U @ ?H @ ?V)"
        "set (map fst (all_creds (core ?C)) @ ?U @ ?H @ ?V) \<subseteq> given (ips_used (cache (core ?C)))"
      by (simp_all add: addressed_site_def addresses_def S)
    have "0 \<le> ips_used (cache (core C)) \<and> distinct (map fst (all_creds (core C)) @ ?U @ ?H' @ ?V) \<and>
        set (map fst (all_creds (core C)) @ ?U @ ?H' @ ?V) \<subseteq> given (ips_used (cache (core C)))"
      by (rule addresses_grow [OF d n]) (use advance_creds [OF ok a] in \<open>elim conjE disjE exE; simp\<close>)
    moreover have "concat (map held (case x of Inl resp \<Rightarrow> [] | Inr t' \<Rightarrow> [t'])) = (case x of Inl resp \<Rightarrow> [] | Inr t' \<Rightarrow> held t')"
      by (simp split: sum.splits)
    ultimately show ?thesis using advance_jobs(1) [OF ok a]
      unfolding Advance st by (simp add: addressed_site_def addresses_def del: map_map)
  qed (use assms Advance in simp)
next
  case (Meanwhile ev)
  let ?C = "st_plane S" and ?C' = "after A ev (st_plane S)" and ?U = "map fst (concat (map held (st_tasks S)))"
  from assms have ok: "stores_ok (core ?C)" and n: "0 \<le> ips_used (cache (core ?C))"
    and d: "distinct (map fst (all_creds (core ?C)) @ ?U @ [] @ [])"
      "set (map fst (all_creds (core ?C)) @ ?U @ [] @ []) \<subseteq> given (ips_used (cache (core ?C)))"
    by (simp_all add: addressed_site_def addresses_def)
  have "0 \<le> ips_used (cache (core ?C')) \<and> distinct (map fst (all_creds (core ?C')) @ ?U @ [] @ []) \<and>
      set (map fst (all_creds (core ?C')) @ ?U @ [] @ []) \<subseteq> given (ips_used (cache (core ?C')))"
    by (rule addresses_grow [OF d n])
      (use after_creds [OF ok, of A ev] in \<open>elim conjE disjE bexE; simp del: after.simps\<close>)
  then show ?thesis using after_ok [OF ok, of A ev]
    by (simp add: Meanwhile addressed_site_def addresses_def del: map_map after.simps)
next
  case Crash
  with assms show ?thesis by (simp add: addressed_site_def addresses_def)
qed


text \<open>
  C4 (addresses under interleaving). However registrations interleave, fail half way or end with
  the process: no two providers have the same WireGuard address, and no address that a registration
  under way is about to write is another's.
\<close>

theorem concurrent_addresses_distinct:
  assumes "stores_ok (core (st_plane S0))" and "st_tasks S0 = []"
    and "providers (tabs (db (core (st_plane S0)))) = []" and "0 \<le> ips_used (cache (core (st_plane S0)))"
  shows "distinct (map p_wg_ip (providers (tabs (db (core (st_plane (site_run A ts S0)))))) @
    map fst (concat (map held (st_tasks (site_run A ts S0)))))"
proof -
  have "addressed_site S0" using assms by (simp add: addressed_site_def addresses_def)
  then have "addressed_site (site_run A ts S0)" by (rule site_run_induct) (rule addresses_step)
  then have "distinct (addresses (site_run A ts S0))" by (simp only: addressed_site_def)
  then show ?thesis by (simp only: addresses_def map_wg_ip)
qed


section \<open>Tokens under interleaving\<close>

definition vouched :: "string set \<Rightarrow> string set \<Rightarrow> 'r site \<Rightarrow> bool" where
  "vouched X T S \<longleftrightarrow> stores_ok (core (st_plane S)) \<and> tokens_of (cache (core (st_plane S))) \<subseteq> T \<and>
     (\<forall>t \<in> set (st_tasks S). checked t \<subseteq> T) \<and> snd ` set (all_creds (core (st_plane S))) \<subseteq> X \<union> T"

lemma vouched_step:
  assumes "vouched X T S" and "\<And>tok. e = Meanwhile (Issue_Token tok) \<Longrightarrow> tok \<in> T"
  shows "vouched X T (site_step A e S)"
proof (cases e)
  case (Arrive i rq)
  have "checked t = {}" if "arrive A i rq = Inr t" for t
    using that by (auto simp: arrive_def Let_def allowed_def bearer_def decoded_def split: if_splits sum.splits)
  then show ?thesis using assms(1) by (auto simp: Arrive vouched_def split: sum.splits)
next
  case (Advance k)
  show ?thesis
  proof (cases "k < length (st_tasks S)")
    case True
    obtain us t vs x C where S: "st_tasks S = us @ t # vs" and a: "advance A t (st_plane S) = (x, C)"
      and st: "site_step A (Advance k) S = \<lparr>st_plane = C, st_tasks = us @ (case x of Inl resp \<Rightarrow> [] | Inr t' \<Rightarrow> [t']) @ vs,
        st_handed = st_handed S @ claims t (st_plane S)\<rparr>" by (rule advance_step [OF True, of A])
    from assms(1) have ok: "stores_ok (core (st_plane S))" and t: "checked t \<subseteq> T"
      and v: "tokens_of (cache (core (st_plane S))) \<subseteq> T" "snd ` set (all_creds (core (st_plane S))) \<subseteq> X \<union> T"
        "\<forall>t \<in> set us \<union> set vs. checked t \<subseteq> T"
      by (auto simp: vouched_def S)
    from advance_creds [OF ok a] have tok: "tokens_of (cache (core C)) = tokens_of (cache (core (st_plane S)))"
      and new: "(case x of Inl resp \<Rightarrow> {} | Inr t' \<Rightarrow> checked t') \<subseteq> checked t \<union> tokens_of (cache (core (st_plane S)))"
      and rows: "all_creds (core C) = all_creds (core (st_plane S)) \<or> all_creds (core C) = all_creds (core (st_plane S)) @ held t"
      by blast+
    have "set (all_creds (core C)) \<subseteq> set (all_creds (core (st_plane S))) \<union> set (held t)"
      using rows by (elim disjE) (simp_all del: set_map)
    then have "snd ` set (all_creds (core C)) \<subseteq> X \<union> T" using v(2) t checked_held [of t] by blast
    then show ?thesis using advance_jobs(1) [OF ok a] tok new t v
      unfolding Advance st by (cases x) (auto simp: vouched_def)
  qed (use assms(1) Advance in simp)
next
  case (Meanwhile ev)
  from assms(1) have ok: "stores_ok (core (st_plane S))" by (simp add: vouched_def)
  have issue: "{t. ev = Issue_Token t} \<subseteq> T" using assms(2) Meanwhile by auto
  have old: "tokens_of (cache (core (st_plane S))) \<subseteq> T" "snd ` set (all_creds (core (st_plane S))) \<subseteq> X \<union> T"
    using assms(1) by (simp_all add: vouched_def)
  note new = after_creds [OF ok, of A ev]
  have "tokens_of (cache (core (after A ev (st_plane S)))) \<subseteq> T"
    by (rule subset_trans [OF conjunct1 [OF new]]) (rule Un_least [OF old(1) issue])
  moreover have "snd ` set (all_creds (core (after A ev (st_plane S)))) \<subseteq> X \<union> T"
    using conjunct2 [OF new]
  proof (elim disjE conjE bexE)
    fix tok assume "tok \<in> tokens_of (cache (core (st_plane S)))" and
      eq: "all_creds (core (after A ev (st_plane S))) = all_creds (core (st_plane S)) @
        [(wg_ip_of (ips_used (cache (core (st_plane S))) + 1), tok)]"
    then have "tok \<in> T" using old(1) by blast
    then show ?thesis unfolding eq using old(2) by (simp del: set_map)
  qed (use old(2) in \<open>simp del: after.simps\<close>)
  ultimately show ?thesis using after_ok [OF ok, of A ev] assms(1)
    by (simp add: Meanwhile vouched_def del: after.simps)
next
  case Crash
  with assms(1) show ?thesis by (simp add: vouched_def)
qed

text \<open>
  C9 (providers were invited, under interleaving). Even when a token is revoked while registrations
  are under way: the token of every provider in the table, and of every registration past its check,
  was issued by the operator or was there at the start.
\<close>

theorem concurrent_tokens_issued:
  fixes ts :: "traffic list" and S0 :: "'r site"
  assumes "stores_ok (core (st_plane S0))" and "st_tasks S0 = []"
  defines "issued \<equiv> tokens_of (cache (core (st_plane S0))) \<union> {t. Meanwhile (Issue_Token t) \<in> set ts}"
  shows "p_token ` set (providers (tabs (db (core (st_plane (site_run A ts S0)))))) \<subseteq>
      p_token ` set (providers (tabs (db (core (st_plane S0))))) \<union> issued \<and>
    (\<forall>i b st. Registering i b st \<in> set (st_tasks (site_run A ts S0)) \<and> st \<noteq> Check_Token \<longrightarrow> rb_token b \<in> issued)"
proof -
  let ?X = "snd ` set (all_creds (core (st_plane S0)))"
  have "vouched ?X issued (site_run A ts S0)"
  proof (rule site_run_induct [where P = "vouched ?X issued"])
    show "vouched ?X issued S0" using assms(1,2) by (auto simp: vouched_def issued_def)
    show "vouched ?X issued (site_step A e M)" if "e \<in> set ts" "vouched ?X issued M" for M e
      by (rule vouched_step [OF that(2)]) (use that(1) in \<open>simp add: issued_def\<close>)
  qed
  then have v: "snd ` set (all_creds (core (st_plane (site_run A ts S0)))) \<subseteq> ?X \<union> issued"
    "\<forall>t \<in> set (st_tasks (site_run A ts S0)). checked t \<subseteq> issued" by (simp_all add: vouched_def)
  have c: "checked (Registering i b st) = {rb_token b}" if "st \<noteq> Check_Token" for i b st
    using that by (cases st) auto
  have "snd ` set (all_creds S) = p_token ` set (providers (tabs (db S)))" for S :: "'r stores"
    by (simp add: creds_def image_image)
  with v(1) have "p_token ` set (providers (tabs (db (core (st_plane (site_run A ts S0)))))) \<subseteq>
      p_token ` set (providers (tabs (db (core (st_plane S0))))) \<union> issued" by (simp only:)
  moreover have "rb_token b \<in> issued"
    if "Registering i b st \<in> set (st_tasks (site_run A ts S0)) \<and> st \<noteq> Check_Token" for i b st
    using bspec [OF v(2) conjunct1 [OF that]] c [OF conjunct2 [OF that]] by simp
  ultimately show ?thesis by (intro conjI allI impI)
qed



section \<open>The end of the process\<close>

text \<open>A job that waits to be assigned while no handler is left that would assign it.\<close>

definition stranded :: "string \<Rightarrow> string \<Rightarrow> 'r site \<Rightarrow> bool" where
  "stranded i pid S \<longleftrightarrow> stores_ok (core (st_plane S)) \<and>
     abs_jobs (tabs (db (core (st_plane S)))) i = Some (Pending, pid) \<and> i \<notin> set (concat (map assigning (st_tasks S))) \<and>
     i \<notin> set (st_handed S)"

lemma stranded_step:
  assumes "stranded i pid S"
  shows "stranded i pid (site_step A e S)"
proof -
  let ?C = "st_plane S"
  from assms have ok: "stores_ok (core ?C)" and p: "abs_jobs (tabs (db (core ?C))) i = Some (Pending, pid)"
    by (simp_all add: stranded_def)
  have pending: "i \<in> phase_ids ?C Pending" using p by (auto simp: phase_ids_def)
  then have unscheduled: "i \<notin> phase_ids ?C Scheduled" using phase_ids_disjoint [of Pending Scheduled ?C] by auto
  show ?thesis
  proof (cases e)
    case (Arrive j rq)
    then show ?thesis using assms arrive_idle [of A j rq] by (auto simp: stranded_def split: sum.splits)
  next
    case (Advance k)
    show ?thesis
    proof (cases "k < length (st_tasks S)")
      case True
      obtain us t vs x C where S: "st_tasks S = us @ t # vs" and a: "advance A t ?C = (x, C)"
        and st: "site_step A (Advance k) S = \<lparr>st_plane = C, st_tasks = us @ (case x of Inl resp \<Rightarrow> [] | Inr t' \<Rightarrow> [t']) @ vs,
          st_handed = st_handed S @ claims t ?C\<rparr>" by (rule advance_step [OF True, of A])
      note job = advance_jobs [OF ok a]
      have "CallAssignJob i pid' \<notin> stage_calls t" for pid'
        using assms S assigning_calls [of i pid' t] by (auto simp: stranded_def)
      then have "abs_jobs (tabs (db (core C))) i = Some (Pending, pid)"
        using advance_settled [OF ok p, of t A] a by (simp add: settled_def)
      moreover have "i \<notin> set (case x of Inl resp \<Rightarrow> [] | Inr t' \<Rightarrow> assigning t')" using job(3) pending by auto
      moreover have "i \<notin> set (claims t ?C)" using job(4) unscheduled by auto
      ultimately show ?thesis using assms job(1) S
        unfolding Advance st by (auto simp: stranded_def split: sum.splits)
    qed (use assms Advance in simp)
  next
    case (Meanwhile ev)
    have "abs_jobs (tabs (db (core (after A ev ?C)))) i = Some (Pending, pid)"
      by (rule after_settled [OF ok p]) (simp add: settled_def)
    moreover have "i \<notin> set (handed_out ev ?C)"
      using handed_out_claims [OF ok, of i ev A] p by auto
    ultimately show ?thesis using assms after_ok [OF ok, of A ev]
      by (simp add: Meanwhile stranded_def del: after.simps)
  next
    case Crash
    with assms show ?thesis by (simp add: stranded_def)
  qed
qed

text \<open>
  C29 (a deploy that the process does not survive). A job whose row is written but not yet assigned when
  the process ends stays pending for ever: no later traffic assigns it, and no poll is
  handed it.
\<close>

theorem crash_strands_job:
  assumes "stores_ok (core (st_plane S))" and "abs_jobs (tabs (db (core (st_plane S)))) i = Some (Pending, pid)"
    and "i \<notin> set (st_handed S)"
  shows "abs_jobs (tabs (db (core (st_plane (site_run A (Crash # ts) S))))) i = Some (Pending, pid) \<and>
    i \<notin> set (st_handed (site_run A (Crash # ts) S))"
proof -
  have "stranded i pid (S\<lparr>st_tasks := []\<rparr>)" using assms by (simp add: stranded_def)
  then have "stranded i pid (site_run A ts (S\<lparr>st_tasks := []\<rparr>))" by (rule site_run_induct) (rule stranded_step)
  then show ?thesis by (simp add: stranded_def site_run_def)
qed


section \<open>Runs\<close>

abbreviation calm :: "'r control \<Rightarrow> 'r site" where
  "calm C \<equiv> \<lparr>st_plane = C, st_tasks = [], st_handed = []\<rparr>"

text \<open>Job \<open>j1\<close> is announced twice, two polls are woken, and both look for it.\<close>

definition announced_twice :: "redis_keys control" where
  "announced_twice = announced_control\<lparr>core := snd (on_redis (PushJob ''b'' ''j1'') (core announced_control))\<rparr>"

abbreviation two_polls :: "traffic list" where
  "two_polls \<equiv> [Arrive sample_inputs sample_poll, Arrive sample_inputs sample_poll, Advance 0, Advance 1, Advance 1, Advance 0]"

theorem concurrent_delivers_once_witness:
  "st_handed (site_run sample_api two_polls (calm announced_twice)) = [''j1''] \<and>
   (\<exists>pid. abs_jobs (tabs (db (core (st_plane (site_run sample_api two_polls (calm announced_twice)))))) ''j1'' = Some (Running, pid))"
proof -
  have h: "st_handed (site_run sample_api two_polls (calm announced_twice)) = [''j1'']" by code_simp
  have "stores_ok (core announced_twice)"
    unfolding announced_twice_def using announced_control_ok by (simp add: stores_ok_def on_redis_def split_def Let_def)
  with concurrent_delivers_once [of "calm announced_twice" sample_api two_polls] h show ?thesis by simp
qed

text \<open>Two registrations, the second of which overtakes the first.\<close>

abbreviation two_registrations :: "traffic list" where
  "two_registrations \<equiv> [Meanwhile (Issue_Token ''t''), Arrive sample_inputs sample_register, Arrive sample_inputs sample_register,
     Advance 0, Advance 1, Advance 1, Advance 0, Advance 1, Advance 1]"

theorem concurrent_addresses_distinct_witness:
  "let S = site_run sample_api two_registrations (calm new_control) in
     map p_wg_ip (providers (tabs (db (core (st_plane S))))) = [''10.99.1.1''] \<and>
     map fst (concat (map held (st_tasks S))) = [''10.99.1.2''] \<and>
     distinct (map p_wg_ip (providers (tabs (db (core (st_plane S))))) @ map fst (concat (map held (st_tasks S))))"
proof -
  let ?S = "site_run sample_api two_registrations (calm new_control)"
  have v: "map p_wg_ip (providers (tabs (db (core (st_plane ?S))))) = [''10.99.1.1'']"
    "map fst (concat (map held (st_tasks ?S))) = [''10.99.1.2'']" by code_simp+
  have n: "providers (tabs (db (core new_control))) = []" "0 \<le> ips_used (cache (core new_control))" by code_simp+
  from concurrent_addresses_distinct [of "calm new_control" sample_api two_registrations] new_control_ok n
  have "distinct (map p_wg_ip (providers (tabs (db (core (st_plane ?S))))) @ map fst (concat (map held (st_tasks ?S))))"
    by simp
  with v show ?thesis unfolding Let_def by (intro conjI)
qed

text \<open>A token that is revoked after its check still brings its provider into the table.\<close>

abbreviation revoked_meanwhile :: "traffic list" where
  "revoked_meanwhile \<equiv> [Meanwhile (Issue_Token ''t''), Arrive sample_inputs sample_register, Advance 0,
     Meanwhile (Revoke_Token ''t''), Advance 0, Advance 0, Advance 0]"

theorem concurrent_tokens_issued_witness:
  "let S = site_run sample_api revoked_meanwhile (calm new_control) in
     map p_token (providers (tabs (db (core (st_plane S))))) = [''t''] \<and> Meanwhile (Issue_Token ''t'') \<in> set revoked_meanwhile \<and>
     (\<forall>r \<in> set (providers (tabs (db (core (st_plane S))))). Meanwhile (Issue_Token (p_token r)) \<in> set revoked_meanwhile)"
proof -
  let ?S = "site_run sample_api revoked_meanwhile (calm new_control)"
  have v: "map p_token (providers (tabs (db (core (st_plane ?S))))) = [''t'']" by code_simp
  have n: "providers (tabs (db (core new_control))) = []" by code_simp
  have t: "tokens_of (cache (core new_control)) = {}"
    by (simp add: new_control_def sample_stores_def sample_redis_def tokens_of_def keys_of_def memory_client_def)
  from concurrent_tokens_issued [of "calm new_control" sample_api revoked_meanwhile] new_control_ok n t
  have "p_token ` set (providers (tabs (db (core (st_plane ?S))))) \<subseteq> {t. Meanwhile (Issue_Token t) \<in> set revoked_meanwhile}"
    by simp
  then have "\<forall>r \<in> set (providers (tabs (db (core (st_plane ?S))))). Meanwhile (Issue_Token (p_token r)) \<in> set revoked_meanwhile"
    by blast
  with v show ?thesis unfolding Let_def by (intro conjI) simp_all
qed

text \<open>A deploy that has written its row.\<close>

definition half_deployed :: "redis_keys site" where
  "half_deployed = site_run sample_api [Advance 0, Advance 0]
     \<lparr>st_plane = sample_control, st_tasks = [Deploying sample_inputs empty_deploy Place], st_handed = []\<rparr>"

theorem crash_strands_job_witness:
  "st_tasks half_deployed \<noteq> [] \<and>
   (\<exists>pid. \<forall>ts. abs_jobs (tabs (db (core (st_plane (site_run sample_api (Crash # ts) half_deployed))))) (new_uuid sample_inputs) =
     Some (Pending, pid))"
proof -
  let ?i = "new_uuid sample_inputs"
  have t: "length (st_tasks half_deployed) = 1" by code_simp
  have h: "st_handed half_deployed = []" by code_simp
  have j: "map_option fst (abs_jobs (tabs (db (core (st_plane half_deployed)))) ?i) = Some Pending" by code_simp
  then obtain pid where p: "abs_jobs (tabs (db (core (st_plane half_deployed)))) ?i = Some (Pending, pid)" by auto
  have "jobs_inv half_deployed" unfolding half_deployed_def
    by (rule jobs_inv_run) (use sample_control_ok in \<open>simp add: jobs_inv_def\<close>)
  then have ok: "stores_ok (core (st_plane half_deployed))" by (simp add: jobs_inv_def)
  from crash_strands_job [OF ok p, of sample_api] h have "abs_jobs (tabs (db (core (st_plane (site_run sample_api (Crash # ts) half_deployed))))) ?i =
     Some (Pending, pid)" for ts by simp
  with t show ?thesis by (intro conjI exI [of _ pid] allI) auto
qed

end
