(* ===== verification/Busy_Platform.thy ===== *)
theory Busy_Platform
  imports Concurrent
begin

text \<open>
  An agent and a busy control plane: as in \<open>Platform\<close>, but what the control plane does in between the
  agent's requests are stages of the requests of others, in any order.
\<close>

section \<open>Runs\<close>

inductive busy_platform :: "('k, 's, 'c) api \<Rightarrow> ('r control, 'l) agent_world \<Rightarrow> session \<Rightarrow> 'r control node \<Rightarrow>
    'r control node \<Rightarrow> task list \<Rightarrow> bool"
  for A :: "('k, 's, 'c) api" and W :: "('r control, 'l) agent_world" and s :: session and N0 :: "'r control node" where
  up: "busy_platform A W s N0 N0 []"
| own: "busy_platform A W s N0 N ts \<Longrightarrow> nd_ended N = None \<Longrightarrow>
    busy_platform A W s N0 (agent_step (W\<lparr>aw_http := wired A i took (cl_baseURL (ss_client s)) ft rt\<rparr>) s e N) ts"
| others: "busy_platform A W s N0 N ts \<Longrightarrow> S = site_step A e \<lparr>st_plane = nd_cp N, st_tasks = ts, st_handed = []\<rparr> \<Longrightarrow>
    busy_platform A W s N0 (N\<lparr>nd_cp := st_plane S\<rparr>) (st_tasks S)"

lemma site_running:
  assumes "jobs_inv S" and "abs_jobs (tabs (db (core (st_plane S)))) i = Some (Running, pid)"
  shows "abs_jobs (tabs (db (core (st_plane (site_step A e S))))) i = Some (Running, pid)"
proof (cases e)
  case (Advance k)
  from assms(1) have ok: "stores_ok (core (st_plane S))" by (simp add: jobs_inv_def)
  show ?thesis
  proof (cases "k < length (st_tasks S)")
    case True
    obtain us t vs x C where S: "st_tasks S = us @ t # vs" and a: "advance A t (st_plane S) = (x, C)"
      and st: "site_step A (Advance k) S = \<lparr>st_plane = C, st_tasks = us @ (case x of Inl resp \<Rightarrow> [] | Inr t' \<Rightarrow> [t']) @ vs,
        st_handed = st_handed S @ claims t (st_plane S)\<rparr>" by (rule advance_step [OF True, of A])
    have "set (assigning t) \<subseteq> phase_ids (st_plane S) Pending" using assms(1) S by (auto simp: jobs_inv_def)
    moreover have "i \<notin> phase_ids (st_plane S) Pending" using assms(2) by (auto simp: phase_ids_def)
    ultimately have "CallAssignJob i pid' \<notin> stage_calls t" for pid' using assigning_calls [of i pid' t] by auto
    then show ?thesis using advance_settled [OF ok assms(2), of t A] a unfolding Advance st by (simp add: settled_def)
  qed (use assms(2) Advance in simp)
next
  case (Meanwhile ev)
  with assms after_running [of "st_plane S" i pid A ev] show ?thesis by (simp add: jobs_inv_def del: after.simps)
qed (use assms(2) in \<open>auto split: sum.splits\<close>)

definition busy_inv :: "string \<Rightarrow> 'r control node \<Rightarrow> task list \<Rightarrow> bool" where
  "busy_inv pid N ts \<longleftrightarrow> (\<exists>xs. jobs_match pid N xs) \<and> jobs_inv \<lparr>st_plane = nd_cp N, st_tasks = ts, st_handed = []\<rparr>"

lemma jobs_inv_unhanded: "jobs_inv S \<Longrightarrow> jobs_inv \<lparr>st_plane = st_plane S, st_tasks = st_tasks S, st_handed = []\<rparr>"
  by (simp add: jobs_inv_def)

lemma busy_platform_inv:
  assumes "busy_platform A W s N0 N ts" and "jobs_match pid N0 []" and "plain_segment pid"
    and "ss_client s = client_of base tok pid"
  shows "busy_inv pid N ts"
  using assms(1)
proof induction
  case up
  with assms(2) show ?case by (auto simp: busy_inv_def jobs_inv_def jobs_match_def)
next
  case (own N ts i took ft rt e)
  let ?W = "W\<lparr>aw_http := wired A i took (cl_baseURL (ss_client s)) ft rt\<rparr>"
  from own obtain xs where m: "jobs_match pid N xs" and inv: "jobs_inv \<lparr>st_plane = nd_cp N, st_tasks = ts, st_handed = []\<rparr>"
    by (auto simp: busy_inv_def)
  have w: "aw_http ?W = wired A i took base ft rt" using assms(4) by simp
  have "\<exists>ys. jobs_match pid (agent_step ?W s e N) ys" by (rule match_step [OF m assms(3,4) w])
  moreover from m have "stores_ok (core (nd_cp N))" by (simp add: jobs_match_def)
  from agent_cp [OF w assms(4,3) this, of e] have "jobs_inv \<lparr>st_plane = nd_cp (agent_step ?W s e N), st_tasks = ts, st_handed = []\<rparr>"
  proof
    assume "nd_cp (agent_step ?W s e N) \<in> {after A ev (nd_cp N) |ev. True}"
    then obtain ev where "nd_cp (agent_step ?W s e N) = after A ev (nd_cp N)" by blast
    with jobs_inv_unhanded [OF jobs_inv_step [OF inv, of A "Meanwhile ev"]] show ?thesis by (simp del: after.simps)
  qed (use inv in simp)
  ultimately show ?case by (simp add: busy_inv_def)
next
  case (others N ts S e)
  then obtain xs where m: "jobs_match pid N xs" and inv: "jobs_inv \<lparr>st_plane = nd_cp N, st_tasks = ts, st_handed = []\<rparr>"
    by (auto simp: busy_inv_def)
  have S: "jobs_inv S" unfolding others(2) by (rule jobs_inv_step [OF inv])
  have "jobs_match pid (N\<lparr>nd_cp := st_plane S\<rparr>) xs"
    using m S site_running [OF inv, of _ pid A e] others(2) by (simp add: jobs_match_def jobs_inv_def)
  with jobs_inv_unhanded [OF S] show ?case by (auto simp: busy_inv_def)
qed

lemma busy_platform_kept:
  assumes "busy_platform A W s N0 N ts" and "jobs_kept N0"
  shows "jobs_kept N"
  using assms by induction (simp_all add: step_kept kept_cp)

text \<open>
  C7 (jobs of the platform). In every run of an agent with its control plane, which answers late or not
  and works at the same time on the requests of other providers, buyers and its operator, stage by stage
  in any order: each job that the agent has taken is running in the database under this provider, and it
  took each of them once; unless a panic ended it, each of them waits for its goroutine or was reported,
  and was reported once.
\<close>

theorem busy_platform_jobs:
  assumes "stores_ok (core (nd_cp N0))" and "nd_taken N0 = []" and "nd_started N0 = []" and "nd_reports N0 = []"
    and "ss_client s = client_of base tok pid" and "plain_segment pid" and "busy_platform A W s N0 N ts"
  shows "\<exists>xs. map dj_JobID (nd_taken N) = map to_utf8 xs \<and> distinct xs \<and>
    (\<forall>x \<in> set xs. abs_jobs (tabs (db (core (nd_cp N)))) x = Some (Running, pid)) \<and>
    mset (map dj_JobID (nd_started N)) + mset (map vr_JobID (nd_reports N)) \<subseteq># mset (map to_utf8 xs) \<and>
    (\<not> panicked N \<longrightarrow> mset (map dj_JobID (nd_started N)) + mset (map vr_JobID (nd_reports N)) = mset (map to_utf8 xs))"
proof -
  have "jobs_match pid N0 []" "jobs_kept N0" using assms(1-4) by (simp_all add: jobs_match_def jobs_kept_def job_ids_def)
  from busy_platform_inv [OF assms(7) this(1) assms(6,5)] busy_platform_kept [OF assms(7) this(2)]
  obtain xs where m: "jobs_match pid N xs" and k: "jobs_kept N" by (auto simp: busy_inv_def)
  from k have "job_ids N \<subseteq># mset (map dj_JobID (nd_taken N))" "\<not> panicked N \<longrightarrow> job_ids N = mset (map dj_JobID (nd_taken N))"
    by (auto simp: jobs_kept_def split: if_splits)
  with m show ?thesis by (intro exI [of _ xs]) (simp add: jobs_match_def job_ids_def)
qed

text \<open>The agent takes its job while another poll for the same provider is under way.\<close>

theorem busy_platform_jobs_witness:
  "\<exists>N ts x. busy_platform sample_api joined_world joined_session joined_node N ts \<and> length ts = 1 \<and>
     map dj_JobID (nd_taken N) = [''j1''] \<and> to_utf8 x = ''j1'' \<and>
     abs_jobs (tabs (db (core (nd_cp N)))) x = Some (Running, ''b'')"
proof -
  let ?N = "agent_step joined_wire joined_session Poll joined_node" and ?t = "Polling sample_inputs ''b'' Wait"
  have a: "arrive sample_api sample_inputs sample_poll = Inr ?t"
    by (simp add: arrive_def sample_poll_def v1_def allowed_def GET_def)
  let ?S = "site_step sample_api (Arrive sample_inputs sample_poll) \<lparr>st_plane = nd_cp joined_node, st_tasks = [], st_handed = []\<rparr>"
  have "busy_platform sample_api joined_world joined_session joined_node (joined_node\<lparr>nd_cp := st_plane ?S\<rparr>) (st_tasks ?S)"
    by (rule busy_platform.others [OF busy_platform.up refl])
  then have "busy_platform sample_api joined_world joined_session joined_node joined_node [?t]" by (simp add: a)
  from busy_platform.own [OF this joined_start(7)]
  have run: "busy_platform sample_api joined_world joined_session joined_node ?N [?t]" .
  from busy_platform_jobs [OF joined_start(1-6) run] obtain xs where x: "map dj_JobID (nd_taken ?N) = map to_utf8 xs"
    "\<forall>x \<in> set xs. abs_jobs (tabs (db (core (nd_cp ?N)))) x = Some (Running, ''b'')" by blast
  with joined_poll obtain y where "xs = [y]" "to_utf8 y = ''j1''" by auto
  with x(2) run joined_poll show ?thesis by (intro exI [of _ ?N] exI [of _ "[?t]"] exI [of _ y]) simp
qed

end
