(* ===== verification/Setup_Steps.thy ===== *)
theory Setup_Steps
  imports Host
begin

text \<open>
  What the two setup commands share (\<open>internal/setup/setup.go\<close> of both programs): a list of named
  steps that is run up to the first error, the helpers around files and programs, and what is
  to be known of them: which files of the machine a step leaves alone. The progress lines and
  the summary that are printed are left out.
\<close>


section \<open>Helpers\<close>

definition fileExists :: "string \<Rightarrow> host \<Rightarrow> bool" where
  "fileExists p H = exists_file p H"

definition writeFile :: "string \<Rightarrow> string \<Rightarrow> int \<Rightarrow> host \<Rightarrow> go_error option \<times> host" where
  "writeFile p c m H = WriteFile p c m H"

text \<open>A program whose failure does not matter.\<close>

definition run_quietly :: "string list \<Rightarrow> host \<Rightarrow> host" where
  "run_quietly argv H = snd (Run argv H)"

definition runOutput :: "string list \<Rightarrow> host \<Rightarrow> string result \<times> host" where
  "runOutput argv H = Output argv [] H"

definition runOutputStdin :: "string \<Rightarrow> string list \<Rightarrow> host \<Rightarrow> string result \<times> host" where
  "runOutputStdin stdin argv H = Output argv stdin H"

text \<open>\<open>os.Chmod\<close> whose error is not looked at.\<close>

definition Chmod :: "string \<Rightarrow> int \<Rightarrow> host \<Rightarrow> host" where
  "Chmod p m H = H\<lparr>files := (files H)(p := map_option (\<lambda>f. f\<lparr>mode := m\<rparr>) (files H p))\<rparr>"

text \<open>Text in lines, each ended; and a quoted word.\<close>

definition text_lines :: "string list \<Rightarrow> string" where
  "text_lines ls = concat (map (\<lambda>l. l @ [CHR 0x0A]) ls)"

definition dq :: "string \<Rightarrow> string" where
  "dq s = CHR 0x22 # s @ [CHR 0x22]"

text \<open>\<open>strings.Contains\<close>\<close>

fun contains :: "string \<Rightarrow> string \<Rightarrow> bool" where
  "contains w [] = (w = [])"
| "contains w (c # s) = (has_prefix (c # s) w \<or> contains w s)"

lemma contains_prefix: "has_prefix s w \<Longrightarrow> contains w s"
  by (cases s) (auto simp: has_prefix_def)

lemma contains_append: "contains w (a @ w @ b)"
  by (induction a) (simp_all add: contains_prefix has_prefix_def)


section \<open>Texts of both programs\<close>

definition TrustDomain :: string where "TrustDomain = ''dcp.io''"

text \<open>The configuration of a SPIRE agent, and its unit, which starts after \<open>requires\<close> too.\<close>

definition agent_conf :: "string \<Rightarrow> string" where
  "agent_conf server = text_lines
     [''agent {'',
      ''  data_dir       = '' @ dq ''/var/lib/spire/agent'',
      ''  log_level      = '' @ dq ''INFO'',
      ''  server_address = '' @ dq server,
      ''  server_port    = '' @ dq ''8081'',
      ''  trust_domain   = '' @ dq TrustDomain,
      ''  socket_path    = '' @ dq ''/tmp/spire-agent/public/api.sock'',
      ''}'',
      ''plugins {'',
      ''  NodeAttestor     '' @ dq ''join_token'' @ '' {}'',
      ''  KeyManager       '' @ dq ''memory'' @ '' {}'',
      ''  WorkloadAttestor '' @ dq ''unix'' @ '' {}'',
      ''}'']"

definition agent_unit :: "string \<Rightarrow> string" where
  "agent_unit requires = text_lines
     [''[Unit]'', ''Description=SPIRE Agent'', ''After=network.target'' @ requires, '''',
      ''[Service]'', ''ExecStartPre=/bin/mkdir -p /tmp/spire-agent/public'',
      ''ExecStart=/bin/bash -c '' @ [CHR 0x27] @ ''/usr/local/bin/spire-agent run '' @ [CHR 0x5C],
      ''  -config /etc/spire/agent.conf '' @ [CHR 0x5C],
      ''  -joinToken $(cat /etc/spire/join_token)'' @ [CHR 0x27],
      ''Restart=on-failure'', ''RestartSec=5'', ''StandardOutput=journal'', ''StandardError=journal'', '''',
      ''[Install]'', ''WantedBy=multi-user.target'']"


section \<open>Steps\<close>

type_synonym 'c setup_step = "string \<times> ('c \<Rightarrow> host \<Rightarrow> go_error option \<times> host)"

text \<open>The loop of \<open>Run\<close>.\<close>

fun run_steps :: "'c \<Rightarrow> 'c setup_step list \<Rightarrow> host \<Rightarrow> go_error option \<times> host" where
  "run_steps cfg [] H = (None, H)"
| "run_steps cfg ((name, fn) # steps) H = then_do (wrap_err (name @ '': '') (fn cfg H)) (run_steps cfg steps)"


section \<open>What a step leaves alone\<close>

definition spared :: "machine \<Rightarrow> string \<Rightarrow> bool" where
  "spared M p \<longleftrightarrow> (\<forall>argv fs. program_files M argv fs p = fs p)"

text \<open>Nothing happened to \<open>p\<close>, unless a program did it.\<close>

definition keeps :: "string \<Rightarrow> host \<Rightarrow> host \<Rightarrow> bool" where
  "keeps p H H' \<longleftrightarrow> machine H' = machine H \<and> (spared (machine H) p \<longrightarrow> files H' p = files H p)"

named_theorems keeps_intros

lemma keeps_refl [simp, keeps_intros]: "keeps p H H"
  by (simp add: keeps_def)

lemma keeps_trans: "keeps p H H1 \<Longrightarrow> keeps p H1 H2 \<Longrightarrow> keeps p H H2"
  by (simp add: keeps_def)

text \<open>The rules carry what is known up to a state over the next operation.\<close>

lemma keeps_program [keeps_intros]:
  assumes "keeps p H0 H"
  shows "keeps p H0 (snd (Run argv H))" "keeps p H0 (snd (Output argv i H))" "keeps p H0 (snd (exec_combined pre argv H))"
    "keeps p H0 (run_quietly argv H)" "keeps p H0 (snd (runOutput argv H))" "keeps p H0 (snd (runOutputStdin i argv H))"
  using assms by (auto simp: keeps_def spared_def run_quietly_def runOutput_def runOutputStdin_def)

lemma keeps_write [keeps_intros]: "keeps p H0 H \<Longrightarrow> p \<noteq> q \<Longrightarrow> keeps p H0 (snd (writeFile q c m H))"
  by (auto simp: keeps_def writeFile_def WriteFile_def split: option.splits)

lemma keeps_chmod [keeps_intros]: "keeps p H0 H \<Longrightarrow> p \<noteq> q \<Longrightarrow> keeps p H0 (Chmod q m H)"
  by (auto simp: keeps_def Chmod_def)

lemma keeps_then_do [keeps_intros]:
  assumes "keeps p H0 (snd m)" and "\<And>H1. m = (None, H1) \<Longrightarrow> keeps p H0 H1 \<Longrightarrow> keeps p H0 (snd (k H1))"
  shows "keeps p H0 (snd (then_do m k))"
proof (cases m)
  case (Pair r H1)
  with assms show ?thesis by (cases r) auto
qed

lemma keeps_wrap_err [keeps_intros]: "keeps p H (snd m) \<Longrightarrow> keeps p H (snd (wrap_err pre m))"
  by (cases "(pre, m)" rule: wrap_err.cases) auto

lemma keeps_if [keeps_intros]:
  "(b \<Longrightarrow> keeps p H (snd x)) \<Longrightarrow> (\<not> b \<Longrightarrow> keeps p H (snd y)) \<Longrightarrow> keeps p H (snd (if b then x else y))"
  by simp

lemma keeps_pair [keeps_intros]: "keeps p H H1 \<Longrightarrow> keeps p H (snd (r, H1))"
  by simp

lemma keeps_case_error [keeps_intros]:
  assumes "\<And>e. m = Some e \<Longrightarrow> keeps p H (snd (f e))" and "m = None \<Longrightarrow> keeps p H (snd g)"
  shows "keeps p H (snd (case m of None \<Rightarrow> g | Some e \<Rightarrow> f e))"
  using assms by (cases m) auto

lemma keeps_case_result [keeps_intros]:
  assumes "\<And>e. m = Inl e \<Longrightarrow> keeps p H (snd (f e))" and "\<And>x. m = Inr x \<Longrightarrow> keeps p H (snd (g x))"
  shows "keeps p H (snd (case m of Inl e \<Rightarrow> f e | Inr x \<Rightarrow> g x))"
  using assms by (cases m) auto

lemma keeps_case_output [keeps_intros]:
  assumes "keeps p H (snd m)" and "\<And>e H1. m = (Inl e, H1) \<Longrightarrow> keeps p H H1 \<Longrightarrow> keeps p H (snd (f e H1))"
    and "\<And>x H1. m = (Inr x, H1) \<Longrightarrow> keeps p H H1 \<Longrightarrow> keeps p H (snd (g x H1))"
  shows "keeps p H (snd (case m of (Inl e, H1) \<Rightarrow> f e H1 | (Inr x, H1) \<Rightarrow> g x H1))"
proof (cases m)
  case (Pair r H1)
  with assms show ?thesis by (cases r) auto
qed

text \<open>A file that is written only where there is none.\<close>

lemma keeps_unless_there:
  assumes "files H path = None \<Longrightarrow> keeps p H (snd (m H))"
  shows "keeps p H (snd (if fileExists path H then (None, H) else m H))"
  using assms by (simp add: fileExists_def exists_file_def)

lemma keeps_there: "keeps p H H' \<Longrightarrow> spared (machine H) p \<Longrightarrow> files H' p = files H p \<and> spared (machine H') p"
  by (simp add: keeps_def)

lemma ReadFile_cong: "machine H2 = machine H1 \<Longrightarrow> files H2 p = files H1 p \<Longrightarrow> ReadFile p H2 = ReadFile p H1"
  by (simp add: ReadFile_def cong: option.case_cong)

text \<open>
  The contract of a setup command: while \<open>good\<close> holds of a path, its steps leave the path alone
  and \<open>good\<close> goes on to hold. Then any number of runs, each with any outcome, leaves it alone.
\<close>

locale setup_command =
  fixes cfg :: 'c and steps :: "'c setup_step list" and good :: "host \<Rightarrow> string \<Rightarrow> bool"
  assumes step_keeps: "(name, fn) \<in> set steps \<Longrightarrow> good H p \<Longrightarrow> spared (machine H) p \<Longrightarrow> keeps p H (snd (fn cfg H))"
    and step_good: "(name, fn) \<in> set steps \<Longrightarrow> good H p \<Longrightarrow> spared (machine H) p \<Longrightarrow> good (snd (fn cfg H)) p"
begin

lemma run_keeps_suffix:
  assumes "set ss \<subseteq> set steps" and "good H p" and "spared (machine H) p"
  shows "keeps p H (snd (run_steps cfg ss H)) \<and> good (snd (run_steps cfg ss H)) p"
  using assms
proof (induction ss arbitrary: H)
  case (Cons s ss)
  obtain name fn where s: "s = (name, fn)" by fastforce
  with Cons.prems have f: "keeps p H (snd (fn cfg H))" "good (snd (fn cfg H)) p"
    by (auto intro: step_keeps step_good)
  then have m: "spared (machine (snd (fn cfg H))) p" using keeps_there Cons.prems(3) by blast
  obtain r H1 where r: "fn cfg H = (r, H1)" by fastforce
  show ?case
  proof (cases r)
    case None
    with Cons.IH [OF _ f(2) m] Cons.prems(1) f(1) r s show ?thesis by (auto intro: keeps_trans)
  next
    case (Some e)
    with f r s show ?thesis by simp
  qed
qed simp

lemma run_keeps:
  "good H p \<Longrightarrow> spared (machine H) p \<Longrightarrow>
     keeps p H (snd (run_steps cfg steps H)) \<and> good (snd (run_steps cfg steps H)) p"
  by (rule run_keeps_suffix) simp

lemma runs_keep:
  assumes "good H p" and "spared (machine H) p"
  shows "keeps p H (((\<lambda>H. snd (run_steps cfg steps H)) ^^ n) H) \<and> good (((\<lambda>H. snd (run_steps cfg steps H)) ^^ n) H) p"
proof (induction n)
  case (Suc n)
  then have "spared (machine (((\<lambda>H. snd (run_steps cfg steps H)) ^^ n) H)) p"
    using keeps_there assms(2) by blast
  with Suc run_keeps show ?case by (auto intro: keeps_trans)
qed (simp add: assms)

end

text \<open>The first error stops the command: what is run is a prefix of the steps.\<close>

lemma run_steps_cases:
  assumes "run_steps cfg steps H = (r, H')"
  obtains (all) "r = None" | (stopped) before name fn rest e H1 where "steps = before @ (name, fn) # rest"
      "run_steps cfg before H = (None, H1)" "fn cfg H1 = (Some e, H')" "r = Some (Errorf (name @ '': '') e [])"
proof -
  have "r = None \<or> (\<exists>before name fn rest e H1. steps = before @ (name, fn) # rest \<and>
      run_steps cfg before H = (None, H1) \<and> fn cfg H1 = (Some e, H') \<and> r = Some (Errorf (name @ '': '') e []))"
    using assms
  proof (induction steps arbitrary: H)
    case (Cons s steps)
    obtain name fn where s: "s = (name, fn)" by fastforce
    obtain r1 H1 where f: "fn cfg H = (r1, H1)" by fastforce
    show ?case
    proof (cases r1)
      case None
      with Cons.prems f have "run_steps cfg steps H1 = (r, H')" by (simp add: s)
      from Cons.IH [OF this] show ?thesis
      proof (elim disjE exE conjE)
        fix before name' fn' rest e H2
        assume "steps = before @ (name', fn') # rest" "run_steps cfg before H1 = (None, H2)" "fn' cfg H2 = (Some e, H')"
          "r = Some (Errorf (name' @ '': '') e [])"
        then show ?thesis using f None
          by (intro disjI2 exI [of _ "s # before"] exI [of _ name'] exI [of _ fn'] exI [of _ rest] exI [of _ e] exI [of _ H2])
            (simp add: s)
      qed simp
    next
      case (Some e)
      with Cons.prems f show ?thesis
        by (intro disjI2 exI [of _ "[]"] exI [of _ name] exI [of _ fn] exI [of _ steps] exI [of _ e] exI [of _ H]) (simp add: s)
    qed
  qed simp
  then show thesis using that by blast
qed

lemma run_steps_append:
  "run_steps cfg (xs @ ys) H = then_do (run_steps cfg xs H) (run_steps cfg ys)"
proof (induction xs arbitrary: H)
  case (Cons x xs)
  obtain name fn where x: "x = (name, fn)" by fastforce
  show ?case
    by (cases "fn cfg H"; cases "fst (fn cfg H)") (use Cons in \<open>simp_all add: x\<close>)
qed simp

end
