(* ===== verification/Cp_Setup.thy ===== *)
theory Cp_Setup
  imports Setup_Steps Wgrelay
begin

text \<open>
  \<open>dcp-cp setup\<close> (\<open>internal/setup/setup.go\<close> and \<open>cmd/setup.go\<close> of the control plane): keys,
  secrets, configuration files, units and firewall rules on the machine. Whether the socket of
  the SPIRE server has appeared when it is looked for is an argument of the wait for it, which
  changes nothing and whose outcome nothing looks at.
\<close>

definition SpireServerSock :: string where "SpireServerSock = ''/tmp/spire-server/private/api.sock''"

record cp_config =
  cs_SSHCAPath :: string
  cs_WGPrivPath :: string
  cs_WGPubPath :: string


section \<open>Certificate authority and WireGuard\<close>

definition setupSSHCA :: "cp_config \<Rightarrow> host \<Rightarrow> go_error option \<times> host" where
  "setupSSHCA cfg H =
     (case MkdirAll ''/etc/dcp/ssh-ca'' H of
        Some e \<Rightarrow> (Some e, H)
      | None \<Rightarrow>
          if fileExists (cs_SSHCAPath cfg) H then (None, H)
          else then_do (exec_combined ''ssh-keygen: '' [''ssh-keygen'', ''-t'', ''ecdsa'', ''-b'', ''521'', ''-f'',
              cs_SSHCAPath cfg, ''-N'', '''', ''-C'', ''dcp-platform-ssh-ca''] H)
            (\<lambda>H1. (None, Chmod (cs_SSHCAPath cfg @ ''.pub'') 0x1A4 (Chmod (cs_SSHCAPath cfg) 0x180 H1))))"

text \<open>A file that cannot be opened gives a \<open>nil\<close> handle, and writing to it is an error that is not
  looked at; the file is not created.\<close>

definition appendIfMissing :: "string \<Rightarrow> string \<Rightarrow> host \<Rightarrow> host" where
  "appendIfMissing path l H =
     (let b = (case ReadFile path H of Inl _ \<Rightarrow> [] | Inr b \<Rightarrow> b) in
      if contains l b then H
      else if exists_file path H then snd (AppendFile path ([CHR 0x0A] @ l @ [CHR 0x0A]) 0x1A4 H) else H)"

definition wg_conf_path :: string where "wg_conf_path = ''/etc/wireguard/wg0.conf''"

text \<open>\<open>setupWireGuard\<close> in its four parts: the key pair, \<open>wg0.conf\<close>, forwarding, the interface.\<close>

definition wg_keys :: "cp_config \<Rightarrow> host \<Rightarrow> go_error option \<times> host" where
  "wg_keys cfg H =
     (if fileExists (cs_WGPrivPath cfg) H then (None, H)
      else (case runOutput [''wg'', ''genkey''] H of
          (Inl e, H1) \<Rightarrow> (Some (Errorf ''wg genkey: '' e []), H1)
        | (Inr privKey, H1) \<Rightarrow>
            (case runOutputStdin (trim_space privKey) [''wg'', ''pubkey''] H1 of
               (Inl e, H2) \<Rightarrow> (Some (Errorf ''wg pubkey: '' e []), H2)
             | (Inr pubKey, H2) \<Rightarrow>
                 then_do (writeFile (cs_WGPrivPath cfg) privKey 0x180 H2) (writeFile (cs_WGPubPath cfg) pubKey 0x1A4))))"

definition cp_conf :: "string \<Rightarrow> string" where
  "cp_conf privKey = text_lines [''[Interface]'', ''Address = 10.99.0.1/16'', ''ListenPort = 51820'',
     ''PrivateKey = '' @ trim_space privKey]"

definition wg_conf :: "cp_config \<Rightarrow> host \<Rightarrow> go_error option \<times> host" where
  "wg_conf cfg H =
     (if fileExists wg_conf_path H then (None, H)
      else (case ReadFile (cs_WGPrivPath cfg) H of
          Inl e \<Rightarrow> (Some e, H)
        | Inr privKey \<Rightarrow> writeFile wg_conf_path (cp_conf privKey) 0x180 H))"

definition wg_forward :: "host \<Rightarrow> host" where
  "wg_forward H = appendIfMissing ''/etc/sysctl.conf'' ''net.ipv4.ip_forward=1''
     (run_quietly [''sysctl'', ''-w'', ''net.ipv4.ip_forward=1''] H)"

definition wg_interface :: "host \<Rightarrow> go_error option \<times> host" where
  "wg_interface H =
     (let (err, H1) = Run [''ip'', ''link'', ''show'', ''wg0''] H
      in then_do (if err \<noteq> None then exec_combined ''wg-quick up: '' [''wg-quick'', ''up'', ''wg0''] H1 else (None, H1))
           (\<lambda>H2. (None, run_quietly [''systemctl'', ''enable'', ''wg-quick@wg0''] H2)))"

definition setupWireGuard :: "cp_config \<Rightarrow> host \<Rightarrow> go_error option \<times> host" where
  "setupWireGuard cfg H =
     (case MkdirAll ''/etc/wireguard'' H of
        Some e \<Rightarrow> (Some e, H)
      | None \<Rightarrow> then_do (wg_keys cfg H) (\<lambda>H1. then_do (wg_conf cfg H1) (\<lambda>H2. wg_interface (wg_forward H2))))"


section \<open>SPIRE\<close>

definition server_conf :: string where
  "server_conf = text_lines
     [''server {'',
      ''  bind_address = '' @ dq ''0.0.0.0'',
      ''  bind_port    = '' @ dq ''8081'',
      ''  trust_domain = '' @ dq TrustDomain,
      ''  data_dir     = '' @ dq ''/var/lib/spire/server'',
      ''  log_level    = '' @ dq ''INFO'',
      ''  ca_ttl                = '' @ dq ''24h'',
      ''  default_x509_svid_ttl = '' @ dq ''1h'',
      ''}'',
      ''plugins {'',
      ''  DataStore '' @ dq ''sql'' @ '' {'',
      ''    plugin_data {'',
      ''      database_type     = '' @ dq ''sqlite3'',
      ''      connection_string = '' @ dq ''/var/lib/spire/server/datastore.sqlite3'',
      ''    }'',
      ''  }'',
      ''  KeyManager '' @ dq ''disk'' @ '' {'',
      ''    plugin_data { keys_path = '' @ dq ''/var/lib/spire/server/keys.json'' @ '' }'',
      ''  }'',
      ''  NodeAttestor '' @ dq ''join_token'' @ '' {}'',
      ''}'']"

definition server_unit :: string where
  "server_unit = text_lines
     [''[Unit]'', ''Description=SPIRE Server'', ''After=network.target'', '''',
      ''[Service]'', ''ExecStart=/usr/local/bin/spire-server run -config /etc/spire/server.conf'',
      ''Restart=always'', ''RestartSec=5'', ''StandardOutput=journal'', ''StandardError=journal'', '''',
      ''[Install]'', ''WantedBy=multi-user.target'']"

text \<open>Up to 15 looks at the socket, with 2 seconds of sleep after each that fails: how often it
  sleeps.\<close>

fun wait_server :: "nat \<Rightarrow> (nat \<Rightarrow> bool) \<Rightarrow> nat" where
  "wait_server 0 there = 0"
| "wait_server (Suc k) there = (if there (14 - k) then 0 else Suc (wait_server k there))"

definition join_token_args :: "string \<Rightarrow> string list" where
  "join_token_args node = [''spire-server'', ''token'', ''generate'', ''-socketPath'', SpireServerSock,
     ''-spiffeID'', ''spiffe://'' @ TrustDomain @ ''/node/'' @ node]"

text \<open>The output is \<open>Token: <value>\<close>. The error message quotes it (\<open>%q\<close>), which is a parameter.\<close>

definition last_word :: "(string \<Rightarrow> string) \<Rightarrow> string \<Rightarrow> string \<Rightarrow> string result" where
  "last_word quote pre out =
     (let parts = words_of out in
      if length parts < 2 then Inl (Plain (pre @ quote out)) else Inr (last parts))"

definition setupSpireServer :: "(string \<Rightarrow> string) \<Rightarrow> cp_config \<Rightarrow> host \<Rightarrow> go_error option \<times> host" where
  "setupSpireServer quote cfg H =
     (case MkdirAll ''/etc/spire'' H of Some e \<Rightarrow> (Some e, H) | None \<Rightarrow>
     (case MkdirAll ''/var/lib/spire/server'' H of Some e \<Rightarrow> (Some e, H) | None \<Rightarrow>
      then_do (if fileExists ''/etc/spire/server.conf'' H then (None, H)
          else writeFile ''/etc/spire/server.conf'' server_conf 0x1A4 H) (\<lambda>H1.
      then_do (writeFile ''/etc/systemd/system/spire-server.service'' server_unit 0x1A4 H1) (\<lambda>H2.
      let H3 = run_quietly [''systemctl'', ''daemon-reload''] H2;
          H4 = run_quietly [''systemctl'', ''enable'', ''--now'', ''spire-server''] H3
      in (case runOutput (join_token_args ''cp'') H4 of
            (Inl e, H5) \<Rightarrow> (Some (Errorf ''generate join token: '' e []), H5)
          | (Inr token, H5) \<Rightarrow>
              (case last_word quote ''unexpected token output: '' token of
                 Inl e \<Rightarrow> (Some e, H5)
               | Inr tokenVal \<Rightarrow>
                   (case MkdirAll ''/etc/dcp'' H5 of
                      Some e \<Rightarrow> (Some e, H5)
                    | None \<Rightarrow> writeFile ''/etc/spire/join_token'' (tokenVal @ [CHR 0x0A]) 0x180 H5)))))))"

definition setupSpireAgent :: "cp_config \<Rightarrow> host \<Rightarrow> go_error option \<times> host" where
  "setupSpireAgent cfg H =
     then_do (if fileExists ''/etc/spire/agent.conf'' H then (None, H)
         else writeFile ''/etc/spire/agent.conf'' (agent_conf ''127.0.0.1'') 0x1A4 H) (\<lambda>H1.
     then_do (writeFile ''/etc/systemd/system/spire-agent.service'' (agent_unit '' spire-server.service'') 0x1A4 H1) (\<lambda>H2.
     (None, run_quietly [''systemctl'', ''enable'', ''--now'', ''spire-agent'']
        (run_quietly [''systemctl'', ''daemon-reload''] H2))))"


section \<open>Database, secret, unit, firewall\<close>

definition pg_dsn_of :: "string \<Rightarrow> string" where
  "pg_dsn_of pass = ''postgres://dcp:'' @ pass @ ''@localhost/dcp_registry?sslmode=disable''"

text \<open>From the password on; the file with the DSN is written without looking at the error.\<close>

definition create_database :: "string \<Rightarrow> host \<Rightarrow> host" where
  "create_database pass H =
     (let psql = (\<lambda>sql. run_quietly [''sudo'', ''-u'', ''postgres'', ''psql'', ''-c'', sql]);
          H1 = psql (''CREATE USER dcp WITH PASSWORD '' @ [CHR 0x27] @ pass @ [CHR 0x27] @ '';'') H;
          H2 = psql ''CREATE DATABASE dcp_registry OWNER dcp;'' H1
      in snd (writeFile ''/etc/dcp/pg_dsn'' (pg_dsn_of pass @ [CHR 0x0A]) 0x180 H2))"

definition setupPostgres :: "cp_config \<Rightarrow> host \<Rightarrow> go_error option \<times> host" where
  "setupPostgres cfg H =
     (let passFile = ''/etc/dcp/pg_pass'' in
      if fileExists passFile H then
        (let b = (case ReadFile passFile H of Inl _ \<Rightarrow> [] | Inr b \<Rightarrow> b)
         in (None, create_database (trim_space b) H))
      else (case runOutput [''openssl'', ''rand'', ''-hex'', ''24''] H of
          (Inl e, H1) \<Rightarrow> (Some e, H1)
        | (Inr p, H1) \<Rightarrow>
            then_do (writeFile passFile (trim_space p @ [CHR 0x0A]) 0x180 H1)
              (\<lambda>H2. (None, create_database (trim_space p) H2))))"

definition setupJWTSecret :: "cp_config \<Rightarrow> host \<Rightarrow> go_error option \<times> host" where
  "setupJWTSecret cfg H =
     (let secretFile = ''/etc/dcp/jwt_secret'' in
      if fileExists secretFile H then (None, H)
      else (case runOutput [''openssl'', ''rand'', ''-hex'', ''32''] H of
          (Inl e, H1) \<Rightarrow> (Some e, H1)
        | (Inr secret, H1) \<Rightarrow> writeFile secretFile (trim_space secret @ [CHR 0x0A]) 0x180 H1))"

definition cp_unit :: "cp_config \<Rightarrow> string" where
  "cp_unit cfg = text_lines
     [''[Unit]'', ''Description=DCP Control Plane'',
      ''After=network.target postgresql.service redis-server.service spire-agent.service wg-quick@wg0.service'', '''',
      ''[Service]'', ''ExecStart=/usr/local/bin/dcp-cp serve '' @ [CHR 0x5C],
      ''  --jwt-secret $(cat /etc/dcp/jwt_secret) '' @ [CHR 0x5C],
      ''  --pg $(cat /etc/dcp/pg_dsn) '' @ [CHR 0x5C],
      ''  --redis redis://localhost:6379 '' @ [CHR 0x5C],
      ''  --ssh-ca '' @ cs_SSHCAPath cfg @ '' '' @ [CHR 0x5C],
      ''  --wg-privkey '' @ cs_WGPrivPath cfg @ '' '' @ [CHR 0x5C],
      ''  --wg-pubkey '' @ cs_WGPubPath cfg,
      ''Restart=always'', ''RestartSec=5'', ''StandardOutput=journal'', ''StandardError=journal'', '''',
      ''[Install]'', ''WantedBy=multi-user.target'']"

definition cp_writeSystemdUnit :: "cp_config \<Rightarrow> host \<Rightarrow> go_error option \<times> host" where
  "cp_writeSystemdUnit cfg H =
     then_do (writeFile ''/etc/systemd/system/dcp-cp.service'' (cp_unit cfg) 0x1A4 H)
       (\<lambda>H1. (None, run_quietly [''systemctl'', ''daemon-reload''] H1))"

definition cp_setupFirewall :: "cp_config \<Rightarrow> host \<Rightarrow> go_error option \<times> host" where
  "cp_setupFirewall cfg H =
     (None, run_quietly [''ufw'', ''--force'', ''enable'']
       (fold (\<lambda>rule. run_quietly [''ufw'', ''allow'', rule])
         [''22/tcp'', ''443/tcp'', ''8080/tcp'', ''8081/tcp'', ''51820/udp''] H))"


section \<open>The command\<close>

definition cp_steps :: "(string \<Rightarrow> string) \<Rightarrow> cp_config setup_step list" where
  "cp_steps quote =
     [(''SSH CA'', setupSSHCA), (''WireGuard (CP)'', setupWireGuard), (''SPIRE server'', setupSpireServer quote),
      (''SPIRE agent'', setupSpireAgent), (''PostgreSQL'', setupPostgres), (''JWT secret'', setupJWTSecret),
      (''systemd: dcp-cp'', cp_writeSystemdUnit), (''firewall'', cp_setupFirewall)]"

definition cp_setup_config :: cp_config where
  "cp_setup_config = \<lparr>cs_SSHCAPath = ''/etc/dcp/ssh-ca/platform_ca'', cs_WGPrivPath = ''/etc/wireguard/cp_private'',
     cs_WGPubPath = ''/etc/wireguard/cp_public''\<rparr>"

definition cp_setup_Run :: "(string \<Rightarrow> string) \<Rightarrow> cp_config \<Rightarrow> host \<Rightarrow> go_error option \<times> host" where
  "cp_setup_Run quote cfg = run_steps cfg (cp_steps quote)"

definition GenerateProviderJoinToken :: "(string \<Rightarrow> string) \<Rightarrow> host \<Rightarrow> string result \<times> host" where
  "GenerateProviderJoinToken quote H =
     (case runOutput (join_token_args ''provider'') H of
        (Inl e, H1) \<Rightarrow> (Inl (Errorf ''spire token: '' e []), H1)
      | (Inr out, H1) \<Rightarrow> (last_word quote ''unexpected output: '' out, H1))"


section \<open>Facts\<close>

lemma keeps_append [keeps_intros]: "keeps p H0 H \<Longrightarrow> p \<noteq> path \<Longrightarrow> keeps p H0 (appendIfMissing path l H)"
  by (auto simp: appendIfMissing_def keeps_def AppendFile_def Let_def split: option.splits)

lemmas cp_config_sel = cp_setup_config_def fileExists_def exists_file_def

lemma setupSSHCA_keeps:
  assumes "p \<noteq> ''/etc/dcp/ssh-ca/platform_ca.pub''" and "p = ''/etc/dcp/ssh-ca/platform_ca'' \<Longrightarrow> files H p \<noteq> None"
  shows "keeps p H (snd (setupSSHCA cp_setup_config H))"
proof (cases "p = ''/etc/dcp/ssh-ca/platform_ca''")
  case True
  with assms(2) show ?thesis by (auto simp: setupSSHCA_def cp_config_sel split: option.splits)
next
  case False
  with assms(1) show ?thesis
    unfolding setupSSHCA_def by (intro keeps_intros) (auto simp: cp_setup_config_def)
qed

lemma wg_keys_keeps:
  assumes "files H ''/etc/wireguard/cp_private'' = None \<Longrightarrow> p \<notin> {''/etc/wireguard/cp_private'', ''/etc/wireguard/cp_public''}"
  shows "keeps p H (snd (wg_keys cp_setup_config H))"
  unfolding wg_keys_def
proof (rule keeps_unless_there)
  assume "files H (cs_WGPrivPath cp_setup_config) = None"
  then have "p \<notin> {''/etc/wireguard/cp_private'', ''/etc/wireguard/cp_public''}"
    using assms by (simp add: cp_setup_config_def)
  then show "keeps p H (snd (case runOutput [''wg'', ''genkey''] H of
      (Inl e, H1) \<Rightarrow> (Some (Errorf ''wg genkey: '' e []), H1)
    | (Inr privKey, H1) \<Rightarrow>
        (case runOutputStdin (trim_space privKey) [''wg'', ''pubkey''] H1 of
           (Inl e, H2) \<Rightarrow> (Some (Errorf ''wg pubkey: '' e []), H2)
         | (Inr pubKey, H2) \<Rightarrow> then_do (writeFile (cs_WGPrivPath cp_setup_config) privKey 0x180 H2)
             (writeFile (cs_WGPubPath cp_setup_config) pubKey 0x1A4))))"
    by (intro keeps_intros) (auto simp: cp_setup_config_def)
qed

lemma wg_conf_keeps: "(p = ''/etc/wireguard/wg0.conf'' \<Longrightarrow> files H p \<noteq> None) \<Longrightarrow> keeps p H (snd (wg_conf cfg H))"
  unfolding wg_conf_def wg_conf_path_def
  by (rule keeps_unless_there) (intro keeps_intros, auto)

lemma wg_rest_keeps: "p \<noteq> ''/etc/sysctl.conf'' \<Longrightarrow> keeps p H (snd (wg_interface (wg_forward H)))"
  unfolding wg_interface_def wg_forward_def Let_def split_def
  by (intro keeps_intros) auto

lemma setupWireGuard_keeps:
  assumes "p \<noteq> ''/etc/sysctl.conf''" and "spared (machine H) p"
    and "files H ''/etc/wireguard/cp_private'' = None \<Longrightarrow> p \<notin> {''/etc/wireguard/cp_private'', ''/etc/wireguard/cp_public''}"
    and "p = ''/etc/wireguard/wg0.conf'' \<Longrightarrow> files H p \<noteq> None"
  shows "keeps p H (snd (setupWireGuard cp_setup_config H))"
proof -
  have rest: "keeps p H (snd (then_do (wg_conf cp_setup_config H1) (\<lambda>H2. wg_interface (wg_forward H2))))"
    if "keeps p H H1" for H1
  proof (rule keeps_trans [OF that], rule keeps_then_do)
    show "keeps p H1 (snd (wg_conf cp_setup_config H1))"
      by (rule wg_conf_keeps) (use keeps_there [OF that assms(2)] assms(4) in auto)
  qed (rule keeps_trans, assumption, rule wg_rest_keeps [OF assms(1)])
  show ?thesis
    unfolding setupWireGuard_def
    by (intro keeps_case_error keeps_pair keeps_refl keeps_then_do [OF wg_keys_keeps] assms(3) rest)
qed

lemma server_conf_keeps:
  "(p = ''/etc/spire/server.conf'' \<Longrightarrow> files H p \<noteq> None) \<Longrightarrow>
   keeps p H (snd (if fileExists ''/etc/spire/server.conf'' H then (None, H)
     else writeFile ''/etc/spire/server.conf'' c 0x1A4 H))"
  by (rule keeps_unless_there) (auto intro!: keeps_intros)

lemma setupSpireServer_keeps:
  assumes "p \<noteq> ''/etc/systemd/system/spire-server.service''" and "p \<noteq> ''/etc/spire/join_token''"
    and "p = ''/etc/spire/server.conf'' \<Longrightarrow> files H p \<noteq> None"
  shows "keeps p H (snd (setupSpireServer quote cfg H))"
  unfolding setupSpireServer_def Let_def
  by (intro keeps_case_error keeps_pair keeps_refl, rule keeps_then_do, rule server_conf_keeps, erule assms(3),
      intro keeps_intros assms(1,2))

lemma agent_conf_keeps:
  "(p = ''/etc/spire/agent.conf'' \<Longrightarrow> files H p \<noteq> None) \<Longrightarrow>
   keeps p H (snd (if fileExists ''/etc/spire/agent.conf'' H then (None, H)
     else writeFile ''/etc/spire/agent.conf'' c 0x1A4 H))"
  by (rule keeps_unless_there) (auto intro!: keeps_intros)

lemma setupSpireAgent_keeps:
  assumes "p \<noteq> ''/etc/systemd/system/spire-agent.service''" and "p = ''/etc/spire/agent.conf'' \<Longrightarrow> files H p \<noteq> None"
  shows "keeps p H (snd (setupSpireAgent cfg H))"
  unfolding setupSpireAgent_def
  by (rule keeps_then_do, rule agent_conf_keeps, rule assms(2), assumption, intro keeps_intros assms(1))

lemma create_database_keeps: "keeps p H0 H \<Longrightarrow> p \<noteq> ''/etc/dcp/pg_dsn'' \<Longrightarrow> keeps p H0 (create_database pass H)"
  unfolding create_database_def Let_def by (intro keeps_intros)

lemma setupPostgres_keeps:
  assumes "p \<noteq> ''/etc/dcp/pg_dsn''" and "p = ''/etc/dcp/pg_pass'' \<Longrightarrow> files H p \<noteq> None"
  shows "keeps p H (snd (setupPostgres cfg H))"
proof (cases "fileExists ''/etc/dcp/pg_pass'' H")
  case True
  with assms show ?thesis by (simp add: setupPostgres_def Let_def create_database_keeps)
next
  case False
  with assms have "p \<noteq> ''/etc/dcp/pg_pass''" by (auto simp: fileExists_def exists_file_def)
  then show ?thesis
    unfolding setupPostgres_def Let_def by (intro keeps_intros create_database_keeps assms(1))
qed

lemma setupJWTSecret_keeps: "(p = ''/etc/dcp/jwt_secret'' \<Longrightarrow> files H p \<noteq> None) \<Longrightarrow> keeps p H (snd (setupJWTSecret cfg H))"
  unfolding setupJWTSecret_def Let_def
  by (rule keeps_unless_there) (intro keeps_intros, auto)

lemma cp_unit_keeps: "p \<noteq> ''/etc/systemd/system/dcp-cp.service'' \<Longrightarrow> keeps p H (snd (cp_writeSystemdUnit cfg H))"
  unfolding cp_writeSystemdUnit_def by (intro keeps_intros)

lemma cp_firewall_keeps: "keeps p H (snd (cp_setupFirewall cfg H))"
  unfolding cp_setupFirewall_def fold_simps by (simp, intro keeps_intros)

text \<open>One lemma for all steps: the paths written in any case, and those written where nothing is.\<close>

definition rewritten :: "string set" where
  "rewritten = {''/etc/dcp/ssh-ca/platform_ca.pub'', ''/etc/sysctl.conf'', ''/etc/systemd/system/spire-server.service'',
     ''/etc/spire/join_token'', ''/etc/systemd/system/spire-agent.service'', ''/etc/dcp/pg_dsn'',
     ''/etc/systemd/system/dcp-cp.service''}"

definition created :: "string set" where
  "created = {''/etc/dcp/ssh-ca/platform_ca'', ''/etc/wireguard/wg0.conf'', ''/etc/spire/server.conf'',
     ''/etc/spire/agent.conf'', ''/etc/dcp/pg_pass'', ''/etc/dcp/jwt_secret''}"

lemma cp_step_keeps:
  assumes "(name, fn) \<in> set (cp_steps quote)" and "spared (machine H) p" and "p \<notin> rewritten"
    and "p \<in> created \<Longrightarrow> files H p \<noteq> None"
    and "files H ''/etc/wireguard/cp_private'' = None \<Longrightarrow> p \<notin> {''/etc/wireguard/cp_private'', ''/etc/wireguard/cp_public''}"
  shows "keeps p H (snd (fn cp_setup_config H))"
proof -
  from assms(1) have "fn \<in> {setupSSHCA, setupWireGuard, setupSpireServer quote, setupSpireAgent, setupPostgres,
      setupJWTSecret, cp_writeSystemdUnit, cp_setupFirewall}" unfolding cp_steps_def by auto
  then show ?thesis
    by (elim insertE emptyE; hypsubst; intro setupSSHCA_keeps setupWireGuard_keeps setupSpireServer_keeps
        setupSpireAgent_keeps setupPostgres_keeps setupJWTSecret_keeps cp_unit_keeps cp_firewall_keeps assms(2,5))
      (use assms(3,4) in \<open>auto simp: rewritten_def created_def\<close>)
qed

text \<open>Two readings of the contract: a file that is there and that no step writes over, and a public
  key that is missing beside a private key that is there.\<close>

definition cp_kept :: "host \<Rightarrow> string \<Rightarrow> bool" where
  "cp_kept H p \<longleftrightarrow> files H p \<noteq> None \<and> p \<notin> rewritten \<and>
     (p = ''/etc/wireguard/cp_public'' \<longrightarrow>
        files H ''/etc/wireguard/cp_private'' \<noteq> None \<and> spared (machine H) ''/etc/wireguard/cp_private'')"

definition cp_half :: "host \<Rightarrow> string \<Rightarrow> bool" where
  "cp_half H p \<longleftrightarrow> p = ''/etc/wireguard/cp_public'' \<and> files H ''/etc/wireguard/cp_private'' \<noteq> None \<and>
     spared (machine H) ''/etc/wireguard/cp_private''"

lemma cp_kept_step:
  assumes "(name, fn) \<in> set (cp_steps quote)" and "spared (machine H) p" and "cp_kept H p"
  shows "keeps p H (snd (fn cp_setup_config H))"
  by (rule cp_step_keeps [OF assms(1,2)]) (use assms(3) in \<open>auto simp: cp_kept_def\<close>)

lemma cp_private_kept: "files H ''/etc/wireguard/cp_private'' \<noteq> None \<Longrightarrow> cp_kept H ''/etc/wireguard/cp_private''"
  by (simp add: cp_kept_def rewritten_def)

interpretation cp_files: setup_command cp_setup_config "cp_steps quote" cp_kept for quote
proof unfold_locales
  fix name fn H p
  assume h: "(name, fn) \<in> set (cp_steps quote)" "cp_kept H p" "spared (machine H) p"
  show k: "keeps p H (snd (fn cp_setup_config H))" by (rule cp_kept_step [OF h(1,3,2)])
  let ?q = "''/etc/wireguard/cp_private''"
  have "files (snd (fn cp_setup_config H)) ?q = files H ?q \<and> spared (machine (snd (fn cp_setup_config H))) ?q"
    if "files H ?q \<noteq> None" "spared (machine H) ?q"
    by (rule keeps_there [OF cp_kept_step [OF h(1) that(2) cp_private_kept [OF that(1)]] that(2)])
  then show "cp_kept (snd (fn cp_setup_config H)) p"
    using keeps_there [OF k h(3)] h(2) by (auto simp: cp_kept_def)
qed

lemma cp_half_step:
  assumes "(name, fn) \<in> set (cp_steps quote)" and "spared (machine H) p" and "cp_half H p"
  shows "keeps p H (snd (fn cp_setup_config H))"
proof (rule cp_step_keeps [OF assms(1,2)])
  have "''/etc/wireguard/cp_public'' \<notin> rewritten" "''/etc/wireguard/cp_public'' \<notin> created" by code_simp+
  with assms(3) show "p \<notin> rewritten" "p \<in> created \<Longrightarrow> files H p \<noteq> None"
    "files H ''/etc/wireguard/cp_private'' = None \<Longrightarrow> p \<notin> {''/etc/wireguard/cp_private'', ''/etc/wireguard/cp_public''}"
    by (auto simp: cp_half_def)
qed

interpretation cp_halves: setup_command cp_setup_config "cp_steps quote" cp_half for quote
proof unfold_locales
  fix name fn H p
  assume h: "(name, fn) \<in> set (cp_steps quote)" "cp_half H p" "spared (machine H) p"
  show "keeps p H (snd (fn cp_setup_config H))" by (rule cp_half_step [OF h(1,3,2)])
  have s: "cp_kept H ''/etc/wireguard/cp_private''" "spared (machine H) ''/etc/wireguard/cp_private''"
    using h(2) cp_private_kept by (simp_all add: cp_half_def)
  from keeps_there [OF cp_kept_step [OF h(1) s(2,1)] s(2)] show "cp_half (snd (fn cp_setup_config H)) p"
    using h(2) by (simp add: cp_half_def)
qed


section \<open>Properties\<close>

definition cp_setup_runs :: "(string \<Rightarrow> string) \<Rightarrow> nat \<Rightarrow> host \<Rightarrow> host" where
  "cp_setup_runs quote n = (\<lambda>H. snd (cp_setup_Run quote cp_setup_config H)) ^^ n"

text \<open>
  C18 (secrets survive). However often the setup of the control plane is run, and however far each
  run gets, every file that exists stays byte for byte and with its mode what it is, as far as the programs the setup runs
  leave it alone, except the seven that the setup itself writes again (the public key of the certificate
  authority, of which only the mode is set, the kernel settings, three units, the join token and the DSN), and except
  the public WireGuard key when the private one is missing. So the key of the certificate authority, the private
  WireGuard key, the WireGuard and SPIRE configuration, the password of the database and the JWT secret survive.
\<close>

theorem secrets_survive:
  assumes "files H p = Some f" and "spared (machine H) p"
    and "p \<notin> {''/etc/dcp/ssh-ca/platform_ca.pub'', ''/etc/sysctl.conf'', ''/etc/systemd/system/spire-server.service'',
      ''/etc/systemd/system/spire-agent.service'', ''/etc/systemd/system/dcp-cp.service'',
      ''/etc/spire/join_token'', ''/etc/dcp/pg_dsn''}"
    and "p = ''/etc/wireguard/cp_public'' \<Longrightarrow>
      files H ''/etc/wireguard/cp_private'' \<noteq> None \<and> spared (machine H) ''/etc/wireguard/cp_private''"
  shows "files (cp_setup_runs quote n H) p = Some f"
proof -
  have "cp_kept H p" using assms(1,3,4) by (auto simp: cp_kept_def rewritten_def)
  from cp_files.runs_keep [OF this assms(2), of n quote] have "keeps p H (cp_setup_runs quote n H)"
    by (simp add: cp_setup_runs_def cp_setup_Run_def)
  from keeps_there [OF this assms(2)] assms(1) show ?thesis by simp
qed

definition secret_host :: host where
  "secret_host = plain_host\<lparr>files := [''/etc/dcp/jwt_secret'' \<mapsto> \<lparr>contents = ''s'', mode = 0x180\<rparr>]\<rparr>"

lemma plain_spared: "spared plain_machine p"
  by (simp add: spared_def plain_machine_def)

theorem secrets_survive_witness:
  "files (cp_setup_runs (\<lambda>s. s) 3 secret_host) ''/etc/dcp/jwt_secret'' = Some \<lparr>contents = ''s'', mode = 0x180\<rparr>"
proof (rule secrets_survive)
  show "spared (machine secret_host) ''/etc/dcp/jwt_secret''"
    by (simp add: secret_host_def plain_host_def plain_spared)
qed (simp_all add: secret_host_def)

text \<open>
  C25 (half a key pair). If a run was interrupted after it wrote the private WireGuard key and before
  it wrote the public one, no further run repairs it, even one that reports success: the public
  key stays missing, and the control plane, which needs it, cannot start.
\<close>

theorem half_key_pair_stays:
  assumes "files H ''/etc/wireguard/cp_private'' \<noteq> None" and "files H ''/etc/wireguard/cp_public'' = None"
    and "spared (machine H) ''/etc/wireguard/cp_private''" and "spared (machine H) ''/etc/wireguard/cp_public''"
  shows "files (cp_setup_runs quote n H) ''/etc/wireguard/cp_public'' = None \<and>
    isl (PubKey ''/etc/wireguard/cp_public'' (cp_setup_runs quote n H))"
proof -
  have "cp_half H ''/etc/wireguard/cp_public''" using assms by (simp add: cp_half_def)
  from cp_halves.runs_keep [OF this assms(4), of n quote] have "keeps ''/etc/wireguard/cp_public'' H (cp_setup_runs quote n H)"
    by (simp add: cp_setup_runs_def cp_setup_Run_def)
  from keeps_there [OF this assms(4)] have "files (cp_setup_runs quote n H) ''/etc/wireguard/cp_public'' = None"
    using assms(2) by simp
  then show ?thesis by (simp add: PubKey_def ReadFile_def split: option.splits sum.splits)
qed

text \<open>A machine on which every program prints two words.\<close>

definition half_host :: host where
  "half_host = plain_host\<lparr>machine := plain_machine\<lparr>answer := (\<lambda>h a i. (''Token: t'', None))\<rparr>,
     files := [''/etc/wireguard/cp_private'' \<mapsto> \<lparr>contents = ''k'', mode = 0x180\<rparr>]\<rparr>"

lemma half_host_spared: "spared (machine half_host) p"
  by (simp add: half_host_def spared_def plain_machine_def)

theorem half_key_pair_stays_witness:
  "fst (cp_setup_Run (\<lambda>s. s) cp_setup_config half_host) = None \<and>
   isl (PubKey ''/etc/wireguard/cp_public'' (cp_setup_runs (\<lambda>s. s) 1 half_host))"
proof
  show "fst (cp_setup_Run (\<lambda>s. s) cp_setup_config half_host) = None" by code_simp
  have "files half_host ''/etc/wireguard/cp_private'' \<noteq> None" "files half_host ''/etc/wireguard/cp_public'' = None"
    by (simp_all add: half_host_def)
  from half_key_pair_stays [OF this half_host_spared half_host_spared]
  show "isl (PubKey ''/etc/wireguard/cp_public'' (cp_setup_runs (\<lambda>s. s) 1 half_host))" by blast
qed

lemma appendIfMissing_there:
  assumes "ReadFile path H = Inr text" and "contains l text"
  shows "appendIfMissing path l H = H"
  using assms by (simp add: appendIfMissing_def)

lemma appendIfMissing_adds:
  assumes "ReadFile path H = Inr text" and "\<not> contains l text" and "write_error (machine H) path = None"
  shows "ReadFile path (appendIfMissing path l H) = Inr (text @ [CHR 0x0A] @ l @ [CHR 0x0A])"
  using assms
  by (auto simp: appendIfMissing_def ReadFile_def exists_file_def AppendFile_def split: option.splits)

text \<open>
  C27 (forwarding). The setting that lets packets be forwarded is added to the end of the file of
  kernel settings, on a line of its own, and once only; but text that contains it anywhere, such as
  the line that is commented out in the file as it is delivered, counts as the setting: then
  nothing is added, and forwarding is off after the next start of the machine.
\<close>

theorem forwarding_line:
  assumes "spared (machine H) ''/etc/sysctl.conf''" and "ReadFile ''/etc/sysctl.conf'' H = Inr text"
    and "write_error (machine H) ''/etc/sysctl.conf'' = None"
    and "setupWireGuard cp_setup_config H = (None, H')"
  shows "ReadFile ''/etc/sysctl.conf'' H' = Inr
      (if contains ''net.ipv4.ip_forward=1'' text then text
       else text @ [CHR 0x0A] @ ''net.ipv4.ip_forward=1'' @ [CHR 0x0A]) \<and>
    (\<forall>a b. text = a @ ''#net.ipv4.ip_forward=1'' @ b \<longrightarrow> ReadFile ''/etc/sysctl.conf'' H' = Inr text)"
proof -
  let ?p = "''/etc/sysctl.conf''" and ?l = "''net.ipv4.ip_forward=1''"
  have read: "ReadFile ?p H2 = ReadFile ?p H1 \<and> spared (machine H2) ?p \<and> write_error (machine H2) ?p = write_error (machine H1) ?p"
    if "keeps ?p H1 H2" "spared (machine H1) ?p" for H1 H2
    using that keeps_there [OF that] ReadFile_cong [of H2 H1 ?p] by (simp add: keeps_def)
  from assms(4) obtain H1 H2 where k: "wg_keys cp_setup_config H = (None, H1)" "wg_conf cp_setup_config H1 = (None, H2)"
    and i: "wg_interface (wg_forward H2) = (None, H')"
    by (auto simp: setupWireGuard_def then_do_None split: option.splits)
  let ?H3 = "run_quietly [''sysctl'', ''-w'', ''net.ipv4.ip_forward=1''] H2"
  have "keeps ?p H (snd (wg_keys cp_setup_config H))" by (rule wg_keys_keeps) simp
  moreover have "keeps ?p H1 (snd (wg_conf cp_setup_config H1))" by (rule wg_conf_keeps) simp
  ultimately have "keeps ?p H ?H3" using k by (auto intro: keeps_trans keeps_intros)
  from read [OF this assms(1)] assms(2,3) have h3: "ReadFile ?p ?H3 = Inr text" "spared (machine ?H3) ?p"
    "write_error (machine ?H3) ?p = None" by simp_all
  have m: "machine (appendIfMissing ?p ?l ?H3) = machine ?H3"
    by (auto simp: appendIfMissing_def AppendFile_def Let_def split: option.splits)
  have f: "ReadFile ?p (wg_forward H2) = Inr (if contains ?l text then text else text @ [CHR 0x0A] @ ?l @ [CHR 0x0A])"
    using appendIfMissing_there [OF h3(1), of ?l] appendIfMissing_adds [OF h3(1) _ h3(3), of ?l] h3(1)
    by (simp add: wg_forward_def)
  have "keeps ?p (wg_forward H2) (snd (wg_interface (wg_forward H2)))"
    unfolding wg_interface_def Let_def split_def by (intro keeps_intros)
  from read [OF this] m h3(2) i f have r: "ReadFile ?p H' = Inr (if contains ?l text then text else text @ [CHR 0x0A] @ ?l @ [CHR 0x0A])"
    by (simp add: wg_forward_def)
  have "contains ?l (a @ ''#net.ipv4.ip_forward=1'' @ b)" for a b
    using contains_append [of ?l "a @ ''#''" b] by simp
  with r show ?thesis by auto
qed

definition commented_host :: host where
  "commented_host = plain_host\<lparr>files :=
     [''/etc/wireguard/cp_private'' \<mapsto> \<lparr>contents = ''k'', mode = 0x180\<rparr>,
      ''/etc/wireguard/wg0.conf'' \<mapsto> \<lparr>contents = [], mode = 0x180\<rparr>,
      ''/etc/sysctl.conf'' \<mapsto> \<lparr>contents = ''#net.ipv4.ip_forward=1'', mode = 0x1A4\<rparr>]\<rparr>"

theorem forwarding_line_witness:
  "\<exists>H'. setupWireGuard cp_setup_config commented_host = (None, H') \<and>
     ReadFile ''/etc/sysctl.conf'' H' = Inr ''#net.ipv4.ip_forward=1''"
proof -
  let ?R = "setupWireGuard cp_setup_config commented_host"
  have "fst ?R = None" by code_simp
  then have run: "?R = (None, snd ?R)" by (metis prod.collapse)
  have h: "spared (machine commented_host) ''/etc/sysctl.conf''" "write_error (machine commented_host) ''/etc/sysctl.conf'' = None"
    "ReadFile ''/etc/sysctl.conf'' commented_host = Inr ''#net.ipv4.ip_forward=1''"
    by (simp_all add: commented_host_def plain_host_def ReadFile_def plain_spared) (simp_all add: plain_machine_def)
  have "''#net.ipv4.ip_forward=1'' = [] @ ''#net.ipv4.ip_forward=1'' @ []" by simp
  with forwarding_line [OF h(1,3,2) run, THEN conjunct2] run show ?thesis by blast
qed

text \<open>
  Result (database). When the step for the database ends without an error, the file the server's
  connection string is read from names the password that is stored, be it new or from an earlier
  run, provided that file could be written.
\<close>

theorem dsn_has_password:
  assumes "setupPostgres cfg H = (None, H')" and "write_error (machine H) ''/etc/dcp/pg_dsn'' = None"
    and "read_error (machine H) ''/etc/dcp/pg_pass'' = None"
    and "spared (machine H) ''/etc/dcp/pg_pass''"
  shows "\<exists>p d. files H' ''/etc/dcp/pg_pass'' = Some p \<and> files H' ''/etc/dcp/pg_dsn'' = Some d \<and>
    contents d = ''postgres://dcp:'' @ trim_space (contents p) @ ''@localhost/dcp_registry?sslmode=disable'' @ [CHR 0x0A] \<and>
    (files H ''/etc/dcp/pg_pass'' = None \<longrightarrow> mode p = 0x180) \<and>
    (\<forall>p0. files H ''/etc/dcp/pg_pass'' = Some p0 \<longrightarrow> p = p0)"
proof -
  let ?p = "''/etc/dcp/pg_pass''" and ?d = "''/etc/dcp/pg_dsn''"
  have db: "\<exists>d. files (create_database pass H1) ?d = Some d \<and> contents d = pg_dsn_of pass @ [CHR 0x0A]"
    if "machine H1 = machine H" for pass H1
    using that assms(2) by (auto simp: create_database_def Let_def writeFile_def WriteFile_def run_quietly_def)
  have keep: "files (create_database pass H1) ?p = files H1 ?p" if "machine H1 = machine H" for pass H1
    using keeps_there [OF create_database_keeps [OF keeps_refl]] that assms(4) by simp
  show ?thesis
  proof (cases "files H ?p")
    case (Some p0)
    then have "H' = create_database (trim_space (contents p0)) H"
      using assms(1,3) by (simp add: setupPostgres_def Let_def fileExists_def exists_file_def ReadFile_def)
    with db [of H] keep [of H] Some show ?thesis by (auto simp: pg_dsn_of_def)
  next
    case None
    then obtain w H1 H2 where h: "runOutput [''openssl'', ''rand'', ''-hex'', ''24''] H = (Inr w, H1)"
      "writeFile ?p (trim_space w @ [CHR 0x0A]) 0x180 H1 = (None, H2)" "H' = create_database (trim_space w) H2"
      using assms(1) by (auto simp: setupPostgres_def Let_def fileExists_def exists_file_def then_do_None split: prod.splits sum.splits)
    have "keeps ?p H (snd (runOutput [''openssl'', ''rand'', ''-hex'', ''24''] H))" by (intro keeps_intros)
    then have k1: "keeps ?p H H1" by (simp add: h(1))
    then have m: "machine H1 = machine H" "files H1 ?p = None" using keeps_there [OF k1 assms(4)] None by (auto simp: keeps_def)
    then have m2: "machine H2 = machine H"
      using WriteFile_sel(2) [where ?H = H1 and p = ?p] h(2) unfolding writeFile_def by (metis snd_conv)
    obtain p where p: "files H2 ?p = Some p" "contents p = trim_space w @ [CHR 0x0A]" "mode p = 0x180"
      using WriteFile_None [OF h(2) [unfolded writeFile_def]] m(2) by auto
    from db [OF m2] keep [OF m2] p None h(3) show ?thesis by (auto simp: pg_dsn_of_def)
  qed
qed

theorem dsn_has_password_witness:
  "\<exists>H' d. setupPostgres cp_setup_config half_host = (None, H') \<and> files H' ''/etc/dcp/pg_dsn'' = Some d"
proof -
  let ?R = "setupPostgres cp_setup_config half_host"
  have "fst ?R = None" by code_simp
  then have run: "?R = (None, snd ?R)" by (metis prod.collapse)
  have h: "write_error (machine half_host) ''/etc/dcp/pg_dsn'' = None" "read_error (machine half_host) ''/etc/dcp/pg_pass'' = None"
    by (simp_all add: half_host_def plain_machine_def)
  from dsn_has_password [OF run h half_host_spared] run show ?thesis by blast
qed

end
