(* ===== verification/Prov_Setup.thy ===== *)
theory Prov_Setup
  imports Setup_Steps Prov_Wireguard
begin

text \<open>
  \<open>dcp-provider setup\<close> (\<open>internal/setup/setup.go\<close> of the provider): the WireGuard keys, the SPIRE
  agent, the file with the environment of the agent, its unit, the firewall.
\<close>

record prov_config =
  ps_CPIP :: string
  ps_SpireToken :: string
  ps_CPURL :: string
  ps_Token :: string
  ps_Location :: string

definition setupWGKeypair :: "prov_config \<Rightarrow> host \<Rightarrow> go_error option \<times> host" where
  "setupWGKeypair cfg H =
     (case MkdirAll ''/etc/wireguard'' H of
        Some e \<Rightarrow> (Some e, H)
      | None \<Rightarrow>
        (let privPath = ''/etc/wireguard/prov_private''; pubPath = ''/etc/wireguard/prov_public'' in
         if fileExists privPath H then (None, H)
         else (case runOutput [''wg'', ''genkey''] H of
             (Inl e, H1) \<Rightarrow> (Some (Errorf ''wg genkey: '' e []), H1)
           | (Inr priv, H1) \<Rightarrow>
               (case runOutputStdin (trim_space priv) [''wg'', ''pubkey''] H1 of
                  (Inl e, H2) \<Rightarrow> (Some (Errorf ''wg pubkey: '' e []), H2)
                | (Inr pub, H2) \<Rightarrow> then_do (writeFile privPath priv 0x180 H2) (writeFile pubPath pub 0x1A4)))))"

definition prov_setupSpireAgent :: "prov_config \<Rightarrow> host \<Rightarrow> go_error option \<times> host" where
  "prov_setupSpireAgent cfg H =
     (let cpIP = (if ps_CPIP cfg = [] then ''127.0.0.1'' else ps_CPIP cfg) in
      then_do (writeFile ''/etc/spire/agent.conf'' (agent_conf cpIP) 0x1A4 H) (\<lambda>H1.
      then_do (if ps_SpireToken cfg \<noteq> []
          then writeFile ''/etc/spire/join_token'' (ps_SpireToken cfg @ [CHR 0x0A]) 0x180 H1 else (None, H1)) (\<lambda>H2.
      then_do (writeFile ''/etc/systemd/system/spire-agent.service'' (agent_unit []) 0x1A4 H2) (\<lambda>H3.
      let H4 = run_quietly [''systemctl'', ''daemon-reload''] H3;
          H5 = run_quietly [''systemctl'', ''enable'', ''spire-agent''] H4
      in (None, if ps_SpireToken cfg \<noteq> [] then run_quietly [''systemctl'', ''start'', ''spire-agent''] H5 else H5)))))"

definition env_text :: "prov_config \<Rightarrow> string" where
  "env_text cfg = text_lines [''DCP_CP_URL='' @ ps_CPURL cfg, ''DCP_TOKEN='' @ ps_Token cfg, ''DCP_LOCATION='' @ ps_Location cfg]"

definition writeEnvFile :: "prov_config \<Rightarrow> host \<Rightarrow> go_error option \<times> host" where
  "writeEnvFile cfg H = writeFile ''/etc/dcp/provider.env'' (env_text cfg) 0x180 H"

definition prov_unit :: string where
  "prov_unit = text_lines
     [''[Unit]'', ''Description=DCP Provider Agent'', ''After=network.target spire-agent.service'', '''',
      ''[Service]'', ''EnvironmentFile=/etc/dcp/provider.env'',
      ''ExecStart=/usr/local/bin/dcp-provider '' @ [CHR 0x5C],
      ''  --cp-url ${DCP_CP_URL} '' @ [CHR 0x5C],
      ''  --token ${DCP_TOKEN} '' @ [CHR 0x5C],
      ''  --location ${DCP_LOCATION}'',
      ''Restart=always'', ''RestartSec=10'', ''StandardOutput=journal'', ''StandardError=journal'', '''',
      ''[Install]'', ''WantedBy=multi-user.target'']"

definition prov_writeSystemdUnit :: "prov_config \<Rightarrow> host \<Rightarrow> go_error option \<times> host" where
  "prov_writeSystemdUnit cfg H =
     then_do (writeFile ''/etc/systemd/system/dcp-provider.service'' prov_unit 0x1A4 H)
       (\<lambda>H1. (None, run_quietly [''systemctl'', ''enable'', ''dcp-provider'']
          (run_quietly [''systemctl'', ''daemon-reload''] H1)))"

definition prov_setupFirewall :: "prov_config \<Rightarrow> host \<Rightarrow> go_error option \<times> host" where
  "prov_setupFirewall cfg H =
     (None, run_quietly [''ufw'', ''--force'', ''enable''] (run_quietly [''ufw'', ''allow'', ''51821/udp'']
        (run_quietly [''ufw'', ''allow'', ''22/tcp''] H)))"

definition prov_steps :: "prov_config setup_step list" where
  "prov_steps =
     [(''WireGuard keypair'', setupWGKeypair), (''SPIRE agent'', prov_setupSpireAgent), (''env file'', writeEnvFile),
      (''systemd: dcp-provider'', prov_writeSystemdUnit), (''firewall'', prov_setupFirewall)]"

definition prov_setup_Run :: "prov_config \<Rightarrow> host \<Rightarrow> go_error option \<times> host" where
  "prov_setup_Run cfg = run_steps cfg prov_steps"


section \<open>Facts\<close>

abbreviation priv_path :: string where "priv_path \<equiv> ''/etc/wireguard/prov_private''"
abbreviation pub_path :: string where "pub_path \<equiv> ''/etc/wireguard/prov_public''"

lemma setupWGKeypair_keeps:
  assumes "files H priv_path = None \<Longrightarrow> p \<notin> {priv_path, pub_path}"
  shows "keeps p H (snd (setupWGKeypair cfg H))"
proof (cases "files H priv_path")
  case None
  with assms show ?thesis unfolding setupWGKeypair_def Let_def by (intro keeps_intros) auto
next
  case (Some f)
  then show ?thesis
    by (simp add: setupWGKeypair_def fileExists_def exists_file_def split: option.splits)
qed

lemma prov_agent_keeps:
  assumes "p \<notin> {''/etc/spire/agent.conf'', ''/etc/spire/join_token'', ''/etc/systemd/system/spire-agent.service''}"
  shows "keeps p H (snd (prov_setupSpireAgent cfg H))"
proof -
  have q: "keeps p H0 (if b then run_quietly argv H else H)" if "keeps p H0 H" for b argv H0 H
    using that by (auto intro: keeps_intros)
  show ?thesis
    using assms unfolding prov_setupSpireAgent_def Let_def by (intro keeps_intros q) auto
qed

lemma prov_step_keeps:
  assumes "(name, fn) \<in> set prov_steps" and "p \<in> {priv_path, pub_path}" and "files H priv_path \<noteq> None"
  shows "keeps p H (snd (fn cfg H))"
proof -
  from assms(1) have "fn \<in> {setupWGKeypair, prov_setupSpireAgent, writeEnvFile, prov_writeSystemdUnit, prov_setupFirewall}"
    unfolding prov_steps_def by auto
  moreover have "keeps p H (snd (setupWGKeypair cfg H))" by (rule setupWGKeypair_keeps) (use assms(3) in simp)
  moreover have "keeps p H (snd (prov_setupSpireAgent cfg H))" by (rule prov_agent_keeps) (use assms(2) in auto)
  moreover have "keeps p H (snd (writeEnvFile cfg H))" "keeps p H (snd (prov_writeSystemdUnit cfg H))"
    "keeps p H (snd (prov_setupFirewall cfg H))"
    unfolding writeEnvFile_def prov_writeSystemdUnit_def prov_setupFirewall_def
    by (intro keeps_intros; use assms(2) in auto)+
  ultimately show ?thesis by blast
qed

text \<open>Once there is a private key, both files of the pair are left alone.\<close>

definition has_key :: "host \<Rightarrow> string \<Rightarrow> bool" where
  "has_key H p \<longleftrightarrow> p \<in> {priv_path, pub_path} \<and> files H priv_path \<noteq> None \<and> spared (machine H) priv_path"

interpretation prov_keys: setup_command cfg prov_steps has_key for cfg
proof unfold_locales
  fix name fn H p
  assume h: "(name, fn) \<in> set prov_steps" "has_key H p" "spared (machine H) p"
  then show "keeps p H (snd (fn cfg H))" by (intro prov_step_keeps) (simp_all add: has_key_def)
  from h have "keeps priv_path H (snd (fn cfg H))" by (intro prov_step_keeps [OF h(1)]) (simp_all add: has_key_def)
  from keeps_there [OF this] h(2) show "has_key (snd (fn cfg H)) p" by (simp add: has_key_def)
qed


section \<open>Properties\<close>

text \<open>What the first step leaves on a machine without keys.\<close>

lemma new_pair:
  assumes "setupWGKeypair cfg H = (None, H')" and "files H priv_path = None"
    and "spared (machine H) priv_path" and "spared (machine H) pub_path"
  shows "\<exists>priv pub. files H' priv_path = Some priv \<and> mode priv = 0x180 \<and> files H' pub_path = Some pub \<and> machine H' = machine H"
proof -
  from assms(1,2) obtain priv pub H1 H2 H3 where r: "runOutput [''wg'', ''genkey''] H = (Inr priv, H1)"
      "runOutputStdin (trim_space priv) [''wg'', ''pubkey''] H1 = (Inr pub, H2)"
      "writeFile priv_path priv 0x180 H2 = (None, H3)" "writeFile pub_path pub 0x1A4 H3 = (None, H')"
    by (auto simp: setupWGKeypair_def Let_def fileExists_def exists_file_def then_do_None
        split: option.splits prod.splits sum.splits)
  have "keeps priv_path H H1" "keeps priv_path H1 H2"
    using keeps_program(5) [OF keeps_refl] keeps_program(6) [OF keeps_refl] r(1,2) by (metis snd_conv)+
  then have k: "keeps priv_path H H2" by (rule keeps_trans)
  then have h2: "machine H2 = machine H" "files H2 priv_path = None"
    using keeps_there [OF k assms(3)] assms(2) by (simp_all add: keeps_def)
  obtain f where f: "files H3 priv_path = Some f" "mode f = 0x180"
    using WriteFile_None [OF r(3) [unfolded writeFile_def]] h2(2) by auto
  have m: "machine H3 = machine H" "machine H' = machine H"
    using WriteFile_sel(2) r(3,4) h2(1) unfolding writeFile_def by (metis snd_conv)+
  have "priv_path \<noteq> pub_path" by simp
  from WriteFile_sel(3) [OF this] r(4) have "files H' priv_path = files H3 priv_path"
    unfolding writeFile_def by (metis snd_conv)
  moreover obtain g where "files H' pub_path = Some g"
    using WriteFile_None [OF r(4) [unfolded writeFile_def]] by auto
  ultimately show ?thesis using f m(2) by auto
qed

definition prov_setup_runs :: "prov_config \<Rightarrow> nat \<Rightarrow> host \<Rightarrow> host" where
  "prov_setup_runs cfg n = (\<lambda>H. snd (prov_setup_Run cfg H)) ^^ n"

text \<open>
  C22 (the agent's keys). On a machine without keys, a setup that succeeds leaves a key pair, the
  private one readable by its owner only, and the agent takes just this pair: it makes none of its
  own, and registers with the public key that the setup stored, also after further runs of the
  setup, with whatever outcome.
\<close>

theorem setup_key_is_used:
  assumes "prov_setup_Run cfg H = (None, H')" and "files H priv_path = None"
    and "spared (machine H) priv_path" and "spared (machine H) pub_path" and "\<not> isTermux H"
    and "read_error (machine H) = (\<lambda>p. None)" and "mkdir_error (machine H) = (\<lambda>p. None)"
  shows "\<exists>priv pub. files H' priv_path = Some priv \<and> mode priv = 0x180 \<and> files H' pub_path = Some pub \<and>
    (\<forall>n. GenerateKeypair random (prov_setup_runs cfg n H') =
      ((trim_space (contents priv), trim_space (contents pub), None), prov_setup_runs cfg n H'))"
proof -
  obtain H1 where first: "setupWGKeypair cfg H = (None, H1)" and rest: "run_steps cfg (tl prov_steps) H1 = (None, H')"
    using assms(1) by (auto simp: prov_setup_Run_def prov_steps_def then_do_None)
  from new_pair [OF first assms(2-4)] obtain priv pub where h1: "files H1 priv_path = Some priv" "mode priv = 0x180"
    "files H1 pub_path = Some pub" "machine H1 = machine H" by blast
  have good: "has_key H1 priv_path" "has_key H1 pub_path" using h1 assms(3) by (simp_all add: has_key_def)
  have sub: "set (tl prov_steps) \<subseteq> set prov_steps" by (simp add: prov_steps_def)
  have sp: "spared (machine H1) priv_path" "spared (machine H1) pub_path" using h1(4) assms(3,4) by simp_all
  note k = prov_keys.run_keeps_suffix [OF sub good(1) sp(1), of cfg] prov_keys.run_keeps_suffix [OF sub good(2) sp(2), of cfg]
  then have h': "files H' priv_path = Some priv" "files H' pub_path = Some pub" "machine H' = machine H"
    "has_key H' priv_path" "has_key H' pub_path"
    using keeps_there [OF conjunct1 [OF k(1)] sp(1)] keeps_there [OF conjunct1 [OF k(2)] sp(2)] h1 rest
    by (simp_all add: keeps_def)
  have "GenerateKeypair random (prov_setup_runs cfg n H') =
      ((trim_space (contents priv), trim_space (contents pub), None), prov_setup_runs cfg n H')" for n
  proof -
    let ?H = "prov_setup_runs cfg n H'"
    have s': "spared (machine H') priv_path" "spared (machine H') pub_path" using h'(3) assms(3,4) by simp_all
    have kp: "keeps priv_path H' ?H" "keeps pub_path H' ?H"
      using prov_keys.runs_keep [OF h'(4) s'(1), of n cfg] prov_keys.runs_keep [OF h'(5) s'(2), of n cfg]
      by (simp_all add: prov_setup_runs_def prov_setup_Run_def)
    then have f: "files ?H priv_path = Some priv" "files ?H pub_path = Some pub" "machine ?H = machine H"
      using keeps_there [OF kp(1) s'(1)] keeps_there [OF kp(2) s'(2)] h' by (simp_all add: keeps_def)
    have "paths ?H = (''/etc/wireguard/wg0.conf'', priv_path, pub_path)"
      using assms(5) f(3) by (simp add: paths_def isTermux_def)
    then show ?thesis using f assms(6,7) by (simp add: GenerateKeypair_def ReadFile_def MkdirAll_def)
  qed
  with h' h1(2) show ?thesis by blast
qed

definition sample_setup :: prov_config where
  "sample_setup = \<lparr>ps_CPIP = [], ps_SpireToken = [], ps_CPURL = ''http://cp'', ps_Token = ''t'', ps_Location = []\<rparr>"

theorem setup_key_is_used_witness:
  "\<exists>H' (priv :: file_entry) pub. prov_setup_Run sample_setup key_host = (None, H') \<and> files H' pub_path = Some pub \<and>
     fst (GenerateKeypair (Inl ErrNoRows) H') = (trim_space (contents priv), trim_space (contents pub), None)"
proof -
  let ?R = "prov_setup_Run sample_setup key_host"
  have "fst ?R = None" by code_simp
  then have run: "?R = (None, snd ?R)" by (metis prod.collapse)
  have h: "files key_host priv_path = None" "spared (machine key_host) priv_path" "spared (machine key_host) pub_path"
    "\<not> isTermux key_host" "read_error (machine key_host) = (\<lambda>p. None)" "mkdir_error (machine key_host) = (\<lambda>p. None)"
    by (simp_all add: key_host_def plain_host_def plain_machine_def spared_def isTermux_def)
  from setup_key_is_used [OF run h, of "Inl ErrNoRows"] obtain priv pub :: file_entry where
    "files (snd ?R) pub_path = Some pub" "\<forall>n. GenerateKeypair (Inl ErrNoRows) (prov_setup_runs sample_setup n (snd ?R)) =
      ((trim_space (contents priv), trim_space (contents pub), None), prov_setup_runs sample_setup n (snd ?R))" by (elim exE conjE) (rule that, assumption+)
  moreover have "prov_setup_runs sample_setup 0 (snd ?R) = snd ?R" by (simp add: prov_setup_runs_def)
  ultimately show ?thesis using run by (metis fst_conv)
qed

end
