(* ===== verification/Summary.thy ===== *)
theory Summary
  imports Cp_Setup Prov_Setup
begin

text \<open>
  What the setup commands print when all their steps have succeeded (\<open>printSummary\<close> of both
  \<open>internal/setup/setup.go\<close>), as the bytes on standard output.
\<close>

definition file_text :: "string \<Rightarrow> host \<Rightarrow> string" where
  "file_text p H = (case ReadFile p H of Inl _ \<Rightarrow> [] | Inr b \<Rightarrow> b)"

text \<open>A rule of 52 box-drawing characters, three bytes each.\<close>

definition rule_line :: string where
  "rule_line = concat (replicate 52 [CHR 0xE2, CHR 0x94, CHR 0x80])"

definition cp_printSummary :: "cp_config \<Rightarrow> host \<Rightarrow> string" where
  "cp_printSummary cfg H =
     (let dsn = file_text ''/etc/dcp/pg_dsn'' H; pub = file_text (cs_WGPubPath cfg) H
      in text_lines ['''', rule_line, '' DCP Control Plane setup complete'', rule_line,
           '' SSH CA:       '' @ cs_SSHCAPath cfg] @
         '' WG pubkey:    '' @ pub @
         text_lines ['' PG DSN:       '' @ trim_space dsn,
           '' JWT secret:   /etc/dcp/jwt_secret'',
           '' SPIRE token:  /etc/spire/join_token'',
           '''',
           '' Next steps:'',
           ''   1. Copy binary:    cp dcp-cp /usr/local/bin/dcp-cp'',
           ''   2. Start service:  systemctl enable --now dcp-cp'',
           ''   3. Serve with endpoint:'',
           ''        dcp-cp serve --wg-endpoint <PUBLIC_IP>:51820 --jwt-secret $(cat /etc/dcp/jwt_secret)'',
           ''   4. Get provider token: dcp-cp token generate --spire'',
           rule_line])"

definition prov_printSummary :: "prov_config \<Rightarrow> host \<Rightarrow> string" where
  "prov_printSummary cfg H =
     text_lines ['''', rule_line, '' DCP Provider setup complete'', rule_line] @
     '' WG pubkey:   '' @ file_text ''/etc/wireguard/prov_public'' H @
     text_lines ['' CP URL:      '' @ ps_CPURL cfg,
       '' Location:    '' @ ps_Location cfg,
       '' Env file:    /etc/dcp/provider.env'',
       '''',
       '' Next steps:'',
       ''   1. Copy binary:   cp dcp-provider /usr/local/bin/dcp-provider'',
       ''   2. Start service: systemctl start dcp-provider'',
       ''   3. Watch logs:    journalctl -u dcp-provider -f'',
       rule_line]"

text \<open>The commands: the steps, then the summary.\<close>

definition cp_setup :: "(string \<Rightarrow> string) \<Rightarrow> cp_config \<Rightarrow> host \<Rightarrow> string result \<times> host" where
  "cp_setup quote cfg H =
     (case cp_setup_Run quote cfg H of
        (Some e, H1) \<Rightarrow> (Inl e, H1)
      | (None, H1) \<Rightarrow> (Inr (cp_printSummary cfg H1), H1))"

definition prov_setup :: "prov_config \<Rightarrow> host \<Rightarrow> string result \<times> host" where
  "prov_setup cfg H =
     (case prov_setup_Run cfg H of
        (Some e, H1) \<Rightarrow> (Inl e, H1)
      | (None, H1) \<Rightarrow> (Inr (prov_printSummary cfg H1), H1))"


section \<open>What is shown\<close>

text \<open>The steps before and after the database.\<close>

abbreviation early :: "(string \<Rightarrow> string) \<Rightarrow> cp_config setup_step list" where
  "early quote \<equiv> [(''SSH CA'', setupSSHCA), (''WireGuard (CP)'', setupWireGuard), (''SPIRE server'', setupSpireServer quote),
     (''SPIRE agent'', setupSpireAgent)]"

abbreviation late :: "cp_config setup_step list" where
  "late \<equiv> [(''JWT secret'', setupJWTSecret), (''systemd: dcp-cp'', cp_writeSystemdUnit), (''firewall'', cp_setupFirewall)]"

interpretation before_database: setup_command cp_setup_config "early quote" "\<lambda>(H :: host) p. p = ''/etc/dcp/pg_pass''" for quote
proof unfold_locales
  fix name fn p and H :: host
  assume h: "(name, fn) \<in> set (early quote)" "p = ''/etc/dcp/pg_pass''" "spared (machine H) p"
  then have "fn \<in> {setupSSHCA, setupWireGuard, setupSpireServer quote, setupSpireAgent}" by auto
  then show "keeps p H (snd (fn cp_setup_config H))" using h(2,3)
    by (elim insertE emptyE; hypsubst; intro setupSSHCA_keeps setupWireGuard_keeps setupSpireServer_keeps setupSpireAgent_keeps)
      simp_all
qed

interpretation after_database: setup_command cp_setup_config late "\<lambda>(H :: host) p. p \<in> {''/etc/dcp/pg_pass'', ''/etc/dcp/pg_dsn''}"
proof unfold_locales
  fix name fn H p
  assume h: "(name, fn) \<in> set late" "p \<in> {''/etc/dcp/pg_pass'', ''/etc/dcp/pg_dsn''}"
  then have "fn \<in> {setupJWTSecret, cp_writeSystemdUnit, cp_setupFirewall}" by auto
  then show "keeps p H (snd (fn cp_setup_config H))"
    by (elim insertE emptyE; hypsubst; intro setupJWTSecret_keeps cp_unit_keeps cp_firewall_keeps) (use h(2) in auto)
qed

lemma line_shown: "text_lines ((u @ v) # ls) = u @ v @ [CHR 0x0A] @ text_lines ls"
  by (simp add: text_lines_def)

lemma summary_holds_dsn:
  "\<exists>a b. cp_printSummary cfg H = a @ trim_space (file_text ''/etc/dcp/pg_dsn'' H) @ b"
proof -
  obtain x y z u ls where "cp_printSummary cfg H = x @ y @ z @ text_lines ((u @ trim_space (file_text ''/etc/dcp/pg_dsn'' H)) # ls)"
    unfolding cp_printSummary_def Let_def by blast
  then have "cp_printSummary cfg H = (x @ y @ z @ u) @ trim_space (file_text ''/etc/dcp/pg_dsn'' H) @ [CHR 0x0A] @ text_lines ls"
    by (simp only: line_shown append.assoc)
  then show ?thesis by blast
qed

lemma dsn_line: "trim_space (pg_dsn_of p @ [CHR 0x0A]) = pg_dsn_of p"
  by (rule trim_space_newline) (simp add: pg_dsn_of_def is_space_def)

text \<open>
  C36 (summary of the setup). The setup of a control plane that succeeds prints the password of the
  database, the one stored in a file that only its owner can read, as part of the connection string.
\<close>

theorem summary_shows_password:
  assumes "cp_setup quote cp_setup_config H = (Inr out, H')" and "write_error (machine H) ''/etc/dcp/pg_dsn'' = None"
    and "read_error (machine H) = (\<lambda>p. None)"
    and "spared (machine H) ''/etc/dcp/pg_pass''" and "spared (machine H) ''/etc/dcp/pg_dsn''"
  shows "\<exists>p a b. files H' ''/etc/dcp/pg_pass'' = Some p \<and>
    out = a @ ''postgres://dcp:'' @ trim_space (contents p) @ ''@localhost/dcp_registry?sslmode=disable'' @ b"
proof -
  let ?p = "''/etc/dcp/pg_pass''" and ?d = "''/etc/dcp/pg_dsn''"
  have run: "cp_setup_Run quote cp_setup_config H = (None, H')" "out = cp_printSummary cp_setup_config H'"
    using assms(1) by (auto simp: cp_setup_def split: prod.splits option.splits)
  have steps: "cp_steps quote = early quote @ (''PostgreSQL'', setupPostgres) # late" by (simp add: cp_steps_def)
  obtain H1 where h1: "run_steps cp_setup_config (early quote) H = (None, H1)"
      "run_steps cp_setup_config ((''PostgreSQL'', setupPostgres) # late) H1 = (None, H')"
    using run(1) unfolding cp_setup_Run_def steps run_steps_append then_do_None by blast
  from h1(2) obtain H2 where h2: "setupPostgres cp_setup_config H1 = (None, H2)" "run_steps cp_setup_config late H2 = (None, H')"
    by (cases "setupPostgres cp_setup_config H1"; cases "fst (setupPostgres cp_setup_config H1)")
      (simp_all only: run_steps.simps(2) [of _ "''PostgreSQL''"] prod.sel wrap_err.simps then_do.simps, auto)
  have m1: "machine H1 = machine H"
    using before_database.run_keeps_suffix [OF subset_refl refl assms(4), of quote] h1(1) by (simp add: keeps_def)
  have "keeps [] H1 (snd (setupPostgres cp_setup_config H1))" by (rule setupPostgres_keeps) simp_all
  with h2(1) m1 have m2: "machine H2 = machine H" by (simp add: keeps_def)
  from dsn_has_password [OF h2(1)] m1 assms(2-4) obtain p d where f: "files H2 ?p = Some p" "files H2 ?d = Some d"
    "contents d = pg_dsn_of (trim_space (contents p)) @ [CHR 0x0A]" by (auto simp: pg_dsn_of_def)
  have "spared (machine H2) ?p" "spared (machine H2) ?d" using m2 assms(4,5) by simp_all
  note keep = after_database.run_keeps_suffix [OF subset_refl _ this(1)] after_database.run_keeps_suffix [OF subset_refl _ this(2)]
  have k: "files H' ?p = Some p" "files H' ?d = Some d" "machine H' = machine H"
    using keep h2(2) f m2 assms(4,5) by (simp_all add: keeps_def)
  then have "trim_space (file_text ?d H') = pg_dsn_of (trim_space (contents p))"
    using assms(3) f(3) by (simp add: file_text_def ReadFile_def dsn_line)
  with summary_holds_dsn [of cp_setup_config H'] k(1) show ?thesis
    unfolding run(2) by (simp add: pg_dsn_of_def)
qed

theorem summary_shows_password_witness:
  "\<exists>out H' p a b. cp_setup (\<lambda>s. s) cp_setup_config half_host = (Inr out, H') \<and> files H' ''/etc/dcp/pg_pass'' = Some p \<and>
     out = a @ ''postgres://dcp:'' @ trim_space (contents p) @ ''@localhost/dcp_registry?sslmode=disable'' @ b"
proof -
  let ?R = "cp_setup (\<lambda>s. s) cp_setup_config half_host"
  have "fst (cp_setup_Run (\<lambda>s. s) cp_setup_config half_host) = None" by code_simp
  then obtain K where "cp_setup_Run (\<lambda>s. s) cp_setup_config half_host = (None, K)" by (metis prod.collapse)
  then obtain out where "fst ?R = Inr out" by (simp add: cp_setup_def)
  then have run: "?R = (Inr out, snd ?R)" by (metis prod.collapse)
  have h: "write_error (machine half_host) ''/etc/dcp/pg_dsn'' = None" "read_error (machine half_host) = (\<lambda>p. None)"
    by (simp_all add: half_host_def plain_machine_def)
  from summary_shows_password [OF run h half_host_spared half_host_spared] run show ?thesis by blast
qed

end
