(* ===== verification/Spec2Isabelle.thy ===== *)
theory Spec2Isabelle
  imports Provider_Presence Busy_Platform Summary Commands
begin

text \<open>
  A verification development for DCP, a platform on which providers lend their machines and buyers
  run jobs on them. The repository has two Go programs: the control plane (\<open>dcp-control-plane\<close>),
  a HTTP server over PostgreSQL and Redis, and the provider's agent (\<open>dcp-provider\<close>), which
  registers, sends heartbeats, polls for jobs, starts micro VMs or containers and reports them.

  \<^bold>\<open>How the parts interact.\<close> A provider registers (\<open>Register_call\<close>): the control plane checks its
  token in Redis, takes an address and a port from counters there, inserts a row and adds the
  provider as a peer of its WireGuard interface. A buyer deploys (\<open>handle_deploy\<close>): the scheduler picks
  the best provider from the rows, inserts a job, assigns it and announces it on the provider's
  Redis list. The provider's poll wakes up on that list and takes the next scheduled job from the
  database. The agent starts a machine, relays a port to it and reports it (\<open>handle_report\<close>).
  A sweeper takes providers offline that were silent for 90 seconds.

  \<^bold>\<open>Conventions.\<close> A Go function keeps its name, with a prefix or suffix where two packages or HOL use
  it. Errors are values (\<open>go_error\<close>), a result with an error is a sum (\<open>result\<close>, \<open>Inl\<close> the
  error), and a function with effects takes the state last and returns it last. Go's \<open>int\<close> is
  \<open>int\<close> with \<open>wrap64\<close> and \<open>uint64\<close> where arithmetic can leave the range, strings are lists of
  bytes. What is not under \<open>src/\<close> is a parameter: the servers behind the two stores (\<open>pg_env\<close>,
  a client record with the laws \<open>redis_ok\<close>, and the fate of each request: served, refused, or done
  without an answer), the machine with its programs (\<open>machine\<close>), \<open>net/http\<close> (\<open>http_lib\<close>),
  the SSH library (\<open>ssh_lib\<close>), clocks, random bytes and identifiers. Log lines are left out.

  \<^bold>\<open>The theories.\<close>

  \<^item> \<open>Go_Prelude\<close>: errors, 64-bit wrap-around, the functions of \<open>strings\<close>, \<open>strconv\<close> and \<open>fmt\<close> in
    use, with their lemmas. \<open>Sha256\<close>: SHA-256 and HMAC on 32-bit words, base64 and hexadecimal.
    \<open>Json\<close> and \<open>Json_Print\<close>: reading JSON text into a struct and printing values; the reader runs on
    fuel \<open>2 * length s + 2\<close>, which \<open>scan_value_enough\<close> shows to be enough for every text, and
    what is printed reads back. \<open>Host\<close>: files, programs and environment of a machine.
  \<^item> \<open>Postgres\<close> (\<open>pkg/store/postgres.go\<close>, \<open>models.go\<close>): the tables as lists of records, each statement
    as a function of environment, time and tables, each method as statements under outcomes. Its
    locales give the laws of a statement, of one that changes a single table and of a query;
    every statement is an interpretation. \<open>Job_Lifecycle\<close> refines the tables to an abstract job that
    is pending, scheduled and running in turn. \<open>Provider_Presence\<close> follows the status of one provider.
  \<^item> \<open>Redis_Store\<close> (\<open>pkg/store/redis.go\<close>): the list of each provider, the counters and the set of
    tokens, as interpretations of a queue, of allocators and of a token store.
  \<^item> \<open>Stores\<close>: both stores side by side, and the locale \<open>store_client\<close> of the operations that use
    them. \<open>Registry\<close> (\<open>internal/registry\<close>) and \<open>Scheduler\<close> (\<open>internal/scheduler\<close>) interpret it.
  \<^item> \<open>Jwt\<close> (\<open>internal/api/jwt.go\<close>), \<open>Sshca\<close> (\<open>internal/sshca\<close>), \<open>Wgrelay\<close> (\<open>internal/wgrelay\<close>):
    token check, certificates, and the WireGuard interface of the control plane.
  \<^item> \<open>Api\<close> (\<open>internal/api/server.go\<close>): routes, request and answer types with their JSON tags, all
    handlers, the token middleware. \<open>System\<close>: requests, sweeps, token changes and time passing in any
    order (\<open>reaches\<close>), with the invariants that hold in every reachable state.
  \<^item> \<open>Client\<close> (\<open>pkg/api/client.go\<close>): the calls of the provider. \<open>End_To_End\<close> puts it on top of \<open>Serve\<close>
    with the text of both directions in between.
  \<^item> \<open>Firecracker\<close>, \<open>Container\<close>, \<open>Passthrough\<close> (\<open>internal/vm\<close>): the three kinds of machines.
    \<open>Tunnel\<close> (\<open>internal/tunnel\<close>): listeners, and the forwarder of a connection, whose two ends may send, be silent, end and
    break at any time while its two copies read and write in any order (\<open>forward_step\<close>).
    \<open>Attestation\<close>, \<open>Sysinfo\<close>, \<open>Prov_Wireguard\<close>: what a provider says of itself, its load, its keys.
  \<^item> \<open>Agent\<close> (\<open>internal/agent/agent.go\<close>): start-up, and the job loop, the goroutines of jobs and relays
    and the heartbeat as events that interleave over one node. \<open>Platform\<close> joins it with the control plane:
    its calls go over the wire, and anything else happens to the control plane in between.
  \<^item> \<open>Concurrent\<close>: each handler of \<open>Api\<close> taken apart into stages with one request to a store or one
    command each (\<open>register_step\<close>, \<open>deploy_step\<close>, \<open>poll_step\<close>, \<open>advance\<close>). That the two readings agree
    is \<open>serve_in_stages\<close>: the stages of one request, run one after the other, are \<open>Serve\<close>. \<open>site_run\<close> interleaves any number of
    handlers with one another and with the events of \<open>System\<close>, and may end the process between two stages.
    \<open>Busy_Platform\<close> puts an agent beside a control plane that works in this way.
  \<^item> \<open>Setup_Steps\<close>, \<open>Cp_Setup\<close>, \<open>Prov_Setup\<close> (\<open>internal/setup\<close> of both programs): the setup commands as
    lists of steps. The locale \<open>setup_command\<close> lifts what every step keeps to every number of complete or
    broken runs. \<open>Summary\<close> has what the commands print at the end.
  \<^item> \<open>Commands\<close> (\<open>cmd\<close> of both programs): flags and environment, the tokens an operator issues, and
    the start of the server (\<open>Serve_up\<close>).

  \<^bold>\<open>What is shown.\<close> Of the stores: well-formed tables, what each operation does on every branch, the
  refinement of the job life cycle, at most one delivery, liveness of heartbeats and sweeps, and bounds of
  the counters. Of the control plane as a whole: no job is delivered twice, addresses are distinct, every
  row stands for an issued token, however the handlers interleave; the buyers' routes do nothing without a valid token, and which tokens and
  certificates are valid when. Of the two programs together: a poll, a registration or a report over
  the wire is the operation of the scheduler, registry or store behind it; an agent that comes up works with
  the row that it was given; each job that it takes is running in the database under its id, is taken once
  and is reported once, unless a panic ends it. Of the agent: a machine that is returned has been booted; a relay loses
  nothing in either direction while both ends are open; waits end within their rounds. Of the setup commands: what
  exists survives every further run, except the files they write anew. Some
  theorems state defects exactly where the code has them, such as the job that is lost when
  the answer to a poll is late.

  \<^bold>\<open>Loops.\<close> All functions are total. The loops over attempts (\<open>wait_rounds\<close>, \<open>wait_server\<close>, \<open>token_loop\<close>)
  recurse over the attempts that are left. Loops that the code runs for ever (job loop, heartbeat,
  sweeper, accept loop) are taken over finite lists of their rounds, and the theorems hold for every
  such list. A poll that blocks is taken at the moment at which it is answered.

  \<^bold>\<open>Not modelled.\<close> The listener of the server with its time limits and the request log; help texts; the
  log level; \<open>main\<close>. They call libraries only, and nothing else depends on them. A program started by
  \<open>os/exec\<close> is modelled by what it answers and does to files, and its exit is taken to be immediate.
  What is atomic under interleaving is one request to a store, for \<open>NextPendingJob\<close> its transaction, and one
  program run on the machine of the control plane; rows locked by a concurrent transaction are an argument of
  \<open>NextPendingJob\<close>. A request that a client gives up on runs to its end: the cancelled context of the
  request reaches a store as one of the failures that every store request may have. Not covered are commands to
  Redis that the client library repeats by itself after a lost answer, providers whose id is no plain segment
  of a path (the control plane gives UUIDs), relays that end because \<open>Accept\<close> fails, and what an SSH server makes
  of the lines of \<open>authorized_keys\<close>. Jobs are handled by the agent one event each; that
  two goroutines can be given the same tap address is shown for the allocation alone (\<open>tap_addresses\<close>).
\<close>

end
